(* ===== verification/Prelude.thy ===== *)
theory Prelude
  imports Main "HOL-Library.Word" "HOL-Library.Multiset" "HOL-Library.Sublist"
begin

text \<open>
  What the components share: the widths of the C integer types, the errors a C program can
  end in (undefined behaviour, a failed assertion, a call of \<^verbatim>\<open>rte_exit\<close>), the result type
  of fallible code with its sequencing operator and its total-correctness predicate, and
  generic facts on lists and multisets.

  A fallible operation returns \<open>cerror + 'a\<close>: \<open>Err e\<close> is a run that ends in the error
  \<open>e\<close>, \<open>Ok x\<close> a run that returns \<open>x\<close>.  \<open>okp Q m\<close> says that \<open>m\<close> returns, and
  returns a value that satisfies \<open>Q\<close>; its rewrite rules (collected in \<open>res_simps\<close>) turn a
  goal about a whole operation into goals about its steps.
\<close>

unbundle bit_operations_syntax

named_theorems res_simps \<open>rewrite rules of the result type and its predicates\<close>
named_theorems inv_defs \<open>definitions of the invariants and the observation functions\<close>

type_synonym u8 = "8 word"
type_synonym u16 = "16 word"
type_synonym u32 = "32 word"
type_synonym u64 = "64 word"

section \<open>Errors and results\<close>

datatype cerror =
    OutOfBounds       \<comment> \<open>a read or write outside an object\<close>
  | NullDeref         \<comment> \<open>a NULL pointer is dereferenced\<close>
  | UseAfterFree      \<comment> \<open>a released object is read or released again\<close>
  | CheckFailed string  \<comment> \<open>a CHECK macro with this condition aborts the process\<close>
  | RteExit string    \<comment> \<open>\<^verbatim>\<open>rte_exit(EXIT_FAILURE, msg)\<close>\<close>
  | Uncaught string   \<comment> \<open>an exception that nothing catches\<close>
  | Exit string       \<comment> \<open>the script prints this message and calls \<^verbatim>\<open>exit()\<close>\<close>
  | Uninitialised     \<comment> \<open>memory is read that was never written\<close>
  | OutOfFuel         \<comment> \<open>the bound of the model's recursion is reached\<close>

type_synonym 'a res = "cerror + 'a"

abbreviation Ok :: "'a \<Rightarrow> 'a res" where
  "Ok \<equiv> Inr"

abbreviation Err :: "cerror \<Rightarrow> 'a res" where
  "Err \<equiv> Inl"

definition rbind :: "'a res \<Rightarrow> ('a \<Rightarrow> 'b res) \<Rightarrow> 'b res" where
  "rbind m f = (case m of Inl e \<Rightarrow> Inl e | Inr x \<Rightarrow> f x)"

definition okp :: "('a \<Rightarrow> bool) \<Rightarrow> 'a res \<Rightarrow> bool" where
  "okp Q m = (case m of Inl e \<Rightarrow> False | Inr x \<Rightarrow> Q x)"

lemma rbind_simps [simp, res_simps]:
  "rbind (Err e) f = Err e"
  "rbind (Ok x) f = f x"
  by (simp_all add: rbind_def)

lemma rbind_cong [fundef_cong]:
  "m = m' \<Longrightarrow> (\<And>x. m' = Ok x \<Longrightarrow> f x = f' x) \<Longrightarrow> rbind m f = rbind m' f'"
  by (auto simp: rbind_def split: sum.splits)

lemma rbind_eq_Ok [res_simps]: "(rbind m f = Ok y) = (\<exists>x. m = Ok x \<and> f x = Ok y)"
  by (cases m) simp_all

lemma rbind_eq_Err [res_simps]:
  "(rbind m f = Err e) = (m = Err e \<or> (\<exists>x. m = Ok x \<and> f x = Err e))"
  by (cases m) simp_all

lemma okp_simps [simp, res_simps]:
  "okp Q (Err e) = False"
  "okp Q (Ok x) = Q x"
  by (simp_all add: okp_def)

lemma okp_rbind [simp, res_simps]: "okp Q (rbind m f) = okp (\<lambda>x. okp Q (f x)) m"
  by (cases m) simp_all

lemma okp_iff: "okp Q m = (\<exists>x. m = Ok x \<and> Q x)"
  by (cases m) auto

lemma okp_mono: "okp P m \<Longrightarrow> (\<And>x. P x \<Longrightarrow> Q x) \<Longrightarrow> okp Q m"
  by (cases m) auto

lemma okp_conj: "okp P m \<Longrightarrow> okp Q m \<Longrightarrow> okp (\<lambda>x. P x \<and> Q x) m"
  by (cases m) auto

lemma okp_if [res_simps]: "okp Q (if b then m else m') = (if b then okp Q m else okp Q m')"
  by simp

lemma okp_ifI: "(c \<Longrightarrow> okp Q m) \<Longrightarrow> (\<not> c \<Longrightarrow> okp Q m') \<Longrightarrow> okp Q (if c then m else m')"
  by simp

text \<open>A bounded C array read: outside the array the behaviour is undefined.\<close>

definition idx :: "'a list \<Rightarrow> nat \<Rightarrow> 'a res" where
  "idx xs i = (if i < length xs then Ok (xs ! i) else Err OutOfBounds)"

lemma idx_in [simp]: "i < length xs \<Longrightarrow> idx xs i = Ok (xs ! i)"
  by (simp add: idx_def)

lemma idx_out [simp]: "length xs \<le> i \<Longrightarrow> idx xs i = Err OutOfBounds"
  by (simp add: idx_def)

lemma idx_OkD: "idx xs i = Ok x \<Longrightarrow> i < length xs \<and> x = xs ! i"
  by (simp add: idx_def split: if_splits)

text \<open>A pointer that is dereferenced: NULL is \<open>None\<close>.\<close>

definition deref :: "'a option \<Rightarrow> 'a res" where
  "deref p = (case p of None \<Rightarrow> Err NullDeref | Some x \<Rightarrow> Ok x)"

lemma deref_simps [simp]: "deref None = Err NullDeref" "deref (Some x) = Ok x"
  by (simp_all add: deref_def)

text \<open>A pointer to an allocated object: NULL, live, or to memory that was released.\<close>

datatype 'a cptr = Null | Live 'a | Dangling

definition access :: "'a cptr \<Rightarrow> 'a res" where
  "access p = (case p of Null \<Rightarrow> Err NullDeref | Dangling \<Rightarrow> Err UseAfterFree | Live x \<Rightarrow> Ok x)"

lemma access_simps [simp]:
  "access Null = Err NullDeref" "access Dangling = Err UseAfterFree" "access (Live x) = Ok x"
  by (simp_all add: access_def)

section \<open>Loops over a list\<close>

text \<open>A \<^verbatim>\<open>for\<close> loop whose body may fail: the first error ends the loop.\<close>

primrec rfold :: "('a \<Rightarrow> 's \<Rightarrow> 's res) \<Rightarrow> 'a list \<Rightarrow> 's \<Rightarrow> 's res" where
  "rfold f [] s = Ok s"
| "rfold f (x # xs) s = rbind (f x s) (rfold f xs)"

lemma rfold_append: "rfold f (xs @ ys) s = rbind (rfold f xs s) (rfold f ys)"
  by (induction xs arbitrary: s) (auto simp: rbind_def split: sum.splits)

lemma rfold_cong [fundef_cong]:
  "xs = ys \<Longrightarrow> s = t \<Longrightarrow> (\<And>x u. x \<in> set ys \<Longrightarrow> f x u = g x u) \<Longrightarrow> rfold f xs s = rfold g ys t"
proof (induction ys arbitrary: xs s t)
  case (Cons y ys)
  then have "rfold f ys = rfold g ys" by auto
  with Cons show ?case by (auto simp: rbind_def split: sum.splits)
qed simp

text \<open>The rule for loops: an invariant indexed by the elements already done.\<close>

lemma rfold_okp:
  assumes "P [] s"
    and "\<And>ys y zs t. xs = ys @ y # zs \<Longrightarrow> P ys t \<Longrightarrow> okp (P (ys @ [y])) (f y t)"
  shows "okp (P xs) (rfold f xs s)"
proof -
  have "okp (P xs) (rfold f zs t)" if "xs = ys @ zs" "P ys t" for ys zs t
    using that
  proof (induction zs arbitrary: ys t)
    case Nil
    then show ?case by simp
  next
    case (Cons z zs)
    from assms(2) [OF Cons.prems] have "okp (P (ys @ [z])) (f z t)" .
    then show ?case
      by (auto simp: Cons.prems(1) elim!: okp_mono intro!: Cons.IH [unfolded Cons.prems(1)])
  qed
  from this [of "[]" xs s] assms(1) show ?thesis by simp
qed

lemma rfold_okp_inv:
  assumes "I s" and "\<And>x t. x \<in> set xs \<Longrightarrow> I t \<Longrightarrow> okp I (f x t)"
  shows "okp I (rfold f xs s)"
  using assms by (intro rfold_okp [where P = "\<lambda>_. I"]) auto

section \<open>Lists and multisets\<close>

lemma sum_list_update_add:
  fixes f :: "'a \<Rightarrow> 'b::comm_monoid_add"
  assumes "i < length xs"
  shows "sum_list (map f (xs[i := y])) + f (xs ! i) = sum_list (map f xs) + f y"
  using assms
proof (induction xs arbitrary: i)
  case (Cons x xs)
  then show ?case
    by (cases i) (auto simp: ac_simps) 
qed simp

lemma mset_take_drop: "mset (take n xs) + mset (drop n xs) = mset xs"
  by (metis append_take_drop_id mset_append)

lemma take_list_update_Suc:
  "i < length xs \<Longrightarrow> take (Suc i) (xs[i := x]) = take i xs @ [x]"
  by (simp add: take_Suc_conv_app_nth)

lemma unat_word_of_nat:
  "n < 2 ^ LENGTH('a::len) \<Longrightarrow> unat (word_of_nat n :: 'a word) = n"
  by (simp add: unsigned_of_nat take_bit_nat_eq_self)

lemma subseq_append_take: "subseq (xs @ take n ys) (xs @ ys)"
  by (simp add: take_is_prefix prefix_imp_subseq)

end
