(* ===== verification/CLib.thy ===== *)
theory CLib
  imports Prelude
begin

text \<open>
  The parts of the C library the engine calls on text: \<^verbatim>\<open>snprintf\<close> with the \<^verbatim>\<open>%u\<close> conversion
  (\<open>dec_nat\<close>, \<open>snprintf_trunc\<close>), \<^verbatim>\<open>sscanf\<close> with \<^verbatim>\<open>%u\<close> (\<open>scan_u\<close>), the character
  classes and comparisons (\<open>isspace_c\<close>, \<open>tolower_c\<close>, \<open>cchar\<close>, \<open>strcmp_eq\<close>), and
  \<^verbatim>\<open>fgets\<close>.  A C string is a \<open>string\<close> whose end stands for the terminating NUL byte;
  a NUL byte inside the list ends the string for the functions that read it.
  The lemmas give the round trip of the decimal conversions.
\<close>

section \<open>Decimal output and input\<close>

definition digit_char :: "nat \<Rightarrow> char" where
  "digit_char d = char_of (48 + d)"

definition is_digit :: "char \<Rightarrow> bool" where
  "is_digit c \<longleftrightarrow> 48 \<le> (of_char c :: nat) \<and> (of_char c :: nat) \<le> 57"

definition digit_val :: "char \<Rightarrow> nat" where
  "digit_val c = of_char c - 48"

fun dec_nat :: "nat \<Rightarrow> string" where
  "dec_nat n = (if n < 10 then [digit_char n] else dec_nat (n div 10) @ [digit_char (n mod 10)])"

declare dec_nat.simps [simp del]

text \<open>The same for an integer.\<close>

definition dec_int :: "int \<Rightarrow> string" where
  "dec_int i = (if i < 0 then CHR ''-'' # dec_nat (nat (- i)) else dec_nat (nat i))"

text \<open>\<^verbatim>\<open>snprintf(buf, size, ...)\<close>: at most \<open>sz - 1\<close> characters are stored.\<close>

definition snprintf_trunc :: "nat \<Rightarrow> string \<Rightarrow> string" where
  "snprintf_trunc sz s = take (sz - 1) s"

definition isspace_c :: "char \<Rightarrow> bool" where
  "isspace_c c \<longleftrightarrow> (of_char c :: nat) = 32 \<or> (9 \<le> (of_char c :: nat) \<and> (of_char c :: nat) \<le> 13)"

definition digits_val :: "nat \<Rightarrow> string \<Rightarrow> nat" where
  "digits_val acc ds = foldl (\<lambda>a c. 10 * a + digit_val c) acc ds"

text \<open>
  The conversion \<^verbatim>\<open>%u\<close>: white space, an optional sign and at least one digit.  The number is
  read as \<^verbatim>\<open>strtoul\<close> does: it saturates at the largest 64-bit value, a minus sign negates it
  modulo \<open>2 ^ 64\<close>, and the stored \<^verbatim>\<open>unsigned int\<close> keeps the low 32 bits.
\<close>

definition strtoul_val :: "bool \<Rightarrow> nat \<Rightarrow> u64" where
  "strtoul_val neg n =
     (if 2 ^ 64 \<le> n then - 1 else if neg then - word_of_nat n else word_of_nat n)"

definition scan_u :: "string \<Rightarrow> (u32 \<times> string) option" where
  "scan_u s =
     (let s1 = dropWhile isspace_c s;
          neg = (case s1 of c # _ \<Rightarrow> c = CHR ''-'' | [] \<Rightarrow> False);
          s2 = (case s1 of c # cs \<Rightarrow> if c = CHR ''-'' \<or> c = CHR ''+'' then cs else s1 | [] \<Rightarrow> s1);
          ds = takeWhile is_digit s2
      in if ds = [] then None
         else Some (ucast (strtoul_val neg (digits_val 0 ds)), dropWhile is_digit s2))"

text \<open>\<^verbatim>\<open>sscanf(s, "%u.%u.%u.%u", ...)\<close>: the values of the conversions that succeeded.\<close>

definition scan_dot :: "string \<Rightarrow> string option" where
  "scan_dot s = (case s of c # cs \<Rightarrow> if c = CHR ''.'' then Some cs else None | [] \<Rightarrow> None)"

fun sscanf_dotted :: "nat \<Rightarrow> string \<Rightarrow> u32 list" where
  "sscanf_dotted 0 s = []"
| "sscanf_dotted (Suc n) s =
     (case scan_u s of
        None \<Rightarrow> []
      | Some (v, s') \<Rightarrow>
          v # (if n = 0 then []
               else case scan_dot s' of None \<Rightarrow> [] | Some s'' \<Rightarrow> sscanf_dotted n s''))"

section \<open>Characters and comparisons\<close>

text \<open>The byte a C string has at an index: the terminating NUL at its end.\<close>

definition cchar :: "string \<Rightarrow> nat \<Rightarrow> nat" where
  "cchar s i = (if i < length s then of_char (s ! i) else 0)"

definition tolower_c :: "nat \<Rightarrow> nat" where
  "tolower_c b = (if 65 \<le> b \<and> b \<le> 90 then b + 32 else b)"

text \<open>The characters before the first NUL: the C string that an array of bytes holds.\<close>

definition cstr :: "string \<Rightarrow> string" where
  "cstr s = takeWhile (\<lambda>c. c \<noteq> char_of (0::nat)) s"

definition strcmp_eq :: "string \<Rightarrow> string \<Rightarrow> bool" where
  "strcmp_eq s t \<longleftrightarrow> cstr s = cstr t"

section \<open>Line input\<close>

text \<open>
  \<^verbatim>\<open>fgets(buf, n, fp)\<close> on the unread bytes of a file: up to \<open>n - 1\<close> characters, ending
  after a newline.  NULL (\<open>None\<close>) when \<open>n\<close> is not positive, or when nothing is left and a
  character was wanted; with \<open>n = 1\<close> no character is wanted and the empty string is
  returned.
\<close>

fun line_prefix :: "nat \<Rightarrow> u8 list \<Rightarrow> u8 list" where
  "line_prefix 0 s = []"
| "line_prefix (Suc k) [] = []"
| "line_prefix (Suc k) (c # cs) = (if c = 10 then [c] else c # line_prefix k cs)"

definition fgets :: "int \<Rightarrow> u8 list \<Rightarrow> (u8 list \<times> u8 list) option" where
  "fgets n s =
     (if n \<le> 0 then None
      else if n = 1 then Some ([], s)
      else if s = [] then None
      else (let l = line_prefix (nat (n - 1)) s in Some (l, drop (length l) s)))"

section \<open>Facts\<close>

lemma char_of_nul [simp]: "char_of (0 :: nat) = CHR 0x00"
  by (simp add: char_of_eq_iff)

lemma of_char_digit_char: "d < 10 \<Longrightarrow> (of_char (digit_char d) :: nat) = 48 + d"
  by (simp add: digit_char_def)

lemma is_digit_digit_char [simp]: "d < 10 \<Longrightarrow> is_digit (digit_char d)"
  by (simp add: is_digit_def of_char_digit_char)

lemma digit_val_digit_char [simp]: "d < 10 \<Longrightarrow> digit_val (digit_char d) = d"
  by (simp add: digit_val_def of_char_digit_char)

lemma digit_not_space: "is_digit c \<Longrightarrow> \<not> isspace_c c"
  by (auto simp: is_digit_def isspace_c_def)

lemma digit_not_sign: "is_digit c \<Longrightarrow> c \<noteq> CHR ''-'' \<and> c \<noteq> CHR ''+''"
  by (auto simp: is_digit_def)

lemma dec_nat_digits: "\<forall>c \<in> set (dec_nat n). is_digit c"
proof (induction n rule: dec_nat.induct)
  case (1 n)
  then show ?case by (subst dec_nat.simps) auto
qed

lemma dec_nat_nonempty [simp]: "dec_nat n \<noteq> []"
  by (subst dec_nat.simps) simp

lemma digits_val_append: "digits_val acc (xs @ ys) = digits_val (digits_val acc xs) ys"
  by (simp add: digits_val_def)

lemma digits_val_dec_nat [simp]: "digits_val 0 (dec_nat n) = n"
proof (induction n rule: dec_nat.induct)
  case (1 n)
  show ?case
  proof (cases "n < 10")
    case True
    then show ?thesis by (subst dec_nat.simps) (simp add: digits_val_def)
  next
    case False
    with 1 have "digits_val 0 (dec_nat (n div 10)) = n div 10" by simp
    with False show ?thesis
      by (subst dec_nat.simps) (simp add: digits_val_append, simp add: digits_val_def)
  qed
qed

lemma takeWhile_digits_append:
  assumes "\<forall>c \<in> set ds. is_digit c" and "rest = [] \<or> \<not> is_digit (hd rest)"
  shows "takeWhile is_digit (ds @ rest) = ds" and "dropWhile is_digit (ds @ rest) = rest"
  using assms by (auto simp: takeWhile_append2 dropWhile_append2 takeWhile_eq_Nil_iff
      dropWhile_eq_self_iff)

text \<open>Reading a printed number gives it back, and leaves what follows it.\<close>

lemma scan_u_dec_nat:
  assumes "n < 2 ^ 32" and "rest = [] \<or> \<not> is_digit (hd rest)"
  shows "scan_u (dec_nat n @ rest) = Some (word_of_nat n, rest)"
proof -
  let ?s = "dec_nat n @ rest"
  obtain c cs where s: "dec_nat n = c # cs" by (cases "dec_nat n") auto
  with dec_nat_digits [of n] have c: "is_digit c" by simp
  from s c have d: "dropWhile isspace_c ?s = ?s" by (simp add: digit_not_space)
  from assms(1) have "n < 2 ^ 64" by simp
  then have v: "ucast (strtoul_val False n) = (word_of_nat n :: u32)"
    by (simp add: strtoul_val_def unsigned_of_nat take_bit_nat_eq_self flip: word_of_nat_eq_iff)
  from s c have neg: "(case ?s of a # _ \<Rightarrow> a = CHR ''-'' | [] \<Rightarrow> False) = False"
    by (simp add: digit_not_sign)
  from s c have s2: "(case ?s of a # as \<Rightarrow> if a = CHR ''-'' \<or> a = CHR ''+'' then as else ?s
      | [] \<Rightarrow> ?s) = ?s"
    by (simp add: digit_not_sign)
  from takeWhile_digits_append [OF dec_nat_digits assms(2), of n] v show ?thesis
    by (simp add: scan_u_def Let_def d neg s2)
qed

lemma scan_dot_dot [simp]: "scan_dot (CHR ''.'' # s) = Some s"
  by (simp add: scan_dot_def)

lemma dot_not_digit [simp]: "\<not> is_digit (CHR ''.'')"
  by (simp add: is_digit_def)

lemma length_dec_nat_3: "n < 1000 \<Longrightarrow> length (dec_nat n) \<le> 3"
  by (subst dec_nat.simps, subst dec_nat.simps, subst dec_nat.simps) simp

lemma line_prefix_prefix: "line_prefix k s = take (length (line_prefix k s)) s"
  by (induction k s rule: line_prefix.induct) auto

lemma line_prefix_length: "length (line_prefix k s) \<le> k"
  by (induction k s rule: line_prefix.induct) auto

lemma line_prefix_nonempty: "0 < k \<Longrightarrow> s \<noteq> [] \<Longrightarrow> line_prefix k s \<noteq> []"
  by (cases k; cases s) auto

end
