(* ===== verification/Dpdk.thy ===== *)
theory Dpdk
  imports Prelude
begin

text \<open>
  The interface of the engine to DPDK, which is not part of the repository.  The operations are
  a record \<open>dpdk\<close> of functions over abstract types of rings (\<open>'r\<close>), kernel network
  interfaces (\<open>'k\<close>) and longest-prefix-match tables (\<open>'l\<close>); every definition of the engine
  that calls DPDK takes that record as its argument.  What the engine relies on is stated by
  \<open>ring_spec\<close>, \<open>kni_spec\<close>, \<open>fresh_spec\<close> and \<open>lpm_spec\<close>, after the DPDK programmer's documentation: a
  bulk enqueue transfers all packets or none, a burst dequeue takes packets from the front, a
  transmit burst accepts a prefix, a table returns the next hop of the longest matching prefix.
  They speak about a device through observation functions (\<open>view\<close>), which say what a ring
  holds, what an interface has delivered to the engine and what it has accepted from it.

  At the end, \<open>list_dpdk\<close> is one implementation of the interface, with bounded lists; the
  witnesses of the properties run on it.
\<close>

section \<open>Packets\<close>

text \<open>
  A packet descriptor: its address and the bytes of its data room, from the start of the
  Ethernet header on.
\<close>

record rte_mbuf =
  m_addr :: nat
  m_data :: "u8 list"

definition null_mbuf :: rte_mbuf where
  "null_mbuf = \<lparr>m_addr = 0, m_data = []\<rparr>"

text \<open>Reads of the packet's bytes, and of 16- and 32-bit fields in network byte order.\<close>

definition rd8 :: "rte_mbuf \<Rightarrow> nat \<Rightarrow> u8 res" where
  "rd8 p i = idx (m_data p) i"

definition rd16_be :: "rte_mbuf \<Rightarrow> nat \<Rightarrow> u16 res" where
  "rd16_be p i =
     rbind (rd8 p i) (\<lambda>a. rbind (rd8 p (i + 1)) (\<lambda>b. Ok (push_bit 8 (ucast a) OR ucast b)))"

definition rd32_be :: "rte_mbuf \<Rightarrow> nat \<Rightarrow> u32 res" where
  "rd32_be p i =
     rbind (rd8 p i) (\<lambda>a. rbind (rd8 p (i + 1)) (\<lambda>b.
     rbind (rd8 p (i + 2)) (\<lambda>c. rbind (rd8 p (i + 3)) (\<lambda>d.
       Ok (push_bit 24 (ucast a) OR push_bit 16 (ucast b) OR push_bit 8 (ucast c) OR ucast d)))))"

section \<open>Operations\<close>

record rte_kni_conf =
  conf_name :: string
  conf_core_id :: u32
  conf_group_id :: u16
  conf_mbuf_size :: nat
  conf_force_bind :: bool

record ('r, 'k, 'l) dpdk =
  rte_pktmbuf_pool_create :: "bool"
  rte_calloc :: "bool"
  rte_ring_create :: "string \<Rightarrow> 'r option"
  rte_ring_enqueue_bulk :: "'r \<Rightarrow> rte_mbuf list \<Rightarrow> u32 \<times> 'r"
  rte_ring_dequeue_burst :: "'r \<Rightarrow> u32 \<Rightarrow> rte_mbuf list \<times> 'r"
  RTE_KNI_NAMESIZE :: nat
  rte_kni_alloc :: "rte_kni_conf \<Rightarrow> u16 \<Rightarrow> 'k option"
  rte_kni_release :: "'k \<Rightarrow> int"
  rte_kni_tx_burst :: "'k \<Rightarrow> rte_mbuf list \<Rightarrow> u32 \<times> 'k"
  rte_kni_rx_burst :: "'k \<Rightarrow> u32 \<Rightarrow> rte_mbuf list \<times> 'k"
  rte_kni_handle_request :: "'k \<Rightarrow> 'k"
  rte_lpm_create :: "string \<Rightarrow> 'l option"
  rte_lpm_add :: "'l option \<Rightarrow> u32 \<Rightarrow> u8 \<Rightarrow> u32 \<Rightarrow> int \<times> 'l option"
  rte_lpm_lookup :: "'l \<Rightarrow> u32 \<Rightarrow> int \<times> u32 option"

text \<open>
  The first two fields say whether the pool and the zeroed array could be allocated.
  \<open>rte_kni_alloc\<close> gets the configuration and the port number of the callbacks.  The second
  result of \<open>rte_lpm_lookup\<close> is the next hop the call stores through its pointer argument;
  \<open>None\<close> when it stores nothing.
\<close>

record ('r, 'k) view =
  ring_items :: "'r \<Rightarrow> rte_mbuf list"    \<comment> \<open>front of the ring first\<close>
  kni_intake :: "'k \<Rightarrow> rte_mbuf list"    \<comment> \<open>packets the engine received, oldest first\<close>
  kni_outbox :: "'k \<Rightarrow> rte_mbuf list"    \<comment> \<open>packets the kernel accepted, oldest first\<close>

section \<open>What the engine relies on\<close>

definition ring_spec :: "('r, 'k, 'l) dpdk \<Rightarrow> ('r, 'k) view \<Rightarrow> bool" where
  "ring_spec D V \<longleftrightarrow>
     (\<forall>r ps n r'. rte_ring_enqueue_bulk D r ps = (n, r') \<longrightarrow>
        unat n = length ps \<and> ring_items V r' = ring_items V r @ ps \<or>
        n = 0 \<and> ring_items V r' = ring_items V r) \<and>
     (\<forall>r k ps r'. rte_ring_dequeue_burst D r k = (ps, r') \<longrightarrow>
        length ps \<le> unat k \<and> ring_items V r = ps @ ring_items V r')"

text \<open>
  A received packet has at least the Ethernet and IPv4 headers in its data room: every mbuf of
  the pool has a data room of \<^verbatim>\<open>MBUF_DATA_SZ\<close> bytes.
\<close>

definition hdr_bytes :: nat where
  "hdr_bytes = 34"

definition kni_spec :: "('r, 'k, 'l) dpdk \<Rightarrow> ('r, 'k) view \<Rightarrow> bool" where
  "kni_spec D V \<longleftrightarrow>
     (\<forall>k ps n k'. rte_kni_tx_burst D k ps = (n, k') \<longrightarrow>
        unat n \<le> length ps \<and> kni_outbox V k' = kni_outbox V k @ take (unat n) ps \<and>
        kni_intake V k' = kni_intake V k) \<and>
     (\<forall>k n ps k'. rte_kni_rx_burst D k n = (ps, k') \<longrightarrow>
        length ps \<le> unat n \<and> kni_intake V k' = kni_intake V k @ ps \<and>
        kni_outbox V k' = kni_outbox V k \<and> (\<forall>p \<in> set ps. hdr_bytes \<le> length (m_data p))) \<and>
     (\<forall>k. kni_intake V (rte_kni_handle_request D k) = kni_intake V k \<and>
        kni_outbox V (rte_kni_handle_request D k) = kni_outbox V k)"

text \<open>A new ring is empty, a new interface has transferred nothing.\<close>

definition fresh_spec :: "('r, 'k, 'l) dpdk \<Rightarrow> ('r, 'k) view \<Rightarrow> bool" where
  "fresh_spec D V \<longleftrightarrow>
     (\<forall>name r. rte_ring_create D name = Some r \<longrightarrow> ring_items V r = []) \<and>
     (\<forall>conf port k. rte_kni_alloc D conf port = Some k \<longrightarrow> kni_intake V k = [] \<and> kni_outbox V k = [])"

text \<open>
  A table holds rules: a prefix with its length and a next hop.  \<open>lpm_search\<close> is the longest
  match, tried from the longest prefix down.
\<close>

definition depth_mask :: "nat \<Rightarrow> u32" where
  "depth_mask d = push_bit (32 - d) (- 1)"

type_synonym lpm_rules = "u32 \<times> nat \<Rightarrow> u32 option"

fun lpm_search :: "lpm_rules \<Rightarrow> u32 \<Rightarrow> nat \<Rightarrow> u32 option" where
  "lpm_search m ip 0 = None"
| "lpm_search m ip (Suc d) =
     (case m (ip AND depth_mask (Suc d), Suc d) of
        Some h \<Rightarrow> Some h
      | None \<Rightarrow> lpm_search m ip d)"

definition lpm_spec :: "('r, 'k, 'l) dpdk \<Rightarrow> ('l \<Rightarrow> lpm_rules) \<Rightarrow> bool" where
  "lpm_spec D R \<longleftrightarrow>
     (\<forall>name l. rte_lpm_create D name = Some l \<longrightarrow> R l = (\<lambda>_. None)) \<and>
     (\<forall>l ip d h ret l'. rte_lpm_add D (Some l) ip d h = (ret, l') \<longrightarrow>
        (if ret < 0 then l' = Some l
         else 1 \<le> unat d \<and> unat d \<le> 32 \<and>
           (\<exists>t. l' = Some t \<and> R t = (R l)((ip AND depth_mask (unat d), unat d) := Some h)))) \<and>
     (\<forall>ip d h ret l'. rte_lpm_add D None ip d h = (ret, l') \<longrightarrow> ret < 0 \<and> l' = None) \<and>
     (\<forall>l ip ret nh. rte_lpm_lookup D l ip = (ret, nh) \<longrightarrow>
        (case lpm_search (R l) ip 32 of
           Some h \<Rightarrow> ret = 0 \<and> nh = Some h
         | None \<Rightarrow> ret < 0))"

section \<open>Consequences\<close>

lemma ring_enqueue_cases:
  assumes "ring_spec D V" and "rte_ring_enqueue_bulk D r ps = (n, r')"
  obtains "unat n = length ps" "ring_items V r' = ring_items V r @ ps"
  | "n = 0" "ring_items V r' = ring_items V r"
  using assms unfolding ring_spec_def by blast

lemma ring_dequeue:
  assumes "ring_spec D V" and "rte_ring_dequeue_burst D r k = (ps, r')"
  shows "length ps \<le> unat k" and "ring_items V r = ps @ ring_items V r'"
  using assms unfolding ring_spec_def by blast+

lemma kni_tx:
  assumes "kni_spec D V" and "rte_kni_tx_burst D k ps = (n, k')"
  shows "unat n \<le> length ps" and "kni_outbox V k' = kni_outbox V k @ take (unat n) ps"
    and "kni_intake V k' = kni_intake V k"
  using assms unfolding kni_spec_def by blast+

lemma kni_rx:
  assumes "kni_spec D V" and "rte_kni_rx_burst D k n = (ps, k')"
  shows "length ps \<le> unat n" and "kni_intake V k' = kni_intake V k @ ps"
    and "kni_outbox V k' = kni_outbox V k" and "\<forall>p \<in> set ps. hdr_bytes \<le> length (m_data p)"
  using assms unfolding kni_spec_def by blast+

lemma kni_request [simp]:
  assumes "kni_spec D V"
  shows "kni_intake V (rte_kni_handle_request D k) = kni_intake V k"
    and "kni_outbox V (rte_kni_handle_request D k) = kni_outbox V k"
  using assms unfolding kni_spec_def by blast+

lemma lpm_add:
  assumes "lpm_spec D R" and "rte_lpm_add D (Some l) ip d h = (ret, l')" and "\<not> ret < 0"
  shows "1 \<le> unat d \<and> unat d \<le> 32 \<and>
    (\<exists>t. l' = Some t \<and> R t = (R l)((ip AND depth_mask (unat d), unat d) := Some h))"
proof -
  from assms(1,2) have "if ret < 0 then l' = Some l
      else 1 \<le> unat d \<and> unat d \<le> 32 \<and>
        (\<exists>t. l' = Some t \<and> R t = (R l)((ip AND depth_mask (unat d), unat d) := Some h))"
    unfolding lpm_spec_def by blast
  with assms(3) show ?thesis by simp
qed

lemma lpm_search_Some:
  assumes "lpm_search m ip n = Some h"
  obtains d where "1 \<le> d" "d \<le> n" "m (ip AND depth_mask d, d) = Some h"
    "\<And>e. d < e \<Longrightarrow> e \<le> n \<Longrightarrow> m (ip AND depth_mask e, e) = None"
  using assms
proof (induction n arbitrary: thesis)
  case (Suc n)
  show ?case
  proof (cases "m (ip AND depth_mask (Suc n), Suc n)")
    case None
    with Suc.prems have "lpm_search m ip n = Some h" by simp
    with Suc.IH obtain d where "1 \<le> d" "d \<le> n" "m (ip AND depth_mask d, d) = Some h"
      and "\<And>e. d < e \<Longrightarrow> e \<le> n \<Longrightarrow> m (ip AND depth_mask e, e) = None"
      by blast
    with None show ?thesis by (intro Suc.prems(1) [of d]) (auto simp: le_Suc_eq)
  next
    case (Some h')
    with Suc.prems show ?thesis by (intro Suc.prems(1) [of "Suc n"]) auto
  qed
qed simp

lemma lpm_search_None:
  "lpm_search m ip n = None \<longleftrightarrow> (\<forall>d. 1 \<le> d \<and> d \<le> n \<longrightarrow> m (ip AND depth_mask d, d) = None)"
  by (induction n) (auto simp: le_Suc_eq split: option.splits)

section \<open>An implementation with lists\<close>

record list_kni =
  lk_backlog :: "rte_mbuf list"
  lk_intake :: "rte_mbuf list"
  lk_outbox :: "rte_mbuf list"
  lk_room :: nat

type_synonym list_lpm = "((u32 \<times> nat) \<times> u32) list"

text \<open>
  A ring has 16384 slots, one of which stays free; an interface accepts packets while it has
  room; a table holds at most 1024 rules.
\<close>

definition list_lpm_add :: "list_lpm option \<Rightarrow> u32 \<Rightarrow> u8 \<Rightarrow> u32 \<Rightarrow> int \<times> list_lpm option" where
  "list_lpm_add l ip d h =
     (case l of
        None \<Rightarrow> (- 22, None)
      | Some t \<Rightarrow>
          if unat d < 1 \<or> 32 < unat d \<or> 1024 \<le> length t then (- 22, Some t)
          else (0, Some (((ip AND depth_mask (unat d), unat d), h) # t)))"

definition list_dpdk :: "(rte_mbuf list, list_kni, list_lpm) dpdk" where
  "list_dpdk =
     \<lparr>rte_pktmbuf_pool_create = True,
      rte_calloc = True,
      rte_ring_create = (\<lambda>name. Some []),
      rte_ring_enqueue_bulk =
        (\<lambda>r ps. if length r + length ps < 16384 then (word_of_nat (length ps), r @ ps) else (0, r)),
      rte_ring_dequeue_burst = (\<lambda>r k. (take (unat k) r, drop (unat k) r)),
      RTE_KNI_NAMESIZE = 16,
      rte_kni_alloc =
        (\<lambda>conf port. Some \<lparr>lk_backlog = [], lk_intake = [], lk_outbox = [], lk_room = 1024\<rparr>),
      rte_kni_release = (\<lambda>k. 0),
      rte_kni_tx_burst =
        (\<lambda>k ps. let n = min (length ps) (lk_room k) in
           if n < 2 ^ 32
           then (word_of_nat n, k\<lparr>lk_outbox := lk_outbox k @ take n ps, lk_room := lk_room k - n\<rparr>)
           else (0, k)),
      rte_kni_rx_burst =
        (\<lambda>k n. let ps = takeWhile (\<lambda>p. hdr_bytes \<le> length (m_data p)) (take (unat n) (lk_backlog k)) in
           (ps, k\<lparr>lk_backlog := drop (length ps) (lk_backlog k), lk_intake := lk_intake k @ ps\<rparr>)),
      rte_kni_handle_request = (\<lambda>k. k),
      rte_lpm_create = (\<lambda>name. Some []),
      rte_lpm_add = list_lpm_add,
      rte_lpm_lookup =
        (\<lambda>l ip. case lpm_search (map_of l) ip 32 of
           Some h \<Rightarrow> (0, Some h)
         | None \<Rightarrow> (- 2, Some 0))\<rparr>"

definition list_view :: "(rte_mbuf list, list_kni) view" where
  "list_view = \<lparr>ring_items = (\<lambda>r. r), kni_intake = lk_intake, kni_outbox = lk_outbox\<rparr>"

lemma list_ring_spec: "ring_spec list_dpdk list_view"
  by (auto simp: ring_spec_def list_dpdk_def list_view_def unat_word_of_nat split: if_splits)

lemma list_kni_spec: "kni_spec list_dpdk list_view"
  by (auto simp: kni_spec_def list_dpdk_def list_view_def Let_def unat_word_of_nat
      dest: set_takeWhileD intro: order.trans [OF length_takeWhile_le] split: if_splits)

lemma list_fresh_spec: "fresh_spec list_dpdk list_view"
  by (auto simp: fresh_spec_def list_dpdk_def list_view_def)

lemma list_lpm_spec: "lpm_spec list_dpdk map_of"
  by (auto simp: lpm_spec_def list_dpdk_def list_lpm_add_def fun_eq_iff
      split: if_splits option.splits)

end
