(* ===== verification/Firewall.thy ===== *)
theory Firewall
  imports CLib Dpdk
begin

text \<open>
  The firewall network function, \<^verbatim>\<open>engine/nfs/firewall/firewall.c\<close>: the conversions between
  addresses and dotted text, the packet handler with its counters, and the set-up and tear-down of
  the longest-prefix-match table.  (The reading of the rule file is in \<open>Fw_Rules\<close>.)  The
  global variables of \<^verbatim>\<open>firewall.h\<close> and \<^verbatim>\<open>coprocessor.h\<close> are the record \<open>fw_state\<close>; the
  array \<^verbatim>\<open>rules\<close> is a pointer that is NULL, points to live memory, or points to memory that was
  released.

  Shown: the decision of the handler on every branch (the next hop of the longest matching rule
  decides, the result code of the lookup does not), the crash on a packet whose IP version is not
  4, the round trip of address texts and the bound of their buffer, the contents of the table
  after set-up, and the second release of the rule array.
\<close>

section \<open>State\<close>

record fw_rule =
  src_ip :: u32
  depth :: u8
  action :: u8

record firewall_pkt_stats =
  pkt_drop :: u64
  pkt_accept :: u64
  pkt_not_ipv4 :: u64
  pkt_total :: u64

datatype FW_ACTION = FW_FORWARD | FW_DROP

record 'l fw_state =
  fw_stats :: firewall_pkt_stats
  lpm_tbl :: "'l option"
  rules :: "fw_rule option list cptr"
  num_rules :: int

definition fw_state0 :: "'l fw_state" where
  "fw_state0 = \<lparr>fw_stats = \<lparr>pkt_drop = 0, pkt_accept = 0, pkt_not_ipv4 = 0, pkt_total = 0\<rparr>,
     lpm_tbl = None, rules = Null, num_rules = 0\<rparr>"

section \<open>Addresses and text\<close>

definition RTE_IPV4 :: "u32 \<Rightarrow> u32 \<Rightarrow> u32 \<Rightarrow> u32 \<Rightarrow> u32" where
  "RTE_IPV4 a b c d =
     push_bit 24 (a AND 0xff) OR push_bit 16 (b AND 0xff) OR push_bit 8 (c AND 0xff) OR (d AND 0xff)"

definition fw_pkt_parse_char_ip :: "u32 \<Rightarrow> string" where
  "fw_pkt_parse_char_ip ipv4 =
     snprintf_trunc 16
       (dec_nat (unat (drop_bit 24 ipv4 AND 0xFF)) @ ''.'' @
        dec_nat (unat (drop_bit 16 ipv4 AND 0xFF)) @ ''.'' @
        dec_nat (unat (drop_bit 8 ipv4 AND 0xFF)) @ ''.'' @
        dec_nat (unat (ipv4 AND 0xFF)))"

text \<open>
  The result code and the destination; a NULL text or destination is \<open>None\<close>.  The destination
  keeps its old contents when the text is refused.
\<close>

definition fw_pkt_parse_ip :: "string option \<Rightarrow> u32 option \<Rightarrow> int \<times> u32 option" where
  "fw_pkt_parse_ip ip_str dest =
     (case ip_str of
        None \<Rightarrow> (- 1, dest)
      | Some s \<Rightarrow>
          if dest = None then (- 1, dest)
          else (case sscanf_dotted 4 s of
                  [a, b, c, d] \<Rightarrow> (0, Some (RTE_IPV4 a b c d))
                | _ \<Rightarrow> (- 1, dest)))"

section \<open>The packet handler\<close>

definition ether_hdr_len :: nat where
  "ether_hdr_len = 14"

text \<open>The offset of the IPv4 header in the packet, or NULL when the version is not 4.\<close>

definition fw_pkt_ipv4_hdr :: "rte_mbuf \<Rightarrow> nat option res" where
  "fw_pkt_ipv4_hdr pkt =
     rbind (rd8 pkt ether_hdr_len) (\<lambda>version_ihl.
       let version = drop_bit 4 version_ihl AND 0b1111 in
       if version \<noteq> 4 then Ok None else Ok (Some ether_hdr_len))"

definition fw_pkt_is_ipv4 :: "rte_mbuf \<Rightarrow> bool res" where
  "fw_pkt_is_ipv4 pkt = rbind (fw_pkt_ipv4_hdr pkt) (\<lambda>h. Ok (h \<noteq> None))"

definition bump_total :: "'l fw_state \<Rightarrow> 'l fw_state" where
  "bump_total s = s\<lparr>fw_stats := (fw_stats s)\<lparr>pkt_total := pkt_total (fw_stats s) + 1\<rparr>\<rparr>"

definition bump_not_ipv4 :: "'l fw_state \<Rightarrow> 'l fw_state" where
  "bump_not_ipv4 s = s\<lparr>fw_stats := (fw_stats s)\<lparr>pkt_not_ipv4 := pkt_not_ipv4 (fw_stats s) + 1\<rparr>\<rparr>"

text \<open>
  The assignments \<^verbatim>\<open>action = FW_DROP\<close> for a packet that is not IPv4 and for a lookup without a
  match are overwritten by the \<^verbatim>\<open>switch\<close> on the rule; \<^verbatim>\<open>rule\<close> is 0 before the lookup.
\<close>

definition fw_packet_handler ::
  "('r, 'k, 'l) dpdk \<Rightarrow> rte_mbuf \<Rightarrow> 'l fw_state \<Rightarrow> (FW_ACTION \<times> 'l fw_state) res" where
  "fw_packet_handler D pkt s =
     (let s1 = bump_total s in
      rbind (fw_pkt_is_ipv4 pkt) (\<lambda>is4.
      let s2 = (if \<not> is4 then bump_not_ipv4 s1 else s1) in
      rbind (fw_pkt_ipv4_hdr pkt) (\<lambda>hdr.
      rbind (deref hdr) (\<lambda>ip_hdr.
      rbind (rd32_be pkt (ip_hdr + 12)) (\<lambda>src_addr.
      rbind (deref (lpm_tbl s2)) (\<lambda>tbl.
        let (ret, next_hop) = rte_lpm_lookup D tbl src_addr;
            rule = (case next_hop of None \<Rightarrow> 0 | Some v \<Rightarrow> v);
            act = (if rule = 0 then FW_FORWARD else FW_DROP)
        in Ok (act, s2)))))))"

section \<open>The rule table\<close>

text \<open>\<^verbatim>\<open>rules[i]->\<close> for the rule array passed to set-up and tear-down.\<close>

definition rule_at :: "fw_rule option list cptr \<Rightarrow> nat \<Rightarrow> fw_rule res" where
  "rule_at rs i =
     (case rs of
        Null \<Rightarrow> Err NullDeref
      | Dangling \<Rightarrow> Err UseAfterFree
      | Live xs \<Rightarrow> rbind (idx xs i) deref)"

fun lpm_add_loop ::
  "('r, 'k, 'l) dpdk \<Rightarrow> fw_rule option list cptr \<Rightarrow> nat list \<Rightarrow> 'l option \<Rightarrow> (int \<times> 'l option) res" where
  "lpm_add_loop D rs [] tbl = Ok (0, tbl)"
| "lpm_add_loop D rs (i # is) tbl =
     rbind (rule_at rs i) (\<lambda>r.
       let (ret, tbl') = rte_lpm_add D tbl (src_ip r) (depth r) (ucast (action r))
       in if ret < 0 then Ok (1, tbl') else lpm_add_loop D rs is tbl')"

definition lpm_table_name :: "nat \<Rightarrow> u64 \<Rightarrow> string" where
  "lpm_table_name lcore_id tsc =
     snprintf_trunc 64 (''fw'' @ dec_nat lcore_id @ ''-'' @ dec_nat (unat tsc))"

definition lpm_setup ::
  "('r, 'k, 'l) dpdk \<Rightarrow> nat \<Rightarrow> u64 \<Rightarrow> fw_rule option list cptr \<Rightarrow> int \<Rightarrow> 'l fw_state \<Rightarrow>
     (int \<times> 'l fw_state) res" where
  "lpm_setup D lcore_id tsc rs n s =
     (let tbl = rte_lpm_create D (lpm_table_name lcore_id tsc) in
      rbind (lpm_add_loop D rs [0..<nat n] tbl) (\<lambda>(ret, tbl').
        Ok (ret, s\<lparr>lpm_tbl := tbl'\<rparr>)))"

text \<open>
  \<^verbatim>\<open>lpm_teardown\<close> releases each rule and the array, and leaves the pointer as it is: a pointer
  to the released array is dangling.
\<close>

definition lpm_teardown :: "fw_rule option list cptr \<Rightarrow> int \<Rightarrow> fw_rule option list cptr res" where
  "lpm_teardown rs n =
     (case rs of
        Null \<Rightarrow> Ok Null
      | Dangling \<Rightarrow> Err UseAfterFree
      | Live xs \<Rightarrow> if nat n \<le> length xs then Ok Dangling else Err OutOfBounds)"

section \<open>Facts about the handler\<close>

lemma fw_pkt_ipv4_hdr_cases:
  assumes "ether_hdr_len < length (m_data pkt)"
  shows "fw_pkt_ipv4_hdr pkt =
    (if drop_bit 4 (m_data pkt ! ether_hdr_len) AND 0b1111 = 4 then Ok (Some ether_hdr_len) else Ok None)"
  using assms by (simp add: fw_pkt_ipv4_hdr_def rd8_def Let_def)

lemma rd32_be_Ok: "i + 3 < length (m_data pkt) \<Longrightarrow> \<exists>v. rd32_be pkt i = Ok v"
  by (simp add: rd32_be_def rd8_def)

lemma fw_packet_handler_Ok:
  assumes "fw_pkt_ipv4_hdr pkt = Ok (Some h)" and "rd32_be pkt (h + 12) = Ok src"
    and "lpm_tbl s = Some tbl" and "rte_lpm_lookup D tbl src = (ret, nh)"
  shows "fw_packet_handler D pkt s =
    Ok (if (case nh of None \<Rightarrow> 0 | Some v \<Rightarrow> v) = 0 then FW_FORWARD else FW_DROP, bump_total s)"
  using assms by (simp add: fw_packet_handler_def fw_pkt_is_ipv4_def Let_def bump_total_def)

lemma fw_packet_handler_not_ipv4:
  assumes "fw_pkt_ipv4_hdr pkt = Ok None"
  shows "fw_packet_handler D pkt s = Err NullDeref"
  using assms by (simp add: fw_packet_handler_def fw_pkt_is_ipv4_def Let_def)

text \<open>The handler reads the tables and the packet, and writes the counters only.\<close>

lemma fw_packet_handler_frame:
  "fw_packet_handler D pkt s = Ok (a, s') \<Longrightarrow>
     lpm_tbl s' = lpm_tbl s \<and> rules s' = rules s \<and> num_rules s' = num_rules s"
  by (auto simp: fw_packet_handler_def Let_def rbind_eq_Ok bump_total_def bump_not_ipv4_def
      case_prod_beta split: if_splits)

section \<open>Facts about addresses and text\<close>

lemma and_0xFF_less: "unat ((w :: u32) AND 0xFF) < 256"
proof -
  have "w AND 0xFF \<le> 0xFF" by (rule word_and_le1)
  then have "unat (w AND 0xFF) \<le> unat (0xFF :: u32)" by (rule word_le_nat_alt [THEN iffD1])
  then show ?thesis by simp
qed

lemma dotted_no_trunc:
  assumes "a < 256" "b < 256" "c < 256" "d < 256"
  shows "length (dec_nat a @ ''.'' @ dec_nat b @ ''.'' @ dec_nat c @ ''.'' @ dec_nat d) \<le> 15"
  using length_dec_nat_3 [of a] length_dec_nat_3 [of b] length_dec_nat_3 [of c]
    length_dec_nat_3 [of d] assms by simp

lemma sscanf_dotted_dec:
  assumes "a < 256" "b < 256" "c < 256" "d < 256"
  shows "sscanf_dotted 4 (dec_nat a @ ''.'' @ dec_nat b @ ''.'' @ dec_nat c @ ''.'' @ dec_nat d) =
    [word_of_nat a, word_of_nat b, word_of_nat c, word_of_nat d]"
proof -
  have last: "scan_u (dec_nat d) = Some (word_of_nat d, [])"
    using scan_u_dec_nat [of d "[]"] assms by simp
  have "scan_u (dec_nat n @ CHR ''.'' # rest) = Some (word_of_nat n, CHR ''.'' # rest)"
    if "n < 256" for n rest
    using scan_u_dec_nat [of n "CHR ''.'' # rest"] that by simp
  with assms last show ?thesis by (simp add: eval_nat_numeral)
qed

lemma and_0xFF_take_bit: "(w :: u32) AND 0xFF = take_bit 8 w"
  by (simp add: take_bit_eq_mask mask_eq_exp_minus_1)

lemma RTE_IPV4_bytes:
  "RTE_IPV4 (drop_bit 24 ip) (drop_bit 16 ip) (drop_bit 8 ip) ip = ip" (is "?l = ip")
proof (rule bit_word_eqI)
  fix n :: nat
  assume "n < LENGTH(32)"
  then consider "n < 8" | "8 \<le> n" "n < 16" | "16 \<le> n" "n < 24" | "24 \<le> n" "n < 32"
    by fastforce
  then show "bit ?l n = bit ip n"
    by cases (auto simp: RTE_IPV4_def and_0xFF_take_bit bit_simps)
qed

lemma RTE_IPV4_masked:
  "RTE_IPV4 (a AND 0xFF) (b AND 0xFF) (c AND 0xFF) (d AND 0xFF) = RTE_IPV4 a b c d"
  by (simp add: RTE_IPV4_def ac_simps)

text \<open>Reading a printed address gives it back.\<close>

lemma ip_text_roundtrip:
  "fw_pkt_parse_ip (Some (fw_pkt_parse_char_ip ip)) (Some old) = (0, Some ip) \<and>
   length (fw_pkt_parse_char_ip ip) < 16"
proof -
  let ?a = "unat (drop_bit 24 ip AND 0xFF)" and ?b = "unat (drop_bit 16 ip AND 0xFF)"
    and ?c = "unat (drop_bit 8 ip AND 0xFF)" and ?d = "unat (ip AND 0xFF)"
  let ?s = "dec_nat ?a @ ''.'' @ dec_nat ?b @ ''.'' @ dec_nat ?c @ ''.'' @ dec_nat ?d"
  note small = and_0xFF_less [of "drop_bit 24 ip"] and_0xFF_less [of "drop_bit 16 ip"]
    and_0xFF_less [of "drop_bit 8 ip"] and_0xFF_less [of ip]
  from dotted_no_trunc [OF small] have len: "length ?s \<le> 15" .
  then have "snprintf_trunc 16 ?s = ?s" unfolding snprintf_trunc_def by simp
  then have s: "fw_pkt_parse_char_ip ip = ?s" unfolding fw_pkt_parse_char_ip_def .
  from sscanf_dotted_dec [OF small] have "fw_pkt_parse_ip (Some ?s) (Some old) = (0, Some ip)"
    by (simp add: fw_pkt_parse_ip_def RTE_IPV4_masked RTE_IPV4_bytes)
  with s len show ?thesis by (simp only: s) simp
qed

section \<open>Facts about set-up\<close>

text \<open>The rules a table holds after the rules of a list were added in order.\<close>

definition add_rule :: "lpm_rules \<Rightarrow> fw_rule \<Rightarrow> lpm_rules" where
  "add_rule m r =
     m((src_ip r AND depth_mask (unat (depth r)), unat (depth r)) := Some (ucast (action r)))"

lemma lpm_add_loop_Ok:
  assumes spec: "lpm_spec D R"
    and "lpm_add_loop D (Live (map Some rs)) is (Some l) = Ok (0, tbl)"
    and "\<forall>i \<in> set is. i < length rs"
  shows "\<exists>t. tbl = Some t \<and> R t = foldl add_rule (R l) (map (nth rs) is) \<and>
    (\<forall>i \<in> set is. 1 \<le> unat (depth (rs ! i)) \<and> unat (depth (rs ! i)) \<le> 32)"
  using assms(2,3)
proof (induction "is" arbitrary: l)
  case (Cons i "is")
  let ?r = "rs ! i"
  obtain ret l' where add: "rte_lpm_add D (Some l) (src_ip ?r) (depth ?r) (ucast (action ?r)) = (ret, l')"
    by fastforce
  from Cons.prems add have ret: "\<not> ret < 0"
    and rest: "lpm_add_loop D (Live (map Some rs)) is l' = Ok (0, tbl)"
    by (auto simp: rule_at_def Let_def split: if_splits)
  from lpm_add [OF spec add ret] obtain t where t: "l' = Some t" "R t = add_rule (R l) ?r"
    and d: "1 \<le> unat (depth ?r)" "unat (depth ?r) \<le> 32"
    by (auto simp: add_rule_def)
  from Cons.IH [of t] rest t Cons.prems(2) d show ?case by auto
qed auto

section \<open>Properties\<close>

text \<open>
  C16: the firewall forwards an IPv4 packet whose source address matches a rule of the table
  exactly when the next hop (the action) of the longest matching rule is 0, drops it otherwise, and
  counts it once; the decision depends on nothing else.
\<close>

theorem fw_decision_longest_match:
  assumes "lpm_spec D R" and "lpm_tbl s = Some tbl"
    and "fw_pkt_ipv4_hdr pkt = Ok (Some h)" and "rd32_be pkt (h + 12) = Ok src"
    and "lpm_search (R tbl) src 32 = Some hop"
  shows "fw_packet_handler D pkt s =
    Ok (if hop = 0 then FW_FORWARD else FW_DROP, bump_total s)"
proof -
  obtain ret nh where l: "rte_lpm_lookup D tbl src = (ret, nh)" by fastforce
  with assms(1,5) have "nh = Some hop" unfolding lpm_spec_def by (auto dest!: spec)
  with fw_packet_handler_Ok [OF assms(3,4,2) l] show ?thesis by simp
qed

text \<open>
  The result code of the lookup has no effect: the assignment of FW_DROP for a failed lookup is
  overwritten, and the decision is that of the value left in the variable for the next hop.
\<close>

theorem fw_ignores_lookup_result:
  "fw_packet_handler (D\<lparr>rte_lpm_lookup := \<lambda>tbl ip. (code tbl ip, snd (rte_lpm_lookup D tbl ip))\<rparr>) pkt s =
   fw_packet_handler D pkt s"
  by (simp add: fw_packet_handler_def case_prod_beta)

text \<open>
  C25: a packet whose IP version field is not 4 is not dropped: the handler counts it and
  then dereferences the NULL header, whatever the rules are.
\<close>

theorem fw_not_ipv4_null_deref:
  assumes "ether_hdr_len < length (m_data pkt)"
    and "drop_bit 4 (m_data pkt ! ether_hdr_len) AND 0b1111 \<noteq> 4"
  shows "fw_packet_handler D pkt s = Err NullDeref"
  using fw_pkt_ipv4_hdr_cases [OF assms(1)] assms(2) by (simp add: fw_packet_handler_not_ipv4)

text \<open>
  C24: reading the text that \<^verbatim>\<open>fw_pkt_parse_char_ip\<close> writes gives every address back, and the
  text fits the 16 bytes of its buffer.
\<close>

theorem fw_ip_text_roundtrip:
  "fw_pkt_parse_ip (Some (fw_pkt_parse_char_ip ip)) (Some old) = (0, Some ip) \<and>
   length (fw_pkt_parse_char_ip ip) < 16"
  by (rule ip_text_roundtrip)

text \<open>
  C17: when set-up returns 0, the table holds exactly the rules of the array, in their
  order (of two rules for one prefix the later one counts), and every rule has a prefix length
  between 1 and 32.
\<close>

theorem lpm_setup_table:
  assumes "lpm_spec D R" and "rte_lpm_create D (lpm_table_name lcore tsc) = Some l"
    and "lpm_setup D lcore tsc (Live (map Some rs)) (int (length rs)) s = Ok (0, s')"
  shows "\<exists>t. s' = s\<lparr>lpm_tbl := Some t\<rparr> \<and> R t = foldl add_rule (\<lambda>_. None) rs \<and>
    (\<forall>r \<in> set rs. 1 \<le> unat (depth r) \<and> unat (depth r) \<le> 32)"
proof -
  from assms(3) obtain tbl where tbl: "s' = s\<lparr>lpm_tbl := tbl\<rparr>"
    and loop: "lpm_add_loop D (Live (map Some rs)) [0..<length rs] (Some l) = Ok (0, tbl)"
    unfolding lpm_setup_def by (auto simp: assms(2) rbind_eq_Ok)
  from assms(1,2) have "R l = (\<lambda>_. None)" unfolding lpm_spec_def by blast
  with lpm_add_loop_Ok [OF assms(1) loop] obtain t where "tbl = Some t"
    and "R t = foldl add_rule (\<lambda>_. None) rs"
    and "\<forall>i < length rs. 1 \<le> unat (depth (rs ! i)) \<and> unat (depth (rs ! i)) \<le> 32"
    by (auto simp: map_nth)
  with tbl show ?thesis by (intro exI [of _ t]) (simp add: all_set_conv_all_nth)
qed

text \<open>
  Tear-down releases a live rule array once; a second tear-down through the same
  pointer, which every further coprocessor thread performs, uses released memory.
\<close>

theorem lpm_teardown_twice:
  "rbind (lpm_teardown (Live xs) (int (length xs))) (\<lambda>p. Ok p) = Ok Dangling \<and>
   rbind (lpm_teardown (Live xs) (int (length xs))) (\<lambda>p. lpm_teardown p (int (length xs))) =
     Err UseAfterFree"
  by (simp add: lpm_teardown_def)

section \<open>Witnesses\<close>

text \<open>
  An IPv4 packet with given version byte, source and destination, and a table with the two rules
  of \<^verbatim>\<open>rules.json\<close> and a rule that blocks one host.
\<close>

definition ip_packet :: "u8 \<Rightarrow> u8 list \<Rightarrow> u8 list \<Rightarrow> rte_mbuf" where
  "ip_packet vihl src dst =
     \<lparr>m_addr = 1, m_data = replicate 12 0 @ [8, 0, vihl] @ replicate 11 0 @ src @ dst\<rparr>"

definition sample_rules :: "fw_rule list" where
  "sample_rules =
     [\<lparr>src_ip = 0xC0A70A00, depth = 24, action = 0\<rparr>, \<lparr>src_ip = 0x0A0B0110, depth = 32, action = 0\<rparr>,
      \<lparr>src_ip = 0xC0A70A07, depth = 32, action = 1\<rparr>]"

definition sample_table :: list_lpm where
  "sample_table =
     [((0xC0A70A07, 32), 1), ((0x0A0B0110, 32), 0), ((0xC0A70A00, 24), 0)]"

lemma ip_packet_hdr:
  "fw_pkt_ipv4_hdr (ip_packet v src dst) =
     (if drop_bit 4 v AND 0b1111 = 4 then Ok (Some 14) else Ok None)"
  by (simp add: ip_packet_def fw_pkt_ipv4_hdr_def rd8_def ether_hdr_len_def nth_append)

lemma ip_packet_src:
  "rd32_be (ip_packet v [a, b, c, d] dst) 26 =
     Ok (push_bit 24 (ucast a) OR push_bit 16 (ucast b) OR push_bit 8 (ucast c) OR ucast d)"
  by (simp add: ip_packet_def rd32_be_def rd8_def nth_append)

lemma depth_mask_24: "depth_mask 24 = 0xFFFFFF00"
  by (simp add: depth_mask_def mask_eq_exp_minus_1)

lemma depth_mask_32: "depth_mask 32 = 0xFFFFFFFF"
  by (simp add: depth_mask_def)

lemma sample_table_blocked: "lpm_search (map_of sample_table) 0xC0A70A07 32 = Some 1"
  using lpm_search.simps(2) [of "map_of sample_table" "0xC0A70A07" 31]
  by (simp add: sample_table_def depth_mask_32)

theorem fw_decision_longest_match_witness:
  "fw_packet_handler list_dpdk (ip_packet 0x45 [192, 167, 10, 7] [192, 167, 10, 1])
     (fw_state0\<lparr>lpm_tbl := Some sample_table\<rparr>) =
   Ok (FW_DROP, bump_total (fw_state0\<lparr>lpm_tbl := Some sample_table\<rparr>))"
  using fw_decision_longest_match [OF list_lpm_spec _ _ _ sample_table_blocked,
      of "fw_state0\<lparr>lpm_tbl := Some sample_table\<rparr>"
         "ip_packet 0x45 [192, 167, 10, 7] [192, 167, 10, 1]" 14]
  by (simp add: ip_packet_hdr ip_packet_src)

theorem fw_not_ipv4_null_deref_witness:
  "fw_packet_handler list_dpdk (ip_packet 0x65 [8, 8, 8, 8] [192, 167, 10, 1])
     (fw_state0\<lparr>lpm_tbl := Some sample_table\<rparr>) = Err NullDeref"
  using fw_not_ipv4_null_deref [of "ip_packet 0x65 [8, 8, 8, 8] [192, 167, 10, 1]" list_dpdk
      "fw_state0\<lparr>lpm_tbl := Some sample_table\<rparr>"]
  by (simp add: ip_packet_def ether_hdr_len_def nth_append)

theorem lpm_setup_table_witness:
  "\<exists>s'. lpm_setup list_dpdk 0 7 (Live (map Some sample_rules)) 3 fw_state0 = Ok (0, s') \<and>
     (\<exists>t. s' = fw_state0\<lparr>lpm_tbl := Some t\<rparr> \<and> map_of t = foldl add_rule (\<lambda>_. None) sample_rules)"
proof -
  have "lpm_setup list_dpdk 0 7 (Live (map Some sample_rules)) 3 fw_state0 =
    Ok (0, fw_state0\<lparr>lpm_tbl := Some sample_table\<rparr>)"
    by (simp add: lpm_setup_def list_dpdk_def list_lpm_add_def sample_rules_def sample_table_def
        rule_at_def idx_def depth_mask_24 depth_mask_32 upt_rec)
  with lpm_setup_table [OF list_lpm_spec, of 0 7 "[]" sample_rules fw_state0]
  show ?thesis by (auto simp: list_dpdk_def sample_rules_def)
qed

end
