(* ===== verification/Engine_State.thy ===== *)
theory Engine_State
  imports Firewall
begin

text \<open>
  The data of the engine, \<^verbatim>\<open>engine/init.h\<close> and \<^verbatim>\<open>engine/switch.h\<close>: the staging buffers of
  packets, the configuration and routing table, the coprocessors with their rings, the counters,
  and all global variables of the engine as one record \<open>engine\<close>.  The routing table has
  \<open>0x10000\<close> entries of 16 bits, so it is a function on 16-bit words.  The list
  \<open>freed\<close> collects the packets given back to the pool by \<^verbatim>\<open>rte_pktmbuf_free\<close>.

  \<open>engine_ok\<close> is the well-formedness of an initialised engine, \<open>balance\<close> the multiset of
  all packets it accounts for.
\<close>

section \<open>Constants\<close>

definition UNKNOWN_PORT :: u32 where
  "UNKNOWN_PORT = 0xFFFF"

definition PKT_BURST_SZ :: nat where
  "PKT_BURST_SZ = 32"

definition KNI_KTHREAD :: nat where
  "KNI_KTHREAD = 5"

section \<open>Structures\<close>

record packet_buf =
  pb_buffer :: "rte_mbuf list"
  pb_count :: u16

record kni_config =
  cnf_id :: u32
  cnf_ip :: u32
  cnf_core_id :: u32

record queue_mgr =
  mgr_tx :: "packet_buf list cptr"
  nb_active_kni :: u16
  kni_cnf :: "kni_config list"
  routing_table :: "u16 \<Rightarrow> u16"

record 'r coprocessor_mgr =
  rx_q :: "'r option"
  tx_q :: "'r option"
  nf_rx :: packet_buf
  nf_tx :: packet_buf

record core_mapping =
  rx_lcore :: u16
  coproc_lcore_first :: u16
  coproc_lcore_last :: u16

record kni_interface_stats =
  k_rx_packets :: u64
  k_parse_err :: u64
  k_tx_packets :: u64
  k_tx_dropped :: u64

record coprocessor_stats =
  c_rx_packets :: u64
  c_rx_dropped :: u64
  c_tx_packets :: u64
  c_tx_dropped :: u64

record ('r, 'k, 'l) engine =
  pktmbuf_pool :: bool
  kni_list :: "'k option list"
  tx_mgr :: queue_mgr
  nf :: "'r coprocessor_mgr list"
  kni_stop :: "32 word"
  kni_stats :: "kni_interface_stats list"
  nf_stats :: "coprocessor_stats list"
  fw :: "'l fw_state"
  freed :: "rte_mbuf list"

section \<open>The zero-initialised program\<close>

definition packet_buf0 :: packet_buf where
  "packet_buf0 = \<lparr>pb_buffer = replicate PKT_BURST_SZ null_mbuf, pb_count = 0\<rparr>"

definition kni_stats0 :: kni_interface_stats where
  "kni_stats0 = \<lparr>k_rx_packets = 0, k_parse_err = 0, k_tx_packets = 0, k_tx_dropped = 0\<rparr>"

definition nf_stats0 :: coprocessor_stats where
  "nf_stats0 = \<lparr>c_rx_packets = 0, c_rx_dropped = 0, c_tx_packets = 0, c_tx_dropped = 0\<rparr>"

definition engine0 :: "('r, 'k, 'l) engine" where
  "engine0 =
     \<lparr>pktmbuf_pool = False,
      kni_list = replicate KNI_KTHREAD None,
      tx_mgr =
        \<lparr>mgr_tx = Null, nb_active_kni = 0,
         kni_cnf = replicate KNI_KTHREAD \<lparr>cnf_id = 0, cnf_ip = 0, cnf_core_id = 0\<rparr>,
         routing_table = (\<lambda>_. 0)\<rparr>,
      nf = replicate KNI_KTHREAD
        \<lparr>rx_q = None, tx_q = None, nf_rx = packet_buf0, nf_tx = packet_buf0\<rparr>,
      kni_stop = 0,
      kni_stats = replicate KNI_KTHREAD kni_stats0,
      nf_stats = replicate KNI_KTHREAD nf_stats0,
      fw = fw_state0,
      freed = []\<rparr>"

section \<open>Well-formedness\<close>

text \<open>The packets a staging buffer holds.\<close>

definition staged :: "packet_buf \<Rightarrow> rte_mbuf list" where
  "staged b = take (unat (pb_count b)) (pb_buffer b)"

text \<open>Between two operations a buffer is never full.\<close>

definition buf_ok :: "packet_buf \<Rightarrow> bool" where
  "buf_ok b \<longleftrightarrow> length (pb_buffer b) = PKT_BURST_SZ \<and> unat (pb_count b) < PKT_BURST_SZ"

definition nf_ok :: "'r coprocessor_mgr \<Rightarrow> bool" where
  "nf_ok c \<longleftrightarrow> rx_q c \<noteq> None \<and> tx_q c \<noteq> None \<and> buf_ok (nf_rx c) \<and> buf_ok (nf_tx c)"

definition mgr_bufs :: "queue_mgr \<Rightarrow> packet_buf list" where
  "mgr_bufs m = (case mgr_tx m of Live bufs \<Rightarrow> bufs | _ \<Rightarrow> [])"

definition mgr_ok :: "queue_mgr \<Rightarrow> bool" where
  "mgr_ok m \<longleftrightarrow>
     (\<exists>bufs. mgr_tx m = Live bufs \<and> length bufs = KNI_KTHREAD \<and> list_all buf_ok bufs) \<and>
     nb_active_kni m = word_of_nat KNI_KTHREAD"

definition routes_ok :: "queue_mgr \<Rightarrow> bool" where
  "routes_ok m \<longleftrightarrow>
     (\<forall>a. routing_table m a < nb_active_kni m \<or> ucast (routing_table m a) = UNKNOWN_PORT)"

definition engine_ok :: "('r, 'k, 'l) engine \<Rightarrow> bool" where
  "engine_ok s \<longleftrightarrow>
     mgr_ok (tx_mgr s) \<and> routes_ok (tx_mgr s) \<and>
     length (nf s) = KNI_KTHREAD \<and> list_all nf_ok (nf s) \<and>
     length (kni_list s) = KNI_KTHREAD \<and> list_all (\<lambda>k. k \<noteq> None) (kni_list s) \<and>
     length (kni_stats s) = KNI_KTHREAD \<and> length (nf_stats s) = KNI_KTHREAD"

section \<open>The packets the engine accounts for\<close>

definition ring_held :: "('r, 'k) view \<Rightarrow> 'r option \<Rightarrow> rte_mbuf list" where
  "ring_held V r = (case r of None \<Rightarrow> [] | Some q \<Rightarrow> ring_items V q)"

definition nf_held :: "('r, 'k) view \<Rightarrow> 'r coprocessor_mgr \<Rightarrow> rte_mbuf multiset" where
  "nf_held V c =
     mset (staged (nf_rx c)) + mset (ring_held V (rx_q c)) +
     mset (staged (nf_tx c)) + mset (ring_held V (tx_q c))"

definition kni_sent :: "('r, 'k) view \<Rightarrow> 'k option \<Rightarrow> rte_mbuf multiset" where
  "kni_sent V k = (case k of None \<Rightarrow> {#} | Some d \<Rightarrow> mset (kni_outbox V d))"

definition kni_received :: "('r, 'k) view \<Rightarrow> 'k option \<Rightarrow> rte_mbuf multiset" where
  "kni_received V k = (case k of None \<Rightarrow> {#} | Some d \<Rightarrow> mset (kni_intake V d))"

text \<open>Held in the engine, or out of it again: delivered to an interface, or released.\<close>

definition held :: "('r, 'k) view \<Rightarrow> ('r, 'k, 'l) engine \<Rightarrow> rte_mbuf multiset" where
  "held V s =
     sum_list (map (mset \<circ> staged) (mgr_bufs (tx_mgr s))) + sum_list (map (nf_held V) (nf s))"

definition delivered :: "('r, 'k) view \<Rightarrow> ('r, 'k, 'l) engine \<Rightarrow> rte_mbuf multiset" where
  "delivered V s = sum_list (map (kni_sent V) (kni_list s))"

definition balance :: "('r, 'k) view \<Rightarrow> ('r, 'k, 'l) engine \<Rightarrow> rte_mbuf multiset" where
  "balance V s = held V s + delivered V s + mset (freed s)"

definition received :: "('r, 'k) view \<Rightarrow> ('r, 'k, 'l) engine \<Rightarrow> rte_mbuf multiset" where
  "received V s = sum_list (map (kni_received V) (kni_list s))"

lemmas account_defs = balance_def held_def delivered_def received_def

section \<open>Facts\<close>

lemma mgr_bufs_Live [simp]: "mgr_tx m = Live bufs \<Longrightarrow> mgr_bufs m = bufs"
  by (simp add: mgr_bufs_def)

lemma list_all_update: "list_all P xs \<Longrightarrow> P x \<Longrightarrow> list_all P (xs[i := x])"
  by (auto simp: list_all_iff dest: set_update_subset_insert [THEN subsetD])

lemma list_all_nthD: "list_all P xs \<Longrightarrow> i < length xs \<Longrightarrow> P (xs ! i)"
  by (simp add: list_all_length)

lemma unat_KNI [simp]: "unat (word_of_nat KNI_KTHREAD :: u16) = KNI_KTHREAD"
  by (simp add: KNI_KTHREAD_def)

lemma staged_empty [simp]: "staged (b\<lparr>pb_count := 0\<rparr>) = []"
  by (simp add: staged_def)

lemma buf_ok_empty [simp]: "buf_ok b \<Longrightarrow> buf_ok (b\<lparr>pb_count := 0\<rparr>)"
  by (simp add: buf_ok_def PKT_BURST_SZ_def)

lemma staged_nil_iff: "buf_ok b \<Longrightarrow> staged b = [] \<longleftrightarrow> pb_count b = 0"
  by (auto simp: staged_def buf_ok_def PKT_BURST_SZ_def unat_eq_zero)

lemma length_staged [simp]: "buf_ok b \<Longrightarrow> length (staged b) = unat (pb_count b)"
  by (simp add: staged_def buf_ok_def)

end
