(* ===== verification/Json_Num.thy ===== *)
theory Json_Num
  imports CLib
begin

text \<open>
  Numbers as the JSON library sees them: the type \<^verbatim>\<open>double\<close> (binary64, as a sign, a significand
  and an exponent), \<^verbatim>\<open>strtod\<close> on decimal text with rounding to nearest even, the comparison
  with an \<^verbatim>\<open>int\<close> and the conversion to \<^verbatim>\<open>int\<close>.  The text that reaches \<^verbatim>\<open>strtod\<close> consists of
  digits, signs, the point and the exponent letter, so hexadecimal, infinity and NaN forms do not
  occur.  Shown: decimal integers below \<open>2 ^ 53\<close> are read exactly.
\<close>

section \<open>Binary64\<close>

text \<open>\<open>Fin neg m e\<close> is \<open>m * 2 ^ e\<close> with the sign \<open>neg\<close>.\<close>

datatype dbl = Fin bool nat int | Infinite bool

definition dbl0 :: dbl where
  "dbl0 = Fin False 0 (- 1074)"

fun bits :: "nat \<Rightarrow> nat" where
  "bits n = (if n = 0 then 0 else Suc (bits (n div 2)))"

declare bits.simps [simp del]

definition round_half_even :: "nat \<Rightarrow> nat \<Rightarrow> nat" where
  "round_half_even n d =
     (let k = n div d; r = n mod d in if d < 2 * r \<or> (2 * r = d \<and> odd k) then k + 1 else k)"

text \<open>The quotient \<open>p / q\<close> divided by \<open>2 ^ e\<close>, as a fraction.\<close>

definition num_at :: "nat \<Rightarrow> int \<Rightarrow> nat" where
  "num_at p e = p * 2 ^ nat (- e)"

definition den_at :: "nat \<Rightarrow> int \<Rightarrow> nat" where
  "den_at q e = q * 2 ^ nat e"

text \<open>The exponent for a significand of 53 bits; it is never below that of the smallest number.\<close>

definition dbl_exp :: "nat \<Rightarrow> nat \<Rightarrow> int" where
  "dbl_exp p q =
     (let e0 = int (bits p) - int (bits q) - 53
      in max (- 1074) (if 2 ^ 53 \<le> num_at p e0 div den_at q e0 then e0 + 1 else e0))"

definition pack_dbl :: "bool \<Rightarrow> nat \<Rightarrow> int \<Rightarrow> dbl" where
  "pack_dbl neg m e =
     (let (m', e') = (if m = 2 ^ 53 then (2 ^ 52, e + 1) else (m, e))
      in if 971 < e' then Infinite neg else Fin neg m' e')"

definition round_dbl :: "bool \<Rightarrow> nat \<Rightarrow> nat \<Rightarrow> dbl" where
  "round_dbl neg p q =
     (if p = 0 then Fin neg 0 (- 1074)
      else pack_dbl neg (round_half_even (num_at p (dbl_exp p q)) (den_at q (dbl_exp p q))) (dbl_exp p q))"

definition dbl_ge_int :: "dbl \<Rightarrow> int \<Rightarrow> bool" where
  "dbl_ge_int x n =
     (case x of
        Infinite neg \<Rightarrow> \<not> neg
      | Fin neg m e \<Rightarrow>
          n * int (den_at 1 (- e)) \<le> (if neg then - int (num_at m (- e)) else int (num_at m (- e))))"

definition dbl_le_int :: "dbl \<Rightarrow> int \<Rightarrow> bool" where
  "dbl_le_int x n =
     (case x of
        Infinite neg \<Rightarrow> neg
      | Fin neg m e \<Rightarrow>
          (if neg then - int (num_at m (- e)) else int (num_at m (- e))) \<le> n * int (den_at 1 (- e)))"

text \<open>The conversion \<^verbatim>\<open>(int) x\<close> of a value in range: towards zero.\<close>

definition dbl_trunc :: "dbl \<Rightarrow> int" where
  "dbl_trunc x =
     (case x of
        Infinite neg \<Rightarrow> 0
      | Fin neg m e \<Rightarrow>
          (let a = int (num_at m (- e) div den_at 1 (- e)) in if neg then - a else a))"

section \<open>Decimal text\<close>

definition is_dig :: "u8 \<Rightarrow> bool" where
  "is_dig b \<longleftrightarrow> 48 \<le> b \<and> b \<le> 57"

definition dig_val :: "u8 \<Rightarrow> nat" where
  "dig_val b = unat b - 48"

definition digs_val :: "u8 list \<Rightarrow> nat" where
  "digs_val ds = foldl (\<lambda>a b. 10 * a + dig_val b) 0 ds"

definition dec_to_dbl :: "bool \<Rightarrow> nat \<Rightarrow> int \<Rightarrow> dbl" where
  "dec_to_dbl neg m e10 = round_dbl neg (m * 10 ^ nat e10) (10 ^ nat (- e10))"

text \<open>An optional sign: whether it was a minus, and the rest.\<close>

definition take_sign :: "u8 list \<Rightarrow> bool \<times> u8 list" where
  "take_sign s =
     (case s of b # r \<Rightarrow> if b = 45 then (True, r) else if b = 43 then (False, r) else (False, s)
      | [] \<Rightarrow> (False, s))"

text \<open>An optional exponent part: its value and the rest.\<close>

definition take_exp :: "u8 list \<Rightarrow> int \<times> u8 list" where
  "take_exp s =
     (case s of
        b # r \<Rightarrow>
          if b = 101 \<or> b = 69 then
            (let (neg, r1) = take_sign r; ds = takeWhile is_dig r1 in
             if ds = [] then (0, s)
             else (if neg then - int (digs_val ds) else int (digs_val ds), dropWhile is_dig r1))
          else (0, s)
      | [] \<Rightarrow> (0, s))"

text \<open>The value, and the number of bytes that were used; 0 when there is no number.\<close>

definition strtod :: "u8 list \<Rightarrow> dbl \<times> nat" where
  "strtod s =
     (let (neg, s1) = take_sign s;
          ip = takeWhile is_dig s1;
          s2 = dropWhile is_dig s1;
          fp = (case s2 of b # r \<Rightarrow> if b = 46 then takeWhile is_dig r else [] | [] \<Rightarrow> []);
          s3 = (case s2 of b # r \<Rightarrow> if b = 46 then dropWhile is_dig r else s2 | [] \<Rightarrow> s2)
      in if ip = [] \<and> fp = [] then (dbl0, 0)
         else (let (ex, rest) = take_exp s3
               in (dec_to_dbl neg (digs_val (ip @ fp)) (ex - int (length fp)), length s - length rest)))"

text \<open>The pairs of significand and exponent that are in use, one for every finite value.\<close>

definition dbl_ok :: "nat \<Rightarrow> int \<Rightarrow> bool" where
  "dbl_ok m e \<longleftrightarrow> - 1074 \<le> e \<and> e \<le> 971 \<and> m < 2 ^ 53 \<and> (m < 2 ^ 52 \<longrightarrow> e = - 1074)"

definition is_double :: "dbl \<Rightarrow> bool" where
  "is_double d = (case d of Infinite _ \<Rightarrow> True | Fin _ m e \<Rightarrow> dbl_ok m e)"

section \<open>Facts\<close>

lemma take_sign_length: "length (snd (take_sign s)) \<le> length s"
  by (auto simp: take_sign_def split: list.splits)

lemma take_exp_length: "length (snd (take_exp s)) \<le> length s"
proof (cases s)
  case (Cons b r)
  have "length (dropWhile is_dig (snd (take_sign r))) \<le> Suc (length r)"
    using take_sign_length [of r] length_dropWhile_le [of is_dig "snd (take_sign r)"] by linarith
  with Cons show ?thesis by (simp add: take_exp_def Let_def case_prod_beta)
qed (simp add: take_exp_def)

text \<open>The conversion uses no more bytes than there are.\<close>

lemma strtod_used: "snd (strtod s) \<le> length s"
  by (simp add: strtod_def Let_def case_prod_beta)

lemma bits_bounds: "n < 2 ^ bits n \<and> (0 < n \<longrightarrow> 2 ^ (bits n - 1) \<le> n)"
proof (induction n rule: bits.induct)
  case (1 n)
  show ?case
  proof (cases "n = 0")
    case True
    then show ?thesis by (simp add: bits.simps)
  next
    case False
    with 1 have ih: "n div 2 < 2 ^ bits (n div 2)" "0 < n div 2 \<longrightarrow> 2 ^ (bits (n div 2) - 1) \<le> n div 2"
      by auto
    have b: "bits n = Suc (bits (n div 2))" using False by (subst bits.simps) simp
    have "2 ^ bits (n div 2) \<le> n"
    proof (cases "n div 2 = 0")
      case True
      with False show ?thesis by (simp add: bits.simps)
    next
      case pos: False
      then have "bits (n div 2) \<noteq> 0" by (subst bits.simps) simp
      then have "bits (n div 2) = Suc (bits (n div 2) - 1)" by simp
      with ih(2) pos have "2 ^ bits (n div 2) \<le> 2 * (n div 2)" by (metis neq0_conv mult_le_mono2 power_Suc)
      then show ?thesis by linarith
    qed
    with ih(1) b show ?thesis by simp
  qed
qed

lemma bits_le: "0 < n \<Longrightarrow> n < 2 ^ k \<Longrightarrow> bits n \<le> k"
proof (rule ccontr)
  assume "0 < n" "n < 2 ^ k" "\<not> bits n \<le> k"
  with bits_bounds [of n] have "2 ^ k \<le> (2 :: nat) ^ (bits n - 1)" "2 ^ (bits n - 1) \<le> n"
    by (simp_all add: power_increasing)
  with \<open>n < 2 ^ k\<close> show False by linarith
qed

lemma round_half_even_exact: "0 < d \<Longrightarrow> round_half_even (n * d) d = n"
  by (simp add: round_half_even_def)

text \<open>An integer below \<open>2 ^ 53\<close> is rounded to itself.\<close>

lemma round_dbl_nat:
  assumes "n < 2 ^ 53"
  obtains m e where "round_dbl neg n 1 = Fin neg m e" "e \<le> 0" "m = n * 2 ^ nat (- e)"
proof (cases "n = 0")
  case True
  then show thesis using that [of 0 "- 1074"] by (simp add: round_dbl_def)
next
  case False
  define e0 where "e0 = int (bits n) - 54"
  from False assms have b: "bits n \<le> 53" by (intro bits_le) simp_all
  from False have b1: "bits n \<noteq> 0" by (subst bits.simps) simp
  have one: "bits (Suc 0) = 1" by (simp add: bits.simps)
  have q: "num_at n e div den_at (Suc 0) e = n * 2 ^ nat (- e)" if "e \<le> 0" for e
    using that by (simp add: num_at_def den_at_def)
  have r: "round_half_even (num_at n e) (den_at (Suc 0) e) = n * 2 ^ nat (- e)" if "e \<le> 0" for e
    using that by (simp add: num_at_def den_at_def round_half_even_def)
  have e0: "e0 \<le> - 1" "- 53 \<le> e0" using b b1 by (simp_all add: e0_def)
  have le: "n * 2 ^ nat (- (e0 + 1)) < 2 ^ 53"
  proof -
    have "n * 2 ^ nat (- (e0 + 1)) < 2 ^ bits n * 2 ^ nat (- (e0 + 1))"
      using bits_bounds [of n] by simp
    also have "\<dots> = 2 ^ (bits n + nat (- (e0 + 1)))" by (simp add: power_add)
    also have "bits n + nat (- (e0 + 1)) = 53" using b by (simp add: e0_def)
    finally show ?thesis .
  qed
  define e where "e = dbl_exp n 1"
  have e: "e = (if 2 ^ 53 \<le> n * 2 ^ nat (- e0) then e0 + 1 else e0)"
    using e0 q [of e0] by (simp add: e_def dbl_exp_def one Let_def e0_def)
  with e0 have le0: "e \<le> 0" "- 53 \<le> e" by auto
  have "n * 2 ^ nat (- e) \<noteq> 2 ^ 53" using le e by auto
  then have "round_dbl neg n 1 = Fin neg (n * 2 ^ nat (- e)) e"
    using False le0 r [of e] by (simp add: round_dbl_def pack_dbl_def e_def)
  then show thesis using that le0 by blast
qed

lemma dec_to_dbl_nat:
  assumes "n < 2 ^ 53"
  shows "dbl_trunc (dec_to_dbl neg n 0) = (if neg then - int n else int n)"
    and "dbl_ge_int (dec_to_dbl neg n 0) k \<longleftrightarrow> k \<le> (if neg then - int n else int n)"
    and "dbl_le_int (dec_to_dbl neg n 0) k \<longleftrightarrow> (if neg then - int n else int n) \<le> k"
proof -
  from assms obtain m e where r: "round_dbl neg n 1 = Fin neg m e" "e \<le> 0" "m = n * 2 ^ nat (- e)"
    by (rule round_dbl_nat)
  then have d: "dec_to_dbl neg n 0 = Fin neg m e" by (simp add: dec_to_dbl_def)
  let ?d = "2 ^ nat (- e) :: int"
  have pos: "0 < ?d" by simp
  have v: "num_at m (- e) = n * 2 ^ nat (- e)" "den_at (Suc 0) (- e) = 2 ^ nat (- e)"
    using r by (simp_all add: num_at_def den_at_def)
  show "dbl_trunc (dec_to_dbl neg n 0) = (if neg then - int n else int n)"
    by (simp add: d dbl_trunc_def v)
  have "k * ?d \<le> int n * ?d \<longleftrightarrow> k \<le> int n" "k * ?d \<le> - (int n * ?d) \<longleftrightarrow> k \<le> - int n"
    "int n * ?d \<le> k * ?d \<longleftrightarrow> int n \<le> k" "- (int n * ?d) \<le> k * ?d \<longleftrightarrow> - int n \<le> k"
    using mult_le_cancel_right_pos [OF pos, of k "- int n"] mult_le_cancel_right_pos [OF pos, of "- int n" k]
      mult_le_cancel_right_pos [OF pos, of k "int n"] mult_le_cancel_right_pos [OF pos, of "int n" k]
    by simp_all
  then show "dbl_ge_int (dec_to_dbl neg n 0) k \<longleftrightarrow> k \<le> (if neg then - int n else int n)"
    "dbl_le_int (dec_to_dbl neg n 0) k \<longleftrightarrow> (if neg then - int n else int n) \<le> k"
    by (simp_all add: d dbl_ge_int_def dbl_le_int_def v)
qed

end
