(* ===== verification/Json_Data.thy ===== *)
theory Json_Data
  imports Json_Num
begin

text \<open>
  The data of the JSON library, \<^verbatim>\<open>engine/thirdparty/cJSON.h\<close> and the types of
  \<^verbatim>\<open>cJSON.c\<close>: items, the parse buffer with its allocation hooks, and the release of items.

  An item is its fields together with the list of its children (the C code links them by
  \<^verbatim>\<open>child\<close>, \<^verbatim>\<open>next\<close> and \<^verbatim>\<open>prev\<close>).  A string is the block of bytes in front of its terminator; bytes
  are \<open>u8\<close>.  The hooks decide for every allocation, by its number, whether it succeeds, and
  \<open>live\<close> counts the blocks that are allocated and not yet released, so that leaks are visible.
  Sizes and offsets are \<open>nat\<close>: they are bounded by the length of the input.
\<close>

section \<open>Characters\<close>

abbreviation ch_quote :: u8 where "ch_quote \<equiv> 34"
abbreviation ch_plus :: u8 where "ch_plus \<equiv> 43"
abbreviation ch_comma :: u8 where "ch_comma \<equiv> 44"
abbreviation ch_minus :: u8 where "ch_minus \<equiv> 45"
abbreviation ch_dot :: u8 where "ch_dot \<equiv> 46"
abbreviation ch_slash :: u8 where "ch_slash \<equiv> 47"
abbreviation ch_colon :: u8 where "ch_colon \<equiv> 58"
abbreviation ch_lbracket :: u8 where "ch_lbracket \<equiv> 91"
abbreviation ch_backslash :: u8 where "ch_backslash \<equiv> 92"
abbreviation ch_rbracket :: u8 where "ch_rbracket \<equiv> 93"
abbreviation ch_lbrace :: u8 where "ch_lbrace \<equiv> 123"
abbreviation ch_rbrace :: u8 where "ch_rbrace \<equiv> 125"

section \<open>Items\<close>

definition cJSON_Invalid :: u32 where "cJSON_Invalid = 0"
definition cJSON_False :: u32 where "cJSON_False = 1"
definition cJSON_True :: u32 where "cJSON_True = 2"
definition cJSON_NULL :: u32 where "cJSON_NULL = 4"
definition cJSON_Number :: u32 where "cJSON_Number = 8"
definition cJSON_String :: u32 where "cJSON_String = 16"
definition cJSON_Array :: u32 where "cJSON_Array = 32"
definition cJSON_Object :: u32 where "cJSON_Object = 64"
definition cJSON_Raw :: u32 where "cJSON_Raw = 128"
definition cJSON_IsReference :: u32 where "cJSON_IsReference = 256"
definition cJSON_StringIsConst :: u32 where "cJSON_StringIsConst = 512"

lemmas cJSON_types =
  cJSON_Invalid_def cJSON_False_def cJSON_True_def cJSON_NULL_def cJSON_Number_def cJSON_String_def
  cJSON_Array_def cJSON_Object_def cJSON_Raw_def cJSON_IsReference_def cJSON_StringIsConst_def

definition CJSON_NESTING_LIMIT :: nat where
  "CJSON_NESTING_LIMIT = 1000"

record cJSON_fields =
  jtype :: u32
  valuestring :: "u8 list option"
  valueint :: int
  valuedouble :: dbl
  jstring :: "u8 list option"

datatype cJSON = CJSON (jfields: cJSON_fields) (child: "cJSON list")

text \<open>The fields of a new item are zero.\<close>

definition fields0 :: cJSON_fields where
  "fields0 = \<lparr>jtype = cJSON_Invalid, valuestring = None, valueint = 0, valuedouble = dbl0, jstring = None\<rparr>"

section \<open>The parse buffer\<close>

record parse_buffer =
  content :: "u8 list"
  offset :: nat
  pdepth :: nat
  hooks :: "nat \<Rightarrow> bool"
  allocs :: nat
  live :: int

definition allocate :: "parse_buffer \<Rightarrow> bool \<times> parse_buffer" where
  "allocate b =
     (hooks b (allocs b),
      b\<lparr>allocs := allocs b + 1, live := live b + (if hooks b (allocs b) then 1 else 0)\<rparr>)"

definition deallocate :: "parse_buffer \<Rightarrow> parse_buffer" where
  "deallocate b = b\<lparr>live := live b - 1\<rparr>"

definition can_read :: "parse_buffer \<Rightarrow> nat \<Rightarrow> bool" where
  "can_read b n \<longleftrightarrow> offset b + n \<le> length (content b)"

definition can_access_at_index :: "parse_buffer \<Rightarrow> nat \<Rightarrow> bool" where
  "can_access_at_index b i \<longleftrightarrow> offset b + i < length (content b)"

text \<open>\<^verbatim>\<open>buffer_at_offset(buffer)[i]\<close>\<close>

definition buffer_at :: "parse_buffer \<Rightarrow> nat \<Rightarrow> u8 res" where
  "buffer_at b i = idx (content b) (offset b + i)"

text \<open>\<^verbatim>\<open>strncmp(buffer_at_offset(buffer), lit, strlen(lit)) == 0\<close>\<close>

definition strncmp_at :: "parse_buffer \<Rightarrow> u8 list \<Rightarrow> bool res" where
  "strncmp_at b lit =
     (if can_read b (length lit) then Ok (take (length lit) (drop (offset b) (content b)) = lit)
      else Err OutOfBounds)"

text \<open>\<^verbatim>\<open>can_access_at_index(buffer, 0) && buffer_at_offset(buffer)[0] == c\<close>\<close>

definition sees :: "parse_buffer \<Rightarrow> u8 \<Rightarrow> bool res" where
  "sees b c =
     (if can_access_at_index b 0 then rbind (buffer_at b 0) (\<lambda>x. Ok (x = c)) else Ok False)"

section \<open>Allocation and release of items\<close>

definition cJSON_New_Item :: "parse_buffer \<Rightarrow> cJSON_fields option \<times> parse_buffer" where
  "cJSON_New_Item b = (case allocate b of (ok, b') \<Rightarrow> (if ok then Some fields0 else None, b'))"

text \<open>The release of a list of items: per item its children, its strings, and itself.\<close>

fun cJSON_Delete :: "cJSON list \<Rightarrow> parse_buffer \<Rightarrow> parse_buffer" where
  "cJSON_Delete [] b = b"
| "cJSON_Delete (CJSON it cs # rest) b =
     (let b1 = (if jtype it AND cJSON_IsReference = 0 \<and> cs \<noteq> [] then cJSON_Delete cs b else b);
          b2 = (if jtype it AND cJSON_IsReference = 0 \<and> valuestring it \<noteq> None then deallocate b1 else b1);
          b3 = (if jtype it AND cJSON_StringIsConst = 0 \<and> jstring it \<noteq> None then deallocate b2 else b2)
      in cJSON_Delete rest (deallocate b3))"

text \<open>The blocks that the release of an item gives back.\<close>

definition own_blocks :: "cJSON_fields \<Rightarrow> int" where
  "own_blocks it =
     1 + (if jtype it AND cJSON_IsReference = 0 \<and> valuestring it \<noteq> None then 1 else 0)
       + (if jtype it AND cJSON_StringIsConst = 0 \<and> jstring it \<noteq> None then 1 else 0)"

fun blocks :: "cJSON \<Rightarrow> int" where
  "blocks (CJSON it cs) =
     own_blocks it + (if jtype it AND cJSON_IsReference = 0 then sum_list (map blocks cs) else 0)"

lemma cJSON_Delete_live:
  "cJSON_Delete items b = b\<lparr>live := live b - sum_list (map blocks items)\<rparr>"
proof (induction items b rule: cJSON_Delete.induct)
  case (2 it cs rest b)
  show ?case
    by (cases "cs = []")
      (use 2 in \<open>simp_all add: Let_def deallocate_def own_blocks_def split del: if_split split: if_splits\<close>)
qed simp

end
