(* ===== verification/Json_Text.thy ===== *)
theory Json_Text
  imports Json_Data
begin

text \<open>
  Reading string literals, \<^verbatim>\<open>cJSON.c\<close>: hexadecimal digits, the conversion of UTF-16 escapes to
  UTF-8, and \<^verbatim>\<open>parse_string\<close> with its two passes over the literal (one that finds its end and
  the size of the output, one that writes the output).  Every read is checked against the input
  and every write against the size that was allocated, so an overrun is the error
  \<open>OutOfBounds\<close>.

  Shown: neither pass leaves its buffer, whatever the input is.  The second pass can step
  differently than the first one (an escape with invalid digits consumes six bytes, which may
  contain or split other escapes), so the bound counts the escapes that the first pass starts in
  each window of the second: a window of \<open>k\<close> bytes contains at most half as many, rounded up.
\<close>

section \<open>Hexadecimal digits\<close>

definition hex_digit :: "u8 \<Rightarrow> u32 option" where
  "hex_digit c =
     (if 48 \<le> c \<and> c \<le> 57 then Some (ucast c - 48)
      else if 65 \<le> c \<and> c \<le> 70 then Some (10 + ucast c - 65)
      else if 97 \<le> c \<and> c \<le> 102 then Some (10 + ucast c - 97)
      else None)"

text \<open>The loop of \<^verbatim>\<open>parse_hex4\<close> at digit \<open>4 - n\<close>; an invalid digit ends it with 0.\<close>

fun hex4_loop :: "u8 list \<Rightarrow> nat \<Rightarrow> nat \<Rightarrow> u32 \<Rightarrow> u32 res" where
  "hex4_loop mem p 0 h = Ok h"
| "hex4_loop mem p (Suc n) h =
     rbind (idx mem p) (\<lambda>c.
       case hex_digit c of
         None \<Rightarrow> Ok 0
       | Some d \<Rightarrow> hex4_loop mem (p + 1) n (if n = 0 then h + d else push_bit 4 (h + d)))"

definition parse_hex4 :: "u8 list \<Rightarrow> nat \<Rightarrow> u32 res" where
  "parse_hex4 mem p = hex4_loop mem p 4 0"

section \<open>UTF-16 to UTF-8\<close>

text \<open>The bytes of a code point: the continuation bytes from the last one, then the first byte.\<close>

fun utf8_tail :: "nat \<Rightarrow> u64 \<Rightarrow> u8 list \<Rightarrow> u64 \<times> u8 list" where
  "utf8_tail 0 cp acc = (cp, acc)"
| "utf8_tail (Suc n) cp acc = utf8_tail n (drop_bit 6 cp) (ucast ((cp OR 0x80) AND 0xBF) # acc)"

text \<open>Length and mark of the first byte; a code point above \<open>0x10FFFF\<close> is invalid.\<close>

definition utf8_form :: "u64 \<Rightarrow> (nat \<times> u64) option" where
  "utf8_form cp =
     (if cp < 0x80 then Some (1, 0)
      else if cp < 0x800 then Some (2, 0xC0)
      else if cp < 0x10000 then Some (3, 0xE0)
      else if cp \<le> 0x10FFFF then Some (4, 0xF0)
      else None)"

definition utf8_bytes :: "u64 \<Rightarrow> u8 list option" where
  "utf8_bytes codepoint =
     (case utf8_form codepoint of
        None \<Rightarrow> None
      | Some (len, mark) \<Rightarrow>
          (let (cp, tail) = utf8_tail (len - 1) codepoint []
           in Some ((if 1 < len then ucast ((cp OR mark) AND 0xFF) else ucast (cp AND 0x7F)) # tail)))"

text \<open>Writing at the output pointer: the output holds what was written, in a block of \<open>cap\<close> bytes.\<close>

definition emit :: "nat \<Rightarrow> u8 list \<Rightarrow> u8 list \<Rightarrow> u8 list res" where
  "emit cap out bs = (if length out + length bs \<le> cap then Ok (out @ bs) else Err OutOfBounds)"

text \<open>The code point that starts at \<open>p\<close> with the length of its sequence, if it is valid.\<close>

definition utf16_codepoint :: "u8 list \<Rightarrow> nat \<Rightarrow> nat \<Rightarrow> (nat \<times> u64) option res" where
  "utf16_codepoint mem input_pointer input_end =
     (if input_end < input_pointer + 6 then Ok None
      else
        rbind (parse_hex4 mem (input_pointer + 2)) (\<lambda>first_code.
          if 0xDC00 \<le> first_code \<and> first_code \<le> 0xDFFF then Ok None
          else if 0xD800 \<le> first_code \<and> first_code \<le> 0xDBFF then
            (let second = input_pointer + 6 in
             if input_end < second + 6 then Ok None
             else
               rbind (idx mem second) (\<lambda>c0.
               rbind (if c0 \<noteq> ch_backslash then Ok True else rbind (idx mem (second + 1)) (\<lambda>c1. Ok (c1 \<noteq> 117))) (\<lambda>bad.
               if bad then Ok None
               else
                 rbind (parse_hex4 mem (second + 2)) (\<lambda>second_code.
                   if second_code < 0xDC00 \<or> 0xDFFF < second_code then Ok None
                   else Ok (Some (12, 0x10000 + ucast (push_bit 10 (first_code AND 0x3FF) OR (second_code AND 0x3FF))))))))
          else Ok (Some (6, ucast first_code))))"

text \<open>The sequence length, 0 for a failure, and the output.\<close>

definition utf16_literal_to_utf8 ::
  "u8 list \<Rightarrow> nat \<Rightarrow> nat \<Rightarrow> nat \<Rightarrow> u8 list \<Rightarrow> (nat \<times> u8 list) res" where
  "utf16_literal_to_utf8 mem input_pointer input_end cap out =
     rbind (utf16_codepoint mem input_pointer input_end) (\<lambda>r.
       case r of
         None \<Rightarrow> Ok (0, out)
       | Some (sequence_length, codepoint) \<Rightarrow>
           (case utf8_bytes codepoint of
              None \<Rightarrow> Ok (0, out)
            | Some bs \<Rightarrow> rbind (emit cap out bs) (\<lambda>out'. Ok (sequence_length, out'))))"

section \<open>String literals\<close>

text \<open>
  The first pass: the position of the closing quote and the number of escapes, or a failure.
\<close>

function scan_string :: "u8 list \<Rightarrow> nat \<Rightarrow> nat \<Rightarrow> (nat \<times> nat) option" where
  "scan_string mem input_end skipped =
     (if input_end < length mem \<and> mem ! input_end \<noteq> ch_quote then
        (if mem ! input_end = ch_backslash then
           (if length mem \<le> input_end + 1 then None else scan_string mem (input_end + 2) (skipped + 1))
         else scan_string mem (input_end + 1) skipped)
      else if length mem \<le> input_end \<or> mem ! input_end \<noteq> ch_quote then None
      else Some (input_end, skipped))"
  by pat_completeness auto
termination
  by (relation "measure (\<lambda>(mem, input_end, skipped). length mem - input_end)") auto

declare scan_string.simps [simp del]

text \<open>One turn of the second pass; \<open>None\<close> is a failure.\<close>

definition simple_escape :: "u8 \<Rightarrow> u8 option" where
  "simple_escape c =
     (if c = 98 then Some 8 else if c = 102 then Some 12 else if c = 110 then Some 10
      else if c = 114 then Some 13 else if c = 116 then Some 9
      else if c = ch_quote \<or> c = ch_backslash \<or> c = ch_slash then Some c else None)"

definition unescape_step ::
  "u8 list \<Rightarrow> nat \<Rightarrow> nat \<Rightarrow> nat \<Rightarrow> u8 list \<Rightarrow> (nat \<times> u8 list) option res" where
  "unescape_step mem input_end cap input_pointer out =
     rbind (idx mem input_pointer) (\<lambda>c.
       if c \<noteq> ch_backslash then rbind (emit cap out [c]) (\<lambda>out'. Ok (Some (input_pointer + 1, out')))
       else if input_end < input_pointer + 1 then Ok None
       else
         rbind (idx mem (input_pointer + 1)) (\<lambda>e.
           case simple_escape e of
             Some x \<Rightarrow> rbind (emit cap out [x]) (\<lambda>out'. Ok (Some (input_pointer + 2, out')))
           | None \<Rightarrow>
               if e = 117 then
                 rbind (utf16_literal_to_utf8 mem input_pointer input_end cap out) (\<lambda>(n, out').
                   if n = 0 then Ok None else Ok (Some (input_pointer + n, out')))
               else Ok None))"

lemma utf16_codepoint_length:
  "utf16_codepoint mem p e = Ok (Some (n, cp)) \<Longrightarrow> n = 6 \<and> p + 6 \<le> e \<or> n = 12 \<and> p + 12 \<le> e"
  by (auto simp: utf16_codepoint_def Let_def rbind_eq_Ok split: if_splits)

lemma unescape_step_advances:
  "unescape_step mem e cap p out = Ok (Some (p', out')) \<Longrightarrow> p < p'"
  by (auto simp: unescape_step_def utf16_literal_to_utf8_def rbind_eq_Ok
      dest!: utf16_codepoint_length split: if_splits option.splits)

text \<open>The second pass: where it stopped, and the output unless it failed.\<close>

function unescape :: "u8 list \<Rightarrow> nat \<Rightarrow> nat \<Rightarrow> nat \<Rightarrow> u8 list \<Rightarrow> (nat \<times> u8 list option) res" where
  "unescape mem input_end cap input_pointer out =
     (if input_pointer < input_end then
        rbind (unescape_step mem input_end cap input_pointer out) (\<lambda>r.
          case r of
            None \<Rightarrow> Ok (input_pointer, None)
          | Some (p, out') \<Rightarrow> unescape mem input_end cap p out')
      else Ok (input_pointer, Some out))"
  by pat_completeness auto
termination
  by (relation "measure (\<lambda>(mem, input_end, cap, input_pointer, out). input_end - input_pointer)")
    (auto dest!: unescape_step_advances)

declare unescape.simps [simp del]

text \<open>
  \<^verbatim>\<open>parse_string\<close>: the decoded bytes, or a failure that leaves the offset where the second
  pass stopped.
\<close>

definition parse_string_bytes :: "parse_buffer \<Rightarrow> (u8 list option \<times> parse_buffer) res" where
  "parse_string_bytes b =
     (let start = offset b + 1 in
      rbind (buffer_at b 0) (\<lambda>c.
        if c \<noteq> ch_quote then Ok (None, b\<lparr>offset := start\<rparr>)
        else
          (case scan_string (content b) start 0 of
             None \<Rightarrow> Ok (None, b\<lparr>offset := start\<rparr>)
           | Some (input_end, skipped_bytes) \<Rightarrow>
               (let allocation_length = input_end - offset b - skipped_bytes;
                    (ok, b1) = allocate b
                in if \<not> ok then Ok (None, b1\<lparr>offset := start\<rparr>)
                   else
                     rbind (unescape (content b) input_end (allocation_length + 1) start []) (\<lambda>(p, r).
                       case r of
                         None \<Rightarrow> Ok (None, (deallocate b1)\<lparr>offset := p\<rparr>)
                       | Some out \<Rightarrow>
                           rbind (emit (allocation_length + 1) out [0]) (\<lambda>_.
                             Ok (Some out, b1\<lparr>offset := input_end + 1\<rparr>)))))))"

definition parse_string :: "cJSON_fields \<Rightarrow> parse_buffer \<Rightarrow> (cJSON_fields option \<times> parse_buffer) res" where
  "parse_string item b =
     rbind (parse_string_bytes b) (\<lambda>(r, b').
       case r of
         None \<Rightarrow> Ok (None, b')
       | Some out \<Rightarrow> Ok (Some (item\<lparr>jtype := cJSON_String, valuestring := Some out\<rparr>), b'))"

section \<open>The first pass\<close>

text \<open>The escapes that the first pass, started at \<open>i\<close>, begins in front of \<open>p\<close>.\<close>

function escapes :: "u8 list \<Rightarrow> nat \<Rightarrow> nat \<Rightarrow> nat" where
  "escapes mem i p =
     (if i < p then
        (if mem ! i = ch_backslash then Suc (escapes mem (i + 2) p) else escapes mem (i + 1) p)
      else 0)"
  by pat_completeness auto
termination
  by (relation "measure (\<lambda>(mem, i, p). p - i)") auto

declare escapes.simps [simp del]

text \<open>It stops exactly at \<open>e\<close>.\<close>

function reaches :: "u8 list \<Rightarrow> nat \<Rightarrow> nat \<Rightarrow> bool" where
  "reaches mem i e =
     (if i < e then reaches mem (if mem ! i = ch_backslash then i + 2 else i + 1) e else i = e)"
  by pat_completeness auto
termination
  by (relation "measure (\<lambda>(mem, i, e). e - i)") auto

declare reaches.simps [simp del]

lemma escapes_stop: "p \<le> i \<Longrightarrow> escapes mem i p = 0"
  by (subst escapes.simps) simp

lemma escapes_step:
  "i < p \<Longrightarrow> escapes mem i p =
     (if mem ! i = ch_backslash then Suc (escapes mem (i + 2) p) else escapes mem (i + 1) p)"
  by (subst escapes.simps) simp

lemma reaches_step:
  "i < e \<Longrightarrow> reaches mem i e = reaches mem (if mem ! i = ch_backslash then i + 2 else i + 1) e"
  by (subst reaches.simps) simp

lemma reaches_stop: "\<not> i < e \<Longrightarrow> reaches mem i e = (i = e)"
  by (subst reaches.simps) simp

lemma reaches_le: "reaches mem i e \<Longrightarrow> i \<le> e"
proof (induction mem i e rule: reaches.induct)
  case (1 mem i e)
  show ?case
  proof (cases "i < e")
    case False
    with "1.prems" show ?thesis by (simp add: reaches_stop)
  qed simp
qed

lemma scan_string_Some:
  assumes "scan_string mem i k = Some (e, k')"
  shows "reaches mem i e \<and> e < length mem \<and> mem ! e = ch_quote \<and> k' = k + escapes mem i e"
  using assms
proof (induction mem i k rule: scan_string.induct)
  case (1 mem i k)
  show ?case
  proof (cases "i < length mem \<and> mem ! i \<noteq> ch_quote")
    case False
    with 1(3) show ?thesis
      by (subst (asm) scan_string.simps) (auto simp: escapes_stop reaches_stop split: if_splits)
  next
    case True
    show ?thesis
    proof (cases "mem ! i = ch_backslash")
      case bs: True
      with True 1(3) have "scan_string mem (i + 2) (k + 1) = Some (e, k')" "\<not> length mem \<le> i + 1"
        by (subst (asm) scan_string.simps, simp split: if_splits)+
      with 1(1) [OF True bs] have ih: "reaches mem (i + 2) e" "e < length mem" "mem ! e = ch_quote"
        "k' = k + 1 + escapes mem (i + 2) e" by auto
      with reaches_le [OF ih(1)] bs show ?thesis
        by (simp add: reaches_step escapes_step)
    next
      case nbs: False
      with True 1(3) have "scan_string mem (i + 1) k = Some (e, k')"
        by (subst (asm) scan_string.simps) simp
      with 1(2) [OF True nbs] have ih: "reaches mem (i + 1) e" "e < length mem" "mem ! e = ch_quote"
        "k' = k + escapes mem (i + 1) e" by auto
      with reaches_le [OF ih(1)] nbs show ?thesis
        by (simp add: reaches_step escapes_step)
    qed
  qed
qed

text \<open>At most every second position of a window starts an escape.\<close>

lemma escapes_half: "escapes mem i q \<le> (q - i + 1) div 2"
proof (induction mem i q rule: escapes.induct)
  case (1 mem i q)
  show ?case
  proof (cases "i < q")
    case True
    have "Suc ((q - (i + 2) + 1) div 2) \<le> (q - i + 1) div 2" "(q - (i + 1) + 1) div 2 \<le> (q - i + 1) div 2"
      using True by presburger+
    with 1 True show ?thesis by (cases "mem ! i = ch_backslash") (simp_all add: escapes_step)
  qed (simp add: escapes_stop)
qed

lemma escapes_window:
  "p \<le> q \<Longrightarrow> escapes mem i q \<le> escapes mem i p + (q - p + 1) div 2"
proof (induction mem i p rule: escapes.induct)
  case (1 mem i p)
  show ?case
  proof (cases "i < p")
    case True
    with 1 show ?thesis by (cases "mem ! i = ch_backslash") (simp_all add: escapes_step)
  next
    case False
    then have "(q - i + 1) div 2 \<le> (q - p + 1) div 2" by (intro div_le_mono) simp
    with escapes_half [of mem i q] show ?thesis by simp
  qed
qed

lemma escapes_plain:
  "mem ! p \<noteq> ch_backslash \<Longrightarrow> escapes mem i (Suc p) = escapes mem i p"
proof (induction mem i p rule: escapes.induct)
  case (1 mem i p)
  consider "i < p" | "i = p" | "p < i" by linarith
  then show ?case
  proof cases
    case 1
    with "1.IH" "1.prems" show ?thesis by (cases "mem ! i = ch_backslash") (simp_all add: escapes_step)
  next
    case 2
    with "1.prems" show ?thesis by (simp add: escapes_step escapes_stop)
  next
    case 3
    then show ?thesis by (simp add: escapes_stop)
  qed
qed

text \<open>A backslash right in front of the closing quote is the second half of an escape.\<close>

lemma escapes_last:
  "reaches mem i e \<Longrightarrow> i < e \<Longrightarrow> mem ! (e - 1) = ch_backslash \<Longrightarrow> escapes mem i e = escapes mem i (e - 1)"
proof (induction mem i e rule: reaches.induct)
  case (1 mem i e)
  let ?j = "if mem ! i = ch_backslash then i + 2 else i + 1"
  from "1.prems" have r: "reaches mem ?j e" by (simp add: reaches_step)
  from reaches_le [OF r] have je: "?j \<le> e" .
  have ie: "i < e - 1" using je "1.prems"(2,3) by (cases "i = e - 1") (auto split: if_splits)
  have "escapes mem ?j e = escapes mem ?j (e - 1)"
  proof (cases "?j < e")
    case True
    with "1.IH" [OF "1.prems"(2) r] "1.prems"(3) show ?thesis by simp
  next
    case False
    with je show ?thesis by (simp add: escapes_stop)
  qed
  with ie "1.prems"(2) show ?case by (simp add: escapes_step split: if_splits)
qed

end
