(* ===== verification/Json_Parse.thy ===== *)
theory Json_Parse
  imports Json_Text
begin

text \<open>
  The parser, \<^verbatim>\<open>cJSON.c\<close>: white space and byte order mark, numbers, values, arrays, objects and
  the entry points.  A parse function returns the completed item, or \<open>None\<close> where the C
  function returns false, together with the buffer.  The recursion of \<open>parse_value\<close> and the
  loops of \<open>parse_array\<close> and \<open>parse_object\<close> have fuel; one unit more than the length of the
  input is enough (shown in \<open>Json_Props\<close>).
\<close>

section \<open>White space\<close>

text \<open>Every byte up to 32 counts, also the terminating NUL; the offset stays inside the buffer.\<close>

definition buffer_skip_whitespace :: "parse_buffer \<Rightarrow> parse_buffer" where
  "buffer_skip_whitespace b =
     (let n = offset b + length (takeWhile (\<lambda>c. c \<le> 32) (drop (offset b) (content b)))
      in b\<lparr>offset := if n = length (content b) then n - 1 else n\<rparr>)"

text \<open>NULL unless the offset is 0.\<close>

definition skip_utf8_bom :: "parse_buffer \<Rightarrow> parse_buffer option res" where
  "skip_utf8_bom b =
     (if offset b \<noteq> 0 then Ok None
      else if can_access_at_index b 4 then
        rbind (strncmp_at b [0xEF, 0xBB, 0xBF]) (\<lambda>bom.
          Ok (Some (if bom then b\<lparr>offset := offset b + 3\<rparr> else b)))
      else Ok (Some b))"

section \<open>Numbers\<close>

definition INT_MAX :: int where
  "INT_MAX = 2147483647"

definition INT_MIN :: int where
  "INT_MIN = - 2147483648"

definition number_char :: "u8 \<Rightarrow> bool" where
  "number_char c \<longleftrightarrow>
     48 \<le> c \<and> c \<le> 57 \<or> c = ch_plus \<or> c = ch_minus \<or> c = 101 \<or> c = 69 \<or> c = ch_dot"

definition saturate :: "dbl \<Rightarrow> int" where
  "saturate x =
     (if dbl_ge_int x INT_MAX then INT_MAX
      else if dbl_le_int x INT_MIN then INT_MIN
      else dbl_trunc x)"

text \<open>At most 63 characters are copied for \<^verbatim>\<open>strtod\<close>; the decimal point is a dot.\<close>

definition parse_number :: "cJSON_fields \<Rightarrow> parse_buffer \<Rightarrow> cJSON_fields option \<times> parse_buffer" where
  "parse_number item b =
     (let number_c_string = takeWhile number_char (take 63 (drop (offset b) (content b)));
          (number, used) = strtod number_c_string
      in if used = 0 then (None, b)
         else (Some (item\<lparr>valuedouble := number, valueint := saturate number, jtype := cJSON_Number\<rparr>),
               b\<lparr>offset := offset b + used\<rparr>))"

section \<open>Arrays and objects\<close>

type_synonym value_parser = "cJSON_fields \<Rightarrow> parse_buffer \<Rightarrow> (cJSON option \<times> parse_buffer) res"

text \<open>
  What follows a completed element, the end of both loops: another turn, the closing character, or
  a failure that releases the elements.
\<close>

definition loop_end ::
  "u8 \<Rightarrow> (cJSON list \<Rightarrow> parse_buffer \<Rightarrow> (cJSON list option \<times> parse_buffer) res) \<Rightarrow>
     cJSON list \<Rightarrow> parse_buffer \<Rightarrow> (cJSON list option \<times> parse_buffer) res" where
  "loop_end close_ch again items b =
     (let b' = buffer_skip_whitespace b in
      rbind (sees b' ch_comma) (\<lambda>more.
        if more then again items b'
        else rbind (sees b' close_ch) (\<lambda>close.
          if close then Ok (Some items, b') else Ok (None, cJSON_Delete items b'))))"

fun array_loop :: "value_parser \<Rightarrow> nat \<Rightarrow> cJSON list \<Rightarrow> parse_buffer \<Rightarrow> (cJSON list option \<times> parse_buffer) res" where
  "array_loop pv 0 done b = Err OutOfFuel"
| "array_loop pv (Suc n) done b =
     (case cJSON_New_Item b of
        (None, b1) \<Rightarrow> Ok (None, cJSON_Delete done b1)
      | (Some new_item, b1) \<Rightarrow>
          rbind (pv new_item (buffer_skip_whitespace (b1\<lparr>offset := offset b1 + 1\<rparr>))) (\<lambda>(r, b2).
            case r of
              None \<Rightarrow> Ok (None, cJSON_Delete (done @ [CJSON new_item []]) b2)
            | Some x \<Rightarrow> loop_end ch_rbracket (\<lambda>items c. array_loop pv n items c) (done @ [x]) b2))"

text \<open>
  From the opening character on, \<^verbatim>\<open>parse_array\<close> and \<^verbatim>\<open>parse_object\<close> are the same: an empty list, a
  step back in front of the first element and the loop, and the completion of the item.
\<close>

definition bracketed ::
  "u8 \<Rightarrow> u32 \<Rightarrow> (parse_buffer \<Rightarrow> (cJSON list option \<times> parse_buffer) res) \<Rightarrow> value_parser" where
  "bracketed close_ch ty loop item b =
     (let b1 = buffer_skip_whitespace (b\<lparr>offset := offset b + 1\<rparr>) in
      rbind (sees b1 close_ch) (\<lambda>empty.
        rbind
          (if empty then Ok (Some [], b1)
           else if \<not> can_access_at_index b1 0 then Ok (None, b1\<lparr>offset := offset b1 - 1\<rparr>)
           else loop (b1\<lparr>offset := offset b1 - 1\<rparr>)) (\<lambda>(r, b2).
          case r of
            None \<Rightarrow> Ok (None, b2)
          | Some items \<Rightarrow>
              Ok (Some (CJSON (item\<lparr>jtype := ty\<rparr>) items),
                  b2\<lparr>pdepth := pdepth b2 - 1, offset := offset b2 + 1\<rparr>))))"

definition parse_array :: "value_parser \<Rightarrow> nat \<Rightarrow> value_parser" where
  "parse_array pv n item b =
     (if CJSON_NESTING_LIMIT \<le> pdepth b then Ok (None, b)
      else
        (let b0 = b\<lparr>pdepth := pdepth b + 1\<rparr> in
         rbind (buffer_at b0 0) (\<lambda>c.
           if c \<noteq> ch_lbracket then Ok (None, b0)
           else bracketed ch_rbracket cJSON_Array (array_loop pv n []) item b0)))"

text \<open>The name of a member becomes the field \<^verbatim>\<open>string\<close> of the item.\<close>

definition take_name :: "cJSON_fields \<Rightarrow> cJSON_fields" where
  "take_name it = it\<lparr>jstring := valuestring it, valuestring := None\<rparr>"

fun object_loop :: "value_parser \<Rightarrow> nat \<Rightarrow> cJSON list \<Rightarrow> parse_buffer \<Rightarrow> (cJSON list option \<times> parse_buffer) res" where
  "object_loop pv 0 done b = Err OutOfFuel"
| "object_loop pv (Suc n) done b =
     (case cJSON_New_Item b of
        (None, b1) \<Rightarrow> Ok (None, cJSON_Delete done b1)
      | (Some new_item, b1) \<Rightarrow>
          rbind (parse_string new_item (buffer_skip_whitespace (b1\<lparr>offset := offset b1 + 1\<rparr>))) (\<lambda>(rn, b2).
            case rn of
              None \<Rightarrow> Ok (None, cJSON_Delete (done @ [CJSON new_item []]) b2)
            | Some nm \<Rightarrow>
                (let b3 = buffer_skip_whitespace b2;
                     item = take_name nm
                 in rbind (sees b3 ch_colon) (\<lambda>colon.
                   if \<not> colon then Ok (None, cJSON_Delete (done @ [CJSON item []]) b3)
                   else
                     rbind (pv item (buffer_skip_whitespace (b3\<lparr>offset := offset b3 + 1\<rparr>))) (\<lambda>(r, b4).
                       case r of
                         None \<Rightarrow> Ok (None, cJSON_Delete (done @ [CJSON item []]) b4)
                       | Some x \<Rightarrow> loop_end ch_rbrace (\<lambda>items c. object_loop pv n items c) (done @ [x]) b4)))))"

definition parse_object :: "value_parser \<Rightarrow> nat \<Rightarrow> value_parser" where
  "parse_object pv n item b =
     (if CJSON_NESTING_LIMIT \<le> pdepth b then Ok (None, b)
      else
        (let b0 = b\<lparr>pdepth := pdepth b + 1\<rparr> in
         rbind (sees b0 ch_lbrace) (\<lambda>opened.
           if \<not> opened then Ok (None, b0)
           else bracketed ch_rbrace cJSON_Object (object_loop pv n []) item b0)))"

section \<open>Values\<close>

text \<open>\<^verbatim>\<open>can_read(buffer, n) && strncmp(buffer_at_offset(buffer), lit, n) == 0\<close>\<close>

definition sees_literal :: "parse_buffer \<Rightarrow> u8 list \<Rightarrow> bool res" where
  "sees_literal b lit = (if can_read b (length lit) then strncmp_at b lit else Ok False)"

definition sees_number :: "parse_buffer \<Rightarrow> bool res" where
  "sees_number b =
     (if can_access_at_index b 0
      then rbind (buffer_at b 0) (\<lambda>c. Ok (c = ch_minus \<or> 48 \<le> c \<and> c \<le> 57)) else Ok False)"

abbreviation lit_null :: "u8 list" where "lit_null \<equiv> [110, 117, 108, 108]"
abbreviation lit_false :: "u8 list" where "lit_false \<equiv> [102, 97, 108, 115, 101]"
abbreviation lit_true :: "u8 list" where "lit_true \<equiv> [116, 114, 117, 101]"

definition leaf :: "cJSON_fields option \<times> parse_buffer \<Rightarrow> cJSON option \<times> parse_buffer" where
  "leaf = (\<lambda>(r, b). (map_option (\<lambda>it. CJSON it []) r, b))"

fun parse_value :: "nat \<Rightarrow> value_parser" where
  "parse_value 0 item b = Err OutOfFuel"
| "parse_value (Suc n) item b =
     rbind (sees_literal b lit_null) (\<lambda>is_null.
     if is_null then Ok (Some (CJSON (item\<lparr>jtype := cJSON_NULL\<rparr>) []), b\<lparr>offset := offset b + 4\<rparr>)
     else rbind (sees_literal b lit_false) (\<lambda>is_false.
     if is_false then Ok (Some (CJSON (item\<lparr>jtype := cJSON_False\<rparr>) []), b\<lparr>offset := offset b + 5\<rparr>)
     else rbind (sees_literal b lit_true) (\<lambda>is_true.
     if is_true then Ok (Some (CJSON (item\<lparr>jtype := cJSON_True, valueint := 1\<rparr>) []), b\<lparr>offset := offset b + 4\<rparr>)
     else rbind (sees b ch_quote) (\<lambda>is_string.
     if is_string then rbind (parse_string item b) (\<lambda>r. Ok (leaf r))
     else rbind (sees_number b) (\<lambda>is_number.
     if is_number then Ok (leaf (parse_number item b))
     else rbind (sees b ch_lbracket) (\<lambda>is_array.
     if is_array then parse_array (parse_value n) n item b
     else rbind (sees b ch_lbrace) (\<lambda>is_object.
     if is_object then parse_object (parse_value n) n item b
     else Ok (None, b))))))))"

declare parse_value.simps [simp del]

section \<open>The entry points\<close>

text \<open>
  What \<^verbatim>\<open>cJSON_ParseWithOpts\<close> leaves: the item, the position it stores through
  \<^verbatim>\<open>return_parse_end\<close> (when that pointer is given), the position in \<^verbatim>\<open>global_error\<close> (\<open>None\<close>
  when it was reset), and the number of live blocks.
\<close>

record parse_outcome =
  out_item :: "cJSON option"
  out_end :: "nat option"
  out_error :: "nat option"
  out_live :: int

definition error_position :: "parse_buffer \<Rightarrow> nat" where
  "error_position b =
     (if offset b < length (content b) then offset b
      else if 0 < length (content b) then length (content b) - 1 else 0)"

definition parse_failed :: "parse_buffer \<Rightarrow> parse_outcome" where
  "parse_failed b =
     \<lparr>out_item = None, out_end = Some (error_position b), out_error = Some (error_position b), out_live = live b\<rparr>"

text \<open>The bytes of a C string: those in front of the first NUL.\<close>

definition cbytes :: "u8 list \<Rightarrow> u8 list" where
  "cbytes s = takeWhile (\<lambda>c. c \<noteq> 0) s"

definition start_buffer :: "(nat \<Rightarrow> bool) \<Rightarrow> u8 list \<Rightarrow> int \<Rightarrow> parse_buffer" where
  "start_buffer hk s lv =
     \<lparr>content = cbytes s @ [0], offset = 0, pdepth = 0, hooks = hk, allocs = 0, live = lv\<rparr>"

definition cJSON_ParseWithOpts ::
  "(nat \<Rightarrow> bool) \<Rightarrow> u8 list option \<Rightarrow> bool \<Rightarrow> int \<Rightarrow> parse_outcome res" where
  "cJSON_ParseWithOpts hk value_ptr require_null_terminated lv =
     (case value_ptr of
        None \<Rightarrow> Ok \<lparr>out_item = None, out_end = None, out_error = None, out_live = lv\<rparr>
      | Some s \<Rightarrow>
          (case cJSON_New_Item (start_buffer hk s lv) of
             (None, b) \<Rightarrow> Ok (parse_failed b)
           | (Some root, b) \<Rightarrow>
               rbind (skip_utf8_bom b) (\<lambda>bom.
               case bom of
                 None \<Rightarrow> Ok (parse_failed (cJSON_Delete [CJSON root []] b))
               | Some b1 \<Rightarrow>
                   rbind (parse_value (length (content b) + 1) root (buffer_skip_whitespace b1)) (\<lambda>(r, b2).
                     case r of
                       None \<Rightarrow> Ok (parse_failed (cJSON_Delete [CJSON root []] b2))
                     | Some item \<Rightarrow>
                         (let b3 = (if require_null_terminated then buffer_skip_whitespace b2 else b2) in
                          rbind (if require_null_terminated then sees b3 0 else Ok True) (\<lambda>fine.
                            if fine then
                              Ok \<lparr>out_item = Some item, out_end = Some (offset b3), out_error = None,
                                  out_live = live b3\<rparr>
                            else Ok (parse_failed (cJSON_Delete [item] b3))))))))"

definition cJSON_Parse :: "(nat \<Rightarrow> bool) \<Rightarrow> u8 list option \<Rightarrow> int \<Rightarrow> parse_outcome res" where
  "cJSON_Parse hk value_ptr lv = cJSON_ParseWithOpts hk value_ptr False lv"

section \<open>Access\<close>

definition cJSON_GetArraySize :: "cJSON option \<Rightarrow> int" where
  "cJSON_GetArraySize array =
     (case array of None \<Rightarrow> 0 | Some a \<Rightarrow> sint (word_of_nat (length (child a)) :: u32))"

definition get_array_item :: "cJSON option \<Rightarrow> nat \<Rightarrow> cJSON option" where
  "get_array_item array i =
     (case array of None \<Rightarrow> None | Some a \<Rightarrow> if i < length (child a) then Some (child a ! i) else None)"

definition cJSON_GetArrayItem :: "cJSON option \<Rightarrow> int \<Rightarrow> cJSON option" where
  "cJSON_GetArrayItem array i = (if i < 0 then None else get_array_item array (nat i))"

definition tolower8 :: "u8 \<Rightarrow> u8" where
  "tolower8 c = (if 65 \<le> c \<and> c \<le> 90 then c + 32 else c)"

text \<open>\<^verbatim>\<open>case_insensitive_strcmp\<close>: 0 for equal strings; a NULL pointer is equal to nothing.\<close>

fun strcasecmp_loop :: "u8 list \<Rightarrow> u8 list \<Rightarrow> int" where
  "strcasecmp_loop [] [] = 0"
| "strcasecmp_loop [] (d # ds) = - uint (tolower8 d)"
| "strcasecmp_loop (c # cs) [] = uint (tolower8 c)"
| "strcasecmp_loop (c # cs) (d # ds) =
     (if tolower8 c = tolower8 d then strcasecmp_loop cs ds else uint (tolower8 c) - uint (tolower8 d))"

definition case_insensitive_strcmp :: "u8 list option \<Rightarrow> u8 list option \<Rightarrow> int" where
  "case_insensitive_strcmp s1 s2 =
     (case (s1, s2) of (Some a, Some b) \<Rightarrow> strcasecmp_loop (cbytes a) (cbytes b) | _ \<Rightarrow> 1)"

definition get_object_item :: "cJSON option \<Rightarrow> u8 list option \<Rightarrow> bool \<Rightarrow> cJSON option" where
  "get_object_item obj name case_sensitive =
     (case (obj, name) of
        (Some ob, Some nm) \<Rightarrow>
          (let keep = (\<lambda>x. if case_sensitive
                            then jstring (jfields x) \<noteq> None \<and> cbytes nm \<noteq> cbytes (the (jstring (jfields x)))
                            else case_insensitive_strcmp name (jstring (jfields x)) \<noteq> 0)
           in case dropWhile keep (child ob) of
                [] \<Rightarrow> None
              | x # _ \<Rightarrow> if jstring (jfields x) = None then None else Some x)
      | _ \<Rightarrow> None)"

definition cJSON_GetObjectItem :: "cJSON option \<Rightarrow> u8 list option \<Rightarrow> cJSON option" where
  "cJSON_GetObjectItem obj name = get_object_item obj name False"

definition cJSON_GetObjectItemCaseSensitive :: "cJSON option \<Rightarrow> u8 list option \<Rightarrow> cJSON option" where
  "cJSON_GetObjectItemCaseSensitive obj name = get_object_item obj name True"

definition cJSON_HasObjectItem :: "cJSON option \<Rightarrow> u8 list option \<Rightarrow> bool" where
  "cJSON_HasObjectItem obj name \<longleftrightarrow> cJSON_GetObjectItem obj name \<noteq> None"

end
