(* ===== verification/Json_Text_Facts.thy ===== *)
theory Json_Text_Facts
  imports Json_Text
begin

text \<open>
  The second pass over a string literal stays inside its buffers, and what \<^verbatim>\<open>parse_string\<close>
  promises its callers.
\<close>

section \<open>Hexadecimal digits and UTF-8\<close>

lemma hex_digit_less:
  assumes "hex_digit c = Some d"
  shows "unat d < 16"
proof -
  have "unat c < 2 ^ 8" using unsigned_less [of c, where ?'a = nat] by simp
  then have "unat (ucast c :: u32) = unat c" by (simp add: unsigned_ucast_eq take_bit_nat_eq_self)
  then have c: "ucast c = (word_of_nat (unat c) :: u32)" by (metis of_nat_unat)
  from assms consider "48 \<le> unat c" "unat c \<le> 57" "d = word_of_nat (unat c) - 48"
    | "65 \<le> unat c" "unat c \<le> 70" "d = 10 + word_of_nat (unat c) - 65"
    | "97 \<le> unat c" "unat c \<le> 102" "d = 10 + word_of_nat (unat c) - 97"
    by (auto simp: hex_digit_def word_le_nat_alt c simp del: of_nat_unat split: if_splits)
  then show ?thesis
  proof cases
    case 1
    then have d: "d = word_of_nat (unat c - 48)" by (simp add: of_nat_diff del: of_nat_unat)
    have "unat d = unat c - 48" unfolding d by (rule unat_word_of_nat) (use 1(1,2) in simp)
    with 1(2) show ?thesis by simp
  next
    case 2
    then have d: "d = word_of_nat (10 + unat c - 65)" by (simp add: of_nat_diff del: of_nat_unat)
    have "unat d = 10 + unat c - 65" unfolding d by (rule unat_word_of_nat) (use 2(1,2) in simp)
    with 2(2) show ?thesis by simp
  next
    case 3
    then have d: "d = word_of_nat (10 + unat c - 97)" by (simp add: of_nat_diff del: of_nat_unat)
    have "unat d = 10 + unat c - 97" unfolding d by (rule unat_word_of_nat) (use 3(1,2) in simp)
    with 3(2) show ?thesis by simp
  qed
qed

lemma unat_shift_add:
  fixes h d :: u32
  assumes "unat h < 2 ^ 24" and "unat d < 16"
  shows "unat (h + d) = unat h + unat d" and "unat (push_bit 4 (h + d)) = 16 * (unat h + unat d)"
proof -
  from assms show s: "unat (h + d) = unat h + unat d"
    by (simp add: unat_word_ariths)
  have "push_bit 4 (h + d) = (h + d) * 16" by (simp add: push_bit_eq_mult)
  with assms s show "unat (push_bit 4 (h + d)) = 16 * (unat h + unat d)"
    by (simp add: unat_word_ariths)
qed

definition hex4_value :: "u32 \<Rightarrow> u32 \<Rightarrow> u32 \<Rightarrow> u32 \<Rightarrow> u32" where
  "hex4_value a b c d = push_bit 4 (push_bit 4 (push_bit 4 a + b) + c) + d"

lemma hex4_value_nat:
  assumes "unat a < 16" "unat b < 16" "unat c < 16" "unat d < 16"
  shows "unat (hex4_value a b c d) = ((unat a * 16 + unat b) * 16 + unat c) * 16 + unat d"
proof -
  have 1: "unat (push_bit 4 a) = 16 * unat a" using unat_shift_add(2) [of 0 a] assms by simp
  have 2: "unat (push_bit 4 (push_bit 4 a + b)) = 16 * (16 * unat a + unat b)"
    using unat_shift_add(2) [of "push_bit 4 a" b] assms 1 by simp
  have 3: "unat (push_bit 4 (push_bit 4 (push_bit 4 a + b) + c)) = 16 * (16 * (16 * unat a + unat b) + unat c)"
    using unat_shift_add(2) [of "push_bit 4 (push_bit 4 a + b)" c] assms 2 by simp
  show ?thesis
    unfolding hex4_value_def
    using unat_shift_add(1) [of "push_bit 4 (push_bit 4 (push_bit 4 a + b) + c)" d] assms 3 by simp
qed

text \<open>Four valid digits give their value, anything else gives 0.\<close>

lemma parse_hex4_value:
  assumes "p + 4 \<le> length mem"
  shows "parse_hex4 mem p = Ok
    (case (hex_digit (mem ! p), hex_digit (mem ! (p + 1)), hex_digit (mem ! (p + 2)), hex_digit (mem ! (p + 3))) of
       (Some a, Some b, Some c, Some d) \<Rightarrow> hex4_value a b c d
     | _ \<Rightarrow> 0)"
  using assms
  by (auto simp: parse_hex4_def hex4_value_def eval_nat_numeral split: option.splits)

lemma parse_hex4_less:
  assumes "p + 4 \<le> length mem"
  shows "okp (\<lambda>v. unat v < 0x10000) (parse_hex4 mem p)"
proof -
  have "unat (hex4_value a b c d) < 0x10000"
    if "hex_digit x = Some a" "hex_digit y = Some b" "hex_digit z = Some c" "hex_digit w = Some d" for x y z w a b c d
    using hex4_value_nat [of a b c d] that [THEN hex_digit_less] by simp
  then show ?thesis by (auto simp: parse_hex4_value [OF assms] split: option.splits)
qed

lemma utf8_tail_length: "length (snd (utf8_tail n cp acc)) = n + length acc"
  by (induction n cp acc rule: utf8_tail.induct) auto

lemma utf8_bytes_length:
  assumes "utf8_bytes cp = Some bs"
  shows "0 < length bs \<and> length bs \<le> 4 \<and> (cp < 0x10000 \<longrightarrow> length bs \<le> 3)"
  using assms utf8_tail_length
  by (auto simp: utf8_bytes_def utf8_form_def case_prod_beta Let_def split: if_splits)

lemma utf16_codepoint_ok:
  assumes "e \<le> length mem"
  shows "okp (\<lambda>r. case r of None \<Rightarrow> True | Some (n, cp) \<Rightarrow>
      n = 6 \<and> p + 6 \<le> e \<and> cp < 0x10000 \<or> n = 12 \<and> p + 12 \<le> e) (utf16_codepoint mem p e)"
proof -
  have "okp (\<lambda>r. True) (utf16_codepoint mem p e)"
  proof (cases "e < p + 6")
    case True
    then show ?thesis by (simp add: utf16_codepoint_def)
  next
    case False
    with assms parse_hex4_less [of "p + 2" mem] obtain v where v: "parse_hex4 mem (p + 2) = Ok v"
      by (auto simp: okp_iff)
    show ?thesis
    proof (cases "e < p + 12")
      case True
      with False v show ?thesis by (auto simp: utf16_codepoint_def)
    next
      case second: False
      with assms parse_hex4_less [of "8 + p" mem] obtain w where "parse_hex4 mem (8 + p) = Ok w"
        by (auto simp: okp_iff)
      with False second v assms show ?thesis by (auto simp: utf16_codepoint_def Let_def)
    qed
  qed
  moreover have "cp < 0x10000"
    if "utf16_codepoint mem p e = Ok (Some (n, cp))" "n = 6" for n cp
  proof -
    from that have "p + 6 \<le> e" by (auto simp: utf16_codepoint_def split: if_splits)
    with assms have "okp (\<lambda>v. unat v < 0x10000) (parse_hex4 mem (p + 2))" by (intro parse_hex4_less) simp
    with that obtain v :: u32 where "unat v < 0x10000" "cp = ucast v"
      by (auto simp: utf16_codepoint_def Let_def okp_iff rbind_eq_Ok split: if_splits)
    then show ?thesis by (simp add: word_less_nat_alt unsigned_ucast_eq take_bit_nat_eq_self)
  qed
  ultimately show ?thesis
    using utf16_codepoint_length [of mem p e] by (auto simp: okp_iff split: option.splits)
qed

section \<open>The second pass\<close>

text \<open>
  What holds at the input pointer \<open>p\<close> of a literal from \<open>s\<close> to \<open>e\<close>: the output is
  not longer than the bytes consumed, less the escapes the first pass found among them.  A final
  escape may end one byte behind the closing quote.
\<close>

definition pass2_inv :: "u8 list \<Rightarrow> nat \<Rightarrow> nat \<Rightarrow> nat \<Rightarrow> nat \<Rightarrow> bool" where
  "pass2_inv mem s e p n \<longleftrightarrow>
     s \<le> p \<and> p \<le> e + 1 \<and> s + n + escapes mem s (min p e) \<le> min p e"

lemma pass2_room:
  assumes "pass2_inv mem s e p n" and "s \<le> e"
  shows "s + n + escapes mem s e \<le> e"
proof -
  let ?p = "min p e"
  have "escapes mem s e \<le> escapes mem s ?p + (e - ?p + 1) div 2" by (rule escapes_window) simp
  moreover have "(e - ?p + 1) div 2 \<le> e - ?p" by linarith
  moreover have "s + n + escapes mem s ?p \<le> ?p" "?p \<le> e" using assms by (simp_all add: pass2_inv_def)
  ultimately show ?thesis by linarith
qed

lemma pass2_advance:
  assumes "pass2_inv mem s e p n" and "p < e" and "p + k \<le> e" and "m + (k + 1) div 2 \<le> k"
  shows "pass2_inv mem s e (p + k) (n + m)"
proof -
  have "escapes mem s (p + k) \<le> escapes mem s p + (k + 1) div 2"
    using escapes_window [of p "p + k" mem s] by simp
  moreover have "s + n + escapes mem s p \<le> p" using assms by (simp add: pass2_inv_def)
  ultimately have "s + (n + m) + escapes mem s (p + k) \<le> p + k" using assms(4) by linarith
  with assms show ?thesis by (simp add: pass2_inv_def)
qed

lemma emit_ok: "length out + length bs \<le> cap \<Longrightarrow> emit cap out bs = Ok (out @ bs)"
  by (simp add: emit_def)

lemma unescape_step_ok:
  assumes r: "reaches mem s e" and e: "e < length mem" and p: "p < e"
    and inv: "pass2_inv mem s e p (length out)" and cap: "s + cap + escapes mem s e = e + 2"
  shows "okp (\<lambda>x. case x of None \<Rightarrow> True | Some (p', out') \<Rightarrow> pass2_inv mem s e p' (length out'))
    (unescape_step mem e cap p out)"
proof -
  have se: "s \<le> e" by (rule reaches_le [OF r])
  have emit: "emit cap out bs = Ok (out @ bs)" if "pass2_inv mem s e p' (length out + length bs)" for p' bs
    using pass2_room [OF that se] cap by (intro emit_ok) linarith
  show ?thesis
  proof (cases "mem ! p = ch_backslash")
    case False
    have inv': "pass2_inv mem s e (p + 1) (length out + 1)"
      using inv p escapes_plain [OF False, of s] by (simp add: pass2_inv_def)
    with emit [of "p + 1" "[mem ! p]"] False p e show ?thesis
      by (simp add: unescape_step_def)
  next
    case bs: True
    have inv2: "pass2_inv mem s e (p + 2) (length out + 1)"
    proof (cases "p + 2 \<le> e")
      case True
      show ?thesis by (rule pass2_advance [OF inv p True]) simp
    next
      case False
      with p have pe: "p = e - 1" by simp
      have "s < e" using inv p by (simp add: pass2_inv_def)
      from escapes_last [OF r this] bs pe have "escapes mem s e = escapes mem s p" by simp
      with inv pe p show ?thesis by (simp add: pass2_inv_def)
    qed
    show ?thesis
    proof (cases "simple_escape (mem ! (p + 1))")
      case (Some x)
      with emit [of "p + 2" "[x]"] inv2 bs p e show ?thesis by (simp add: unescape_step_def)
    next
      case None
      have "okp (\<lambda>(n, out'). n = 0 \<or> pass2_inv mem s e (p + n) (length out'))
          (utf16_literal_to_utf8 mem p e cap out)"
        unfolding utf16_literal_to_utf8_def okp_rbind using utf16_codepoint_ok [of e mem p]
      proof (rule okp_mono)
        fix x :: "(nat \<times> u64) option"
        assume x: "case x of None \<Rightarrow> True | Some (n, cp) \<Rightarrow>
          n = 6 \<and> p + 6 \<le> e \<and> cp < 0x10000 \<or> n = 12 \<and> p + 12 \<le> e"
        show "okp (\<lambda>(n, out'). n = 0 \<or> pass2_inv mem s e (p + n) (length out'))
          (case x of None \<Rightarrow> Ok (0, out) | Some (n, cp) \<Rightarrow>
            (case utf8_bytes cp of None \<Rightarrow> Ok (0, out)
             | Some bs \<Rightarrow> rbind (emit cap out bs) (\<lambda>out'. Ok (n, out'))))"
        proof (cases "\<exists>n cp bs. x = Some (n, cp) \<and> utf8_bytes cp = Some bs")
          case True
          then obtain n cp bs where xn: "x = Some (n, cp)" and ub: "utf8_bytes cp = Some bs" by blast
          have "p + n \<le> e" "length bs + (n + 1) div 2 \<le> n"
            using x xn utf8_bytes_length [OF ub] by auto
          with inv p have "pass2_inv mem s e (p + n) (length out + length bs)" by (intro pass2_advance)
          with emit xn ub show ?thesis by simp
        qed (auto split: option.splits)
      qed (use e in simp)
      then show ?thesis
        using None bs p e by (auto simp: unescape_step_def okp_iff)
    qed
  qed
qed

lemma unescape_ok:
  assumes "reaches mem s e" and "e < length mem"
    and "pass2_inv mem s e p (length out)" and "s + cap + escapes mem s e = e + 2"
  shows "okp (\<lambda>(p', r). s \<le> p' \<and> p' \<le> e + 1 \<and> (\<forall>out'. r = Some out' \<longrightarrow> s + length out' + escapes mem s e \<le> e))
    (unescape mem e cap p out)"
  using assms
proof (induction mem e cap p out rule: unescape.induct)
  case (1 mem e cap p out)
  show ?case
  proof (cases "p < e")
    case False
    with pass2_room [OF "1.prems"(3) reaches_le [OF "1.prems"(1)]] "1.prems"(3) show ?thesis
      by (subst unescape.simps) (simp add: pass2_inv_def)
  next
    case True
    from unescape_step_ok [OF "1.prems"(1,2) True "1.prems"(3,4)]
    obtain x where x: "unescape_step mem e cap p out = Ok x"
      "case x of None \<Rightarrow> True | Some (p', out') \<Rightarrow> pass2_inv mem s e p' (length out')"
      by (auto simp: okp_iff)
    show ?thesis
    proof (cases x)
      case None
      with True x "1.prems"(3) show ?thesis by (subst unescape.simps) (simp add: pass2_inv_def)
    next
      case (Some q)
      obtain p' out' where q: "q = (p', out')" by fastforce
      from x Some q have "pass2_inv mem s e p' (length out')" by simp
      with "1.IH" [OF True x(1) Some, of p' out'] q "1.prems" True x(1) Some show ?thesis
        by (subst unescape.simps) simp
    qed
  qed
qed

end
