(* ===== verification/Json_Fmt.thy ===== *)
theory Json_Fmt
  imports Json_Num
begin

text \<open>
  Printing of numbers, for the part of the JSON library that prints: \<^verbatim>\<open>sprintf\<close> with the
  conversion \<^verbatim>\<open>%1.15g\<close> or \<^verbatim>\<open>%1.17g\<close> on a \<^verbatim>\<open>double\<close>, the choice that \<^verbatim>\<open>print_number\<close> makes between
  the two, and the comparison of numbers.  The decimal digits are those of the exact value,
  rounded to nearest with ties to even, as the C library does.

  The properties are in \<open>Json_Fmt_Props\<close>; here are only facts on digits.
\<close>

section \<open>Decimal digits of a number\<close>

text \<open>The least \<open>k\<close> digits of \<open>n\<close>.\<close>

fun digits :: "nat \<Rightarrow> nat \<Rightarrow> u8 list" where
  "digits 0 n = []"
| "digits (Suc k) n = digits k (n div 10) @ [48 + word_of_nat (n mod 10)]"

text \<open>The decimal exponent of \<open>p / q\<close>: the greatest \<open>x\<close> such that \<open>10 ^ x\<close> is not above it.\<close>

function dec_exp :: "nat \<Rightarrow> nat \<Rightarrow> int" where
  "dec_exp p q =
     (if p = 0 \<or> q = 0 then 0
      else if p < q then dec_exp (10 * p) q - 1
      else if 10 * q \<le> p then dec_exp p (10 * q) + 1
      else 0)"
  by pat_completeness auto
termination
  by (relation "measure (\<lambda>(p, q). (q - p) + (p + 1 - 10 * q))") auto

declare dec_exp.simps [simp del]

text \<open>The first \<open>n\<close> significant digits of \<open>p / q\<close>, rounded, and the exponent of the first one.\<close>

definition sig_digits :: "nat \<Rightarrow> nat \<Rightarrow> nat \<Rightarrow> nat \<times> int" where
  "sig_digits n p q =
     (let x = dec_exp p q; k = x - int n + 1;
          d = round_half_even (p * 10 ^ nat (- k)) (q * 10 ^ nat k)
      in if d = 10 ^ n then (10 ^ (n - 1), x + 1) else (d, x))"

section \<open>The conversion \<^verbatim>\<open>%g\<close>\<close>

text \<open>Trailing zeros of the fraction are removed, and the point if nothing is left.\<close>

definition strip0 :: "u8 list \<Rightarrow> u8 list" where
  "strip0 ds = rev (dropWhile (\<lambda>b. b = 48) (rev ds))"

definition with_frac :: "u8 list \<Rightarrow> u8 list \<Rightarrow> u8 list" where
  "with_frac ip fp = ip @ (if fp = [] then [] else 46 # fp)"

text \<open>The exponent has at least two digits.\<close>

definition exp_text :: "int \<Rightarrow> u8 list" where
  "exp_text x =
     101 # (if x < 0 then 45 else 43) # (let n = nat \<bar>x\<bar> in digits (if n < 100 then 2 else 3) n)"

definition sign_text :: "bool \<Rightarrow> u8 list" where
  "sign_text neg = (if neg then [45] else [])"

text \<open>\<^verbatim>\<open>sprintf(s, "%1.<n>g", d)\<close> for the number with sign \<open>neg\<close>, significand \<open>m\<close> and exponent \<open>e\<close>.\<close>

definition sprintf_g :: "nat \<Rightarrow> bool \<Rightarrow> nat \<Rightarrow> int \<Rightarrow> u8 list" where
  "sprintf_g n neg m e = sign_text neg @
     (if m = 0 then [48]
      else (case sig_digits n (m * 2 ^ nat e) (2 ^ nat (- e)) of (d, x) \<Rightarrow>
        let ds = digits n d in
        if - 4 \<le> x \<and> x < int n then
          if 0 \<le> x then with_frac (take (nat x + 1) ds) (strip0 (drop (nat x + 1) ds))
          else with_frac [48] (strip0 (replicate (nat (- x) - 1) 48 @ ds))
        else with_frac (take 1 ds) (strip0 (drop 1 ds)) @ exp_text x))"

section \<open>Comparison and the choice of the precision\<close>

text \<open>The operator \<^verbatim>\<open>==\<close> on numbers; the two zeros are equal.\<close>

definition dbl_eq :: "dbl \<Rightarrow> dbl \<Rightarrow> bool" where
  "dbl_eq x y =
     (case (x, y) of
        (Infinite n1, Infinite n2) \<Rightarrow> n1 = n2
      | (Fin n1 m1 e1, Fin n2 m2 e2) \<Rightarrow>
          (if n1 then - 1 else 1) * int m1 * 2 ^ nat (e1 - min e1 e2) =
          (if n2 then - 1 else 1) * int m2 * 2 ^ nat (e2 - min e1 e2)
      | _ \<Rightarrow> False)"

text \<open>
  The texts that \<^verbatim>\<open>print_number\<close> writes to its local buffer, one after the other: 17 digits only if
  15 digits are not read back as the number.
\<close>

definition number_writes :: "dbl \<Rightarrow> u8 list list" where
  "number_writes d =
     (case d of
        Infinite _ \<Rightarrow> [[110, 117, 108, 108]]
      | Fin neg m e \<Rightarrow>
          (let s = sprintf_g 15 neg m e; (test, used) = strtod s
           in if used = 0 \<or> \<not> dbl_eq test d then [s, sprintf_g 17 neg m e] else [s]))"

definition number_text :: "dbl \<Rightarrow> u8 list" where
  "number_text d = last (number_writes d)"

section \<open>Digits\<close>

lemma length_digits [simp]: "length (digits k n) = k"
  by (induction k n rule: digits.induct) simp_all

lemma dig_of: "i < 10 \<Longrightarrow> is_dig (48 + word_of_nat i) \<and> dig_val (48 + word_of_nat i) = i"
proof -
  assume "i < 10"
  then have "unat (48 + word_of_nat i :: u8) = 48 + i"
    by (simp add: unat_word_ariths unat_of_nat)
  with \<open>i < 10\<close> show ?thesis by (simp add: is_dig_def dig_val_def word_le_nat_alt)
qed

lemma digits_dig: "b \<in> set (digits k n) \<Longrightarrow> is_dig b"
  by (induction k n rule: digits.induct) (auto simp: dig_of)

lemma digs_val_append: "digs_val (xs @ ys) = digs_val xs * 10 ^ length ys + digs_val ys"
proof (induction ys rule: rev_induct)
  case (snoc y ys)
  then show ?case by (simp add: digs_val_def algebra_simps flip: append_assoc)
qed (simp add: digs_val_def)

lemma digs_val_simps [simp]: "digs_val [] = 0" "digs_val [b] = dig_val b" "dig_val 48 = 0"
  by (simp_all add: digs_val_def dig_val_def)

lemma digs_val_zeros [simp]: "digs_val (replicate k 48) = 0"
proof (induction k)
  case (Suc k)
  have "digs_val (replicate (Suc k) 48) = digs_val ([48] @ replicate k 48)" by simp
  with Suc show ?case by (simp only: digs_val_append) simp
qed simp

lemma digs_val_digits: "digs_val (digits k n) = n mod 10 ^ k"
proof (induction k n rule: digits.induct)
  case (2 k n)
  have "n mod (10 * 10 ^ k) = 10 * (n div 10 mod 10 ^ k) + n mod 10"
    by (simp add: mod_mult2_eq)
  with 2 show ?case by (simp add: digs_val_append dig_of)
qed simp

lemma strip0_split: obtains j where "ds = strip0 ds @ replicate j 48"
proof -
  have "rev ds = takeWhile (\<lambda>b. b = 48) (rev ds) @ rev (strip0 ds)" by (simp add: strip0_def)
  moreover have "takeWhile (\<lambda>b. b = 48) (rev ds) = replicate (length (takeWhile (\<lambda>b. b = 48) (rev ds))) 48"
    by (rule replicate_length_same [symmetric]) (auto dest: set_takeWhileD)
  ultimately have "ds = strip0 ds @ replicate (length (takeWhile (\<lambda>b. b = 48) (rev ds))) 48"
    by (metis rev_append rev_rev_ident rev_replicate)
  then show thesis by (rule that)
qed

lemma strip0_dig: "\<forall>b \<in> set ds. is_dig b \<Longrightarrow> b \<in> set (strip0 ds) \<Longrightarrow> is_dig b"
  by (auto simp: strip0_def dest: set_dropWhileD)

lemma strip0_length: "length (strip0 ds) \<le> length ds"
  by (simp add: strip0_def le_trans [OF length_dropWhile_le])

end
