(* ===== verification/Json_Fmt_Props.thy ===== *)
theory Json_Fmt_Props
  imports Json_Fmt Complex_Main
begin

text \<open>
  The text of a number, as \<open>Json_Fmt\<close> prints it, is at most 24 bytes long, so that it fits the
  buffer of \<^verbatim>\<open>print_number\<close>, and \<^verbatim>\<open>strtod\<close> reads it back to the same number, for every finite
  number.  The reason is that a rounding to 17 digits moves a number by less than half the distance
  to its neighbours.  The proof works with real numbers: first the error of the decimal digits,
  then the rounding of a fraction to 53 bits, then the shape of the text.
\<close>

section \<open>Reading a printed number\<close>

lemma takeWhile_dig:
  "\<forall>b \<in> set ds. is_dig b \<Longrightarrow> (rest = [] \<or> \<not> is_dig (hd rest)) \<Longrightarrow>
    takeWhile is_dig (ds @ rest) = ds \<and> dropWhile is_dig (ds @ rest) = rest"
  by (cases rest) (simp_all add: takeWhile_append2 dropWhile_append2)

lemma not_dig [simp]: "\<not> is_dig 46" "\<not> is_dig 101" "\<not> is_dig 45" "\<not> is_dig 43" "is_dig 48"
  by (simp_all add: is_dig_def)

lemma take_sign_text:
  assumes "s \<noteq> []" and "is_dig (hd s)"
  shows "take_sign (sign_text neg @ s) = (neg, s)"
  using assms by (cases s) (auto simp: take_sign_def sign_text_def)

text \<open>An exponent as it is printed, or none, and its value.\<close>

definition exp_part :: "int option \<Rightarrow> u8 list" where
  "exp_part ex = (case ex of None \<Rightarrow> [] | Some x \<Rightarrow> exp_text x)"

definition exp_val :: "int option \<Rightarrow> int" where
  "exp_val ex = (case ex of None \<Rightarrow> 0 | Some x \<Rightarrow> x)"

lemma take_exp_text:
  assumes "\<forall>x. ex = Some x \<longrightarrow> \<bar>x\<bar> < 1000"
  shows "take_exp (exp_part ex) = (exp_val ex, [])"
proof (cases ex)
  case (Some x)
  define ds where "ds = digits (if nat \<bar>x\<bar> < 100 then 2 else 3) (nat \<bar>x\<bar>)"
  have dig: "\<forall>b \<in> set ds. is_dig b" by (auto simp: ds_def digits_dig)
  then have tw: "takeWhile is_dig ds = ds" "dropWhile is_dig ds = []"
    using takeWhile_dig [of ds "[]"] by simp_all
  have val: "digs_val ds = nat \<bar>x\<bar>" using assms Some by (simp add: ds_def digs_val_digits)
  have ne: "ds \<noteq> []" using length_digits [of 2 "nat \<bar>x\<bar>"] length_digits [of 3 "nat \<bar>x\<bar>"]
    by (auto simp: ds_def simp del: length_digits)
  have "exp_part ex = 101 # (if x < 0 then 45 else 43) # ds"
    by (simp add: exp_part_def exp_text_def Some ds_def Let_def)
  then show ?thesis using ne val by (auto simp: take_exp_def take_sign_def tw exp_val_def Some)
qed (simp add: take_exp_def exp_part_def exp_val_def)

lemma strtod_text:
  assumes "ip \<noteq> []" and "\<forall>b \<in> set ip. is_dig b" and "\<forall>b \<in> set fp. is_dig b"
    and "\<forall>x. ex = Some x \<longrightarrow> \<bar>x\<bar> < 1000" and "s = sign_text neg @ with_frac ip fp @ exp_part ex"
  shows "strtod s = (dec_to_dbl neg (digs_val (ip @ fp)) (exp_val ex - int (length fp)), length s)"
proof -
  let ?r = "exp_part ex" and ?f = "(if fp = [] then [] else 46 # fp) @ exp_part ex"
  have sg: "take_sign s = (neg, ip @ ?f)"
    unfolding assms(5) using take_sign_text [of "ip @ ?f" neg] assms(1,2)
    by (cases ip) (simp_all add: with_frac_def)
  have hr: "?r = [] \<or> \<not> is_dig (hd ?r)" by (simp add: exp_part_def exp_text_def split: option.split)
  have hd46: "?r = [] \<or> hd ?r \<noteq> 46" by (simp add: exp_part_def exp_text_def split: option.split)
  have f: "takeWhile is_dig (ip @ ?f) = ip" "dropWhile is_dig (ip @ ?f) = ?f"
    using takeWhile_dig [OF assms(2), of ?f] hr by auto
  have g: "takeWhile is_dig (fp @ ?r) = fp" "dropWhile is_dig (fp @ ?r) = ?r"
    using takeWhile_dig [OF assms(3) hr] by auto
  have ex: "take_exp ?r = (exp_val ex, [])" by (rule take_exp_text [OF assms(4)])
  note st = strtod_def [of s, unfolded sg Let_def prod.case f]
  show ?thesis
  proof (cases "fp = []")
    case True
    then have "?f = ?r" by simp
    with st hd46 ex assms(1) True show ?thesis by (cases ?r) simp_all
  next
    case False
    with st g ex assms(1) show ?thesis by simp
  qed
qed

section \<open>Rounding\<close>

lemma rhe_error: "0 < d \<Longrightarrow> \<bar>real (round_half_even n d) - real n / real d\<bar> \<le> 1 / 2"
proof -
  assume d: "0 < d"
  have n: "real n = real (n div d) * real d + real (n mod d)"
    by (metis div_mult_mod_eq of_nat_add of_nat_mult)
  have "real n / real d = real (n div d) + real (n mod d) / real d" using d n by (simp add: field_simps)
  moreover have "2 * (n mod d) \<le> d \<Longrightarrow> real (n mod d) / real d \<le> 1 / 2" using d by (simp add: field_simps)
  moreover have "d \<le> 2 * (n mod d) \<Longrightarrow> 1 / 2 \<le> real (n mod d) / real d" using d by (simp add: field_simps)
  moreover have "real (n mod d) / real d < 1" "0 \<le> real (n mod d) / real d" using d by simp_all
  ultimately show ?thesis by (auto simp: round_half_even_def Let_def abs_le_iff)
qed

lemma rhe_near:
  assumes "0 < d" and "\<bar>real n / real d - real m\<bar> < 1 / 2"
  shows "round_half_even n d = m"
proof -
  have "\<bar>real (round_half_even n d) - real m\<bar> < 1" using rhe_error [OF assms(1), of n] assms(2) by linarith
  then show ?thesis by linarith
qed

lemma dec_exp_bounds:
  assumes "0 < p" and "0 < q"
  shows "10 powi dec_exp p q \<le> real p / real q \<and> real p / real q < 10 powi (dec_exp p q + 1)"
  using assms
proof (induction p q rule: dec_exp.induct)
  case (1 p q)
  define v where "v = real p / real q"
  consider "p < q" | "q \<le> p" "10 * q \<le> p" | "q \<le> p" "p < 10 * q" by linarith
  then show ?case
  proof cases
    case 1
    with "1.IH"(1) "1.prems" have ih: "10 powi dec_exp (10 * p) q \<le> 10 * v"
      "10 * v < 10 powi (dec_exp (10 * p) q + 1)" by (auto simp: v_def)
    have "dec_exp p q = dec_exp (10 * p) q - 1" using 1 "1.prems" by (subst dec_exp.simps) simp
    with ih show ?thesis unfolding v_def [symmetric] by (simp add: power_int_add power_int_diff)
  next
    case 2
    with "1.IH"(2) "1.prems" have ih: "10 powi dec_exp p (10 * q) \<le> v / 10"
      "v / 10 < 10 powi (dec_exp p (10 * q) + 1)" by (auto simp: v_def)
    have "dec_exp p q = dec_exp p (10 * q) + 1" using 2 "1.prems" by (subst dec_exp.simps) simp
    with ih show ?thesis unfolding v_def [symmetric] by (simp add: power_int_add)
  next
    case 3
    then have "dec_exp p q = 0" using "1.prems" by (subst dec_exp.simps) simp
    with 3 "1.prems" show ?thesis by (simp add: field_simps)
  qed
qed

lemma scaled:
  "b \<noteq> 0 \<Longrightarrow> real (p * b ^ nat (- k)) / real (q * b ^ nat k) = real p / real q / real b powi k"
  by (cases "0 \<le> k") (simp_all add: power_int_def field_simps)

lemma sig_digits_near:
  assumes "0 < p" and "0 < q" and "0 < n" and "sig_digits n p q = (d, x)"
  shows "10 ^ (n - 1) \<le> d \<and> d < 10 ^ n \<and>
    \<bar>real d * 10 powi (x - int n + 1) - real p / real q\<bar> \<le> real p / real q / (2 * 10 ^ (n - 1))"
proof -
  define v where "v = real p / real q"
  define y where "y = dec_exp p q"
  define k where "k = y - int n + 1"
  define c where "c = round_half_even (p * 10 ^ nat (- k)) (q * 10 ^ nat k)"
  have v: "10 powi y \<le> v" "v < 10 powi (y + 1)" using dec_exp_bounds [OF assms(1,2)] by (simp_all add: v_def y_def)
  have t: "10 powi k > (0 :: real)" by simp
  have yk: "10 powi y = 10 ^ (n - 1) * (10 powi k :: real)"
  proof -
    have "y = int (n - 1) + k" using assms(3) by (simp add: k_def)
    then show ?thesis by (simp add: power_int_add)
  qed
  then have yk1: "10 powi (y + 1) = 10 ^ n * (10 powi k :: real)"
    using assms(3) by (cases n) (simp_all add: power_int_add)
  have r: "\<bar>real c - v / 10 powi k\<bar> \<le> 1 / 2"
    using rhe_error [of "q * 10 ^ nat k" "p * 10 ^ nat (- k)"] assms(2) scaled [of 10 p k q]
    by (simp add: c_def v_def)
  have b: "10 ^ (n - 1) \<le> v / 10 powi k" "v / 10 powi k < 10 ^ n"
    using v yk yk1 t by (simp_all add: field_simps)
  have lo: "10 ^ (n - 1) \<le> c"
  proof -
    have "10 ^ (n - 1) < real c + 1" using r b(1) by linarith
    then have "real (10 ^ (n - 1)) < real (c + 1)" by simp
    then show ?thesis by linarith
  qed
  have hi: "c \<le> 10 ^ n"
  proof -
    have "real c < 10 ^ n + 1" using r b(2) by linarith
    then have "real c < real (10 ^ n + 1)" by simp
    then show ?thesis by linarith
  qed
  have "\<bar>real c * 10 powi k - v\<bar> = \<bar>real c - v / 10 powi k\<bar> * 10 powi k"
    using t by (simp add: abs_mult_pos' [symmetric] field_simps)
  also have "\<dots> \<le> 1 / 2 * 10 powi k" using r by (intro mult_right_mono) simp_all
  also have "\<dots> \<le> v / (2 * 10 ^ (n - 1))" using v(1) yk by (simp add: field_simps)
  finally have err: "\<bar>real c * 10 powi k - v\<bar> \<le> v / (2 * 10 ^ (n - 1))" .
  have s: "(d, x) = (if c = 10 ^ n then (10 ^ (n - 1), y + 1) else (c, y))"
    using assms(4) [symmetric] unfolding sig_digits_def Let_def c_def k_def y_def .
  show ?thesis
  proof (cases "c = 10 ^ n")
    case True
    with s have dx: "d = 10 ^ (n - 1)" "x = y + 1" by simp_all
    have "real d * 10 powi (x - int n + 1) = real c * 10 powi k"
      using assms(3) True by (cases n) (simp_all add: dx k_def power_int_add)
    with err dx assms(3) show ?thesis by (cases n) (simp_all add: v_def)
  next
    case False
    with s have "d = c" "x = y" by simp_all
    with err lo hi False show ?thesis by (simp add: v_def k_def)
  qed
qed

section \<open>Numbers of 53 bits\<close>

lemma num_den: "real (num_at p e) / real (den_at q e) = real p / real q / 2 powi e"
  using scaled [of 2 p e q] by (simp add: num_at_def den_at_def)

lemma den_at_pos: "0 < q \<Longrightarrow> 0 < den_at q e"
  by (simp add: den_at_def)

lemma bits_real: "0 < n \<Longrightarrow> 2 powi (int (bits n) - 1) \<le> real n \<and> real n < 2 powi int (bits n)"
proof -
  assume n: "0 < n"
  with bits_bounds [of n] have b: "n < 2 ^ bits n" "2 ^ (bits n - 1) \<le> n" by simp_all
  from n have "bits n \<noteq> 0" by (subst bits.simps) simp
  then have e: "int (bits n) - 1 = int (bits n - 1)" by simp
  have "real (2 ^ (bits n - 1)) \<le> real n" "real n < real (2 ^ bits n)"
    by (simp_all only: of_nat_le_iff of_nat_less_iff b)
  then show ?thesis unfolding e power_int_of_nat by simp
qed

text \<open>Scaled by its exponent, a number is between \<open>2 ^ 52\<close> and \<open>2 ^ 53\<close>.\<close>

lemma dbl_exp_scale:
  assumes "0 < p" and "0 < q"
  obtains e where "2 ^ 52 \<le> real p / real q / 2 powi e" "real p / real q / 2 powi e < 2 ^ 53"
    "dbl_exp p q = max (- 1074) e"
proof -
  define v where "v = real p / real q"
  define a where "a = int (bits p) - int (bits q) - 53"
  have p: "2 powi (int (bits p) - 1) \<le> real p" "real p < 2 powi int (bits p)" using bits_real [OF assms(1)] by auto
  have q: "2 powi (int (bits q) - 1) \<le> real q" "real q < 2 powi int (bits q)" using bits_real [OF assms(2)] by auto
  have q0: "0 < real q" using assms(2) by simp
  have "2 powi (a + 52) * real q \<le> 2 powi (a + 52) * 2 powi int (bits q)" using q by simp
  also have "\<dots> = 2 powi (int (bits p) - 1)" by (subst power_int_add [symmetric]) (simp_all add: a_def)
  also have "\<dots> \<le> real p" using p by simp
  finally have lo: "2 powi (a + 52) \<le> v" using q0 by (simp add: v_def field_simps)
  have "real p < 2 powi int (bits p)" using p by simp
  also have "\<dots> = 2 powi (a + 54) * 2 powi (int (bits q) - 1)" by (subst power_int_add [symmetric]) (simp_all add: a_def)
  also have "\<dots> \<le> 2 powi (a + 54) * real q" using q by simp
  finally have hi: "v < 2 powi (a + 54)" using q0 by (simp add: v_def field_simps)
  have y: "2 ^ 52 \<le> v / 2 powi a" "v / 2 powi a < 2 ^ 54"
    using lo hi by (simp_all add: power_int_add field_simps)
  have d: "2 ^ 53 \<le> num_at p a div den_at q a \<longleftrightarrow> 2 ^ 53 \<le> v / 2 powi a"
  proof -
    have "2 ^ 53 \<le> num_at p a div den_at q a \<longleftrightarrow> 2 ^ 53 * den_at q a \<le> num_at p a"
      using den_at_pos [OF assms(2)] by (rule less_eq_div_iff_mult_less_eq)
    also have "\<dots> \<longleftrightarrow> real (2 ^ 53 * den_at q a) \<le> real (num_at p a)" by (simp only: of_nat_le_iff)
    also have "\<dots> \<longleftrightarrow> 2 ^ 53 \<le> real (num_at p a) / real (den_at q a)"
      using den_at_pos [OF assms(2), of a] by (simp add: field_simps)
    finally show ?thesis by (simp add: num_den v_def)
  qed
  have de: "dbl_exp p q = max (- 1074) (if 2 ^ 53 \<le> v / 2 powi a then a + 1 else a)"
    unfolding d [symmetric] by (simp add: dbl_exp_def Let_def a_def)
  have half: "v / 2 powi (a + 1) = v / 2 powi a / 2" by (simp add: power_int_add)
  note that' = that [folded v_def]
  show thesis
  proof (cases "2 ^ 53 \<le> v / 2 powi a")
    case True
    then have "2 ^ 52 \<le> v / 2 powi (a + 1)" "v / 2 powi (a + 1) < 2 ^ 53"
      using y unfolding half by simp_all
    moreover have "dbl_exp p q = max (- 1074) (a + 1)" using de True by presburger
    ultimately show thesis by (rule that')
  next
    case False
    then have "v / 2 powi a < 2 ^ 53" by (rule not_le_imp_less)
    moreover have "dbl_exp p q = max (- 1074) a" using de False by presburger
    ultimately show thesis by (rule that' [OF y(1)])
  qed
qed

lemma scale_less:
  assumes "(v :: real) / 2 powi a < 2 ^ 52" and "2 ^ 52 \<le> v / 2 powi b" and "0 < v"
  shows "b < (a :: int)"
proof (rule ccontr)
  assume "\<not> b < a"
  then have "2 powi a \<le> (2 :: real) powi b" by (simp add: power_int_increasing)
  then have "v / 2 powi b \<le> v / 2 powi a" using assms(3) by (intro divide_left_mono) simp_all
  with assms show False by linarith
qed

lemma scale_eq:
  assumes "2 ^ 52 \<le> (v :: real) / 2 powi a" and "v / 2 powi a < 2 ^ 53"
    and "2 ^ 52 \<le> v / 2 powi b" and "v / 2 powi b < 2 ^ 53"
  shows "a = (b :: int)"
proof -
  have "\<not> c < d" if "v / 2 powi c < 2 ^ 53" "2 ^ 52 \<le> v / 2 powi d" for c d :: int
  proof
    assume "c < d"
    then have "2 * 2 powi c \<le> (2 :: real) powi d"
      using power_int_increasing [of "c + 1" d "2 :: real"] by (simp add: power_int_add)
    moreover have "2 ^ 52 * 2 powi d \<le> v" "v < 2 ^ 53 * 2 powi c" using that by (simp_all add: field_simps)
    ultimately show False by simp
  qed
  with assms show ?thesis by (cases a b rule: linorder_cases) blast+
qed

text \<open>A fraction close enough to a number is rounded to it.\<close>

lemma round_dbl_near:
  assumes "0 < p" and "0 < q" and "dbl_ok m e" and "0 < m"
    and near: "\<bar>real p / real q - real m * 2 powi e\<bar> \<le> real m * 2 powi e / (2 * 10 ^ 16)"
  shows "round_dbl neg p q = Fin neg m e"
proof -
  define v where "v = real p / real q"
  define y where "y = v / 2 powi e"
  have ok: "- 1074 \<le> e" "e \<le> 971" "m < 2 ^ 53" "m < 2 ^ 52 \<Longrightarrow> e = - 1074" using assms(3) by (auto simp: dbl_ok_def)
  have v0: "0 < v" using assms(1,2) by (simp add: v_def)
  have t: "0 < (2 :: real) powi e" by simp
  have "\<bar>v - real m * 2 powi e\<bar> = \<bar>y - real m\<bar> * 2 powi e"
    using t by (simp add: y_def abs_mult_pos' [symmetric] field_simps)
  with near t have ym: "\<bar>y - real m\<bar> \<le> real m / (2 * 10 ^ 16)" by (simp add: v_def field_simps)
  have "real m < real (2 ^ 53)" using ok(3) by (simp only: of_nat_less_iff)
  then have m53: "real m \<le> 2 ^ 53 - 1" using ok(3) by simp
  then have half: "\<bar>y - real m\<bar> < 46 / 100" using ym by simp
  obtain f where f: "2 ^ 52 \<le> v / 2 powi f" "v / 2 powi f < 2 ^ 53" "dbl_exp p q = max (- 1074) f"
    using dbl_exp_scale [OF assms(1,2)] unfolding v_def by blast
  have here: "round_dbl neg p q = Fin neg m e" if "dbl_exp p q = e"
  proof -
    have "round_half_even (num_at p e) (den_at q e) = m"
      using half by (intro rhe_near) (simp_all add: den_at_pos assms(2) num_den y_def v_def)
    then show ?thesis using assms(1) that ok by (simp add: round_dbl_def pack_dbl_def)
  qed
  show ?thesis
  proof (cases "2 ^ 52 \<le> y")
    case True
    moreover have "y < 2 ^ 53" using half m53 by linarith
    ultimately have "f = e" using f(1,2) by (intro scale_eq [of v]) (simp_all add: y_def)
    with here f(3) ok show ?thesis by simp
  next
    case False
    then have "f < e" using scale_less [of v e f] f(1) v0 by (simp add: y_def)
    show ?thesis
    proof (cases "e = - 1074")
      case True
      with here f(3) \<open>f < e\<close> show ?thesis by simp
    next
      case ne: False
      then have "2 ^ 52 \<le> m" using ok by force
      then have "real (2 ^ 52) \<le> real m" by (simp only: of_nat_le_iff)
      with False half have "real m < real (2 ^ 52 + 1)" by simp
      then have m: "m = 2 ^ 52" using \<open>2 ^ 52 \<le> m\<close> by linarith
      have y2: "v / 2 powi (e - 1) = 2 * y" by (simp add: y_def power_int_diff field_simps)
      have "z \<le> 2 ^ 52 / (2 * 10 ^ 16) \<Longrightarrow> z < 1 / 4" for z :: real by simp
      moreover have "\<bar>2 * y - 2 ^ 53\<bar> = 2 * \<bar>y - 2 ^ 52\<bar>" by (simp add: abs_if)
      ultimately have "\<bar>2 * y - 2 ^ 53\<bar> < 1 / 2" using ym unfolding m by force
      have "f = e - 1"
        using f(1,2) False half by (intro scale_eq [of v]) (simp_all add: y2 m)
      with f(3) ok ne have e1: "dbl_exp p q = e - 1" by simp
      have "round_half_even (num_at p (e - 1)) (den_at q (e - 1)) = 2 ^ 53"
        using \<open>\<bar>2 * y - 2 ^ 53\<bar> < 1 / 2\<close>
        by (intro rhe_near [OF den_at_pos [OF assms(2)]]) (simp only: num_den y2 [unfolded v_def], simp)
      then show ?thesis using assms(1) e1 ok m by (simp add: round_dbl_def pack_dbl_def)
    qed
  qed
qed

text \<open>Rounding gives a number of 53 bits, or infinity.\<close>

lemma round_dbl_ok:
  assumes "0 < p" and "0 < q" and "round_dbl neg p q = Fin neg' m e"
  shows "neg' = neg \<and> dbl_ok m e"
proof -
  define v where "v = real p / real q"
  obtain f where f: "2 ^ 52 \<le> v / 2 powi f" "v / 2 powi f < 2 ^ 53" "dbl_exp p q = max (- 1074) f"
    using dbl_exp_scale [OF assms(1,2)] unfolding v_def by blast
  define g where "g = max (- 1074) f"
  define k where "k = round_half_even (num_at p g) (den_at q g)"
  have g: "- 1074 \<le> g" by (simp add: g_def)
  have "\<bar>real k - v / 2 powi g\<bar> \<le> 1 / 2"
    using rhe_error [OF den_at_pos [OF assms(2), of g], of "num_at p g"] by (simp add: k_def num_den v_def)
  moreover have "v / 2 powi g < 2 ^ 53"
  proof -
    have "v / 2 powi g \<le> v / 2 powi f"
      using assms(1,2) by (intro divide_left_mono) (simp_all add: g_def v_def power_int_increasing)
    with f(2) show ?thesis by linarith
  qed
  ultimately have "real k < 2 ^ 53 + 1" by linarith
  then have "real k < real (2 ^ 53 + 1)" by simp
  then have hi: "k \<le> 2 ^ 53" by linarith
  have lo: "2 ^ 52 \<le> k" if "g \<noteq> - 1074"
  proof -
    from that have "g = f" by (simp add: g_def max_def split: if_splits)
    with f(1) have "2 ^ 52 \<le> v / 2 powi g" by simp
    with \<open>\<bar>real k - v / 2 powi g\<bar> \<le> 1 / 2\<close> have "2 ^ 52 < real k + 1" by linarith
    then have "real (2 ^ 52) < real (k + 1)" by simp
    then show ?thesis by linarith
  qed
  have "pack_dbl neg k g = Fin neg' m e" using assms(1,3) f(3) by (simp add: round_dbl_def k_def g_def)
  with hi lo g show ?thesis
    by (cases "g = - 1074") (auto simp: pack_dbl_def dbl_ok_def Let_def split: if_splits)
qed

lemma round_dbl_double: "0 < q \<Longrightarrow> is_double (round_dbl neg p q)"
  using round_dbl_ok [of p q neg]
  by (cases "round_dbl neg p q"; cases "p = 0") (auto simp: is_double_def round_dbl_def dbl_ok_def)

lemma zero_double [simp]: "is_double dbl0"
  by (simp add: is_double_def dbl0_def dbl_ok_def)

text \<open>What \<^verbatim>\<open>strtod\<close> returns is a \<^verbatim>\<open>double\<close>.\<close>

lemma strtod_double: "is_double (fst (strtod s))"
  by (auto simp: strtod_def Let_def case_prod_beta dec_to_dbl_def intro!: round_dbl_double)

text \<open>Two representations of the same number are equal.\<close>

lemma dbl_ok_less:
  assumes "dbl_ok m e" and "dbl_ok n f" and "0 < n" and "e < f"
  shows "int m \<noteq> int n * 2 ^ nat (f - e)"
proof -
  have "2 ^ 52 \<le> n" using assms by (force simp: dbl_ok_def)
  moreover have "nat (f - e) = Suc (nat (f - e - 1))" using assms(4) by simp
  ultimately have "2 ^ 52 * (2 * 1) \<le> n * 2 ^ nat (f - e)"
    by (simp only: power_Suc, intro mult_le_mono) simp_all
  then have "m < n * 2 ^ nat (f - e)" using assms(1) by (simp add: dbl_ok_def)
  then have "int m < int (n * 2 ^ nat (f - e))" by (simp only: of_nat_less_iff)
  then show ?thesis by simp
qed

lemma dbl_eq_unique:
  assumes "dbl_ok m e" and "dbl_ok n f" and "0 < n" and "dbl_eq (Fin neg m e) (Fin neg n f)"
  shows "m = n \<and> e = f"
proof -
  from assms(4) have eq: "int m * 2 ^ nat (e - min e f) = int n * 2 ^ nat (f - min e f)"
    by (cases neg) (simp_all add: dbl_eq_def)
  then have "0 < m" using assms(3) by (cases m) simp_all
  consider "e < f" | "e = f" | "f < e" by linarith
  then show ?thesis
  proof cases
    case 1
    with eq dbl_ok_less [OF assms(1,2,3) 1] show ?thesis by simp
  next
    case 2
    with eq show ?thesis by simp
  next
    case 3
    with eq dbl_ok_less [OF assms(2,1) \<open>0 < m\<close> 3] show ?thesis by simp
  qed
qed

section \<open>The text of a number\<close>

text \<open>The parts of the text: digits in front of the point, digits behind it, and an exponent.\<close>

definition number_parts :: "nat \<Rightarrow> int \<Rightarrow> real \<Rightarrow> u8 list \<Rightarrow> u8 list \<Rightarrow> int option \<Rightarrow> bool" where
  "number_parts n x v ip fp ex \<longleftrightarrow>
     ip \<noteq> [] \<and> (\<forall>b \<in> set ip. is_dig b) \<and> (\<forall>b \<in> set fp. is_dig b) \<and> (ex = None \<or> ex = Some x) \<and>
     length ip + length fp \<le> n + 4 \<and> (ex = Some x \<longrightarrow> length ip + length fp \<le> n) \<and>
     real (digs_val (ip @ fp)) * 10 powi (exp_val ex - int (length fp)) = v"

lemma stripped_value:
  assumes "ip @ fs = ds" and "digs_val ds = d"
  shows "real (digs_val (ip @ strip0 fs)) * 10 powi (k - int (length (strip0 fs))) =
    real d * 10 powi (k - int (length fs))"
proof -
  obtain j where j: "fs = strip0 fs @ replicate j 48" by (rule strip0_split)
  have "d = digs_val ((ip @ strip0 fs) @ replicate j 48)" using assms j by simp
  then have d: "d = digs_val (ip @ strip0 fs) * 10 ^ j" by (simp only: digs_val_append) simp
  have "length fs = length (strip0 fs) + j" using arg_cong [OF j, of length] by simp
  then show ?thesis by (simp add: d power_int_diff power_int_add field_simps)
qed

lemma sprintf_g_parts:
  assumes "0 < m" and "0 < n" and "sig_digits n (m * 2 ^ nat e) (2 ^ nat (- e)) = (d, x)"
    and v: "v = real d * 10 powi (x - int n + 1)"
  obtains ip fp ex where "sprintf_g n neg m e = sign_text neg @ with_frac ip fp @ exp_part ex"
    "number_parts n x v ip fp ex"
proof -
  let ?ds = "digits n d"
  have "d < 10 ^ n" using sig_digits_near [OF _ _ assms(2,3)] assms(1) by simp
  then have val: "digs_val ?ds = d" by (simp add: digs_val_digits)
  have dig: "\<forall>b \<in> set ?ds. is_dig b" by (auto simp: digits_dig)
  have sub: "\<forall>b \<in> set (take i ?ds). is_dig b" "\<forall>b \<in> set (strip0 (drop i ?ds)). is_dig b" for i
    using dig strip0_dig [of "drop i ?ds"] by (auto dest: in_set_takeD in_set_dropD)
  have len: "length (take i ?ds) + length (strip0 (drop i ?ds)) \<le> n" if "i \<le> n" for i
    using that strip0_length [of "drop i ?ds"] by simp
  have parts: "number_parts n x v (take i ?ds) (strip0 (drop i ?ds)) ex"
    if "0 < i" "i \<le> n" "ex = None \<or> ex = Some x" "exp_val ex - int (n - i) = x - int n + 1" for i ex
  proof -
    have "take i ?ds \<noteq> []" using that assms(2) length_digits [of n d] by (auto simp del: length_digits)
    moreover have "real (digs_val (take i ?ds @ strip0 (drop i ?ds))) *
        10 powi (exp_val ex - int (length (strip0 (drop i ?ds)))) = v"
      unfolding stripped_value [OF append_take_drop_id val] v length_drop length_digits that(4) ..
    ultimately show ?thesis using sub [of i] len [of i] that unfolding number_parts_def by simp
  qed
  have g: "sprintf_g n neg m e = sign_text neg @
     (if - 4 \<le> x \<and> x < int n then
          if 0 \<le> x then with_frac (take (nat x + 1) ?ds) (strip0 (drop (nat x + 1) ?ds))
          else with_frac [48] (strip0 (replicate (nat (- x) - 1) 48 @ ?ds))
        else with_frac (take 1 ?ds) (strip0 (drop 1 ?ds)) @ exp_text x)"
    using assms(1) by (simp add: sprintf_g_def assms(3) Let_def)
  consider "0 \<le> x" "x < int n" | "- 4 \<le> x" "x < 0" | "\<not> (- 4 \<le> x \<and> x < int n)" by linarith
  then show thesis
  proof cases
    case 1
    then show thesis
      by (intro that [OF _ parts [of "nat x + 1" None]]) (simp_all add: g exp_part_def exp_val_def)
  next
    case 2
    let ?fs = "replicate (nat (- x) - 1) 48 @ ?ds"
    have "[48] @ ?fs = replicate (nat (- x)) 48 @ ?ds" using 2 by (cases "nat (- x)") simp_all
    moreover have "digs_val (replicate (nat (- x)) 48 @ ?ds) = d" by (simp add: digs_val_append val)
    moreover have "exp_val None - int (length ?fs) = x - int n + 1" using 2 by (simp add: exp_val_def)
    ultimately have "real (digs_val ([48] @ strip0 ?fs)) * 10 powi (exp_val None - int (length (strip0 ?fs))) = v"
      using stripped_value [of "[48]" ?fs _ d "exp_val None"] unfolding v by metis
    moreover have "\<forall>b \<in> set ?fs. is_dig b" using dig by (auto simp: set_replicate_conv_if)
    then have "\<forall>b \<in> set (strip0 ?fs). is_dig b" using strip0_dig by blast
    moreover have "length (strip0 ?fs) \<le> n + 3" using strip0_length [of ?fs] 2 by simp
    ultimately have "number_parts n x v [48] (strip0 ?fs) None" unfolding number_parts_def by simp
    with 2 show thesis by (intro that [of "[48]" "strip0 ?fs" None]) (simp_all add: g exp_part_def)
  next
    case 3
    then show thesis
      using assms(2) by (intro that [OF _ parts [of 1 "Some x"]]) (auto simp: g exp_part_def exp_val_def)
  qed
qed

text \<open>The decimal exponent of a \<^verbatim>\<open>double\<close> has at most three digits.\<close>

lemma sig_digits_exp:
  assumes "dbl_ok m e" and "0 < m" and "sig_digits n (m * 2 ^ nat e) (2 ^ nat (- e)) = (d, x)"
  shows "\<bar>x\<bar> < 1000"
proof -
  define y where "y = dec_exp (m * 2 ^ nat e) (2 ^ nat (- e))"
  define v where "v = real m * 2 powi e"
  have ok: "- 1074 \<le> e" "e \<le> 971" "m < 2 ^ 53" using assms(1) by (auto simp: dbl_ok_def)
  have "real (m * 2 ^ nat e) / real (2 ^ nat (- e)) = v"
    by (cases "0 \<le> e") (simp_all add: v_def power_int_def field_simps)
  then have y: "10 powi y \<le> v" "v < 10 powi (y + 1)"
    using dec_exp_bounds [of "m * 2 ^ nat e" "2 ^ nat (- e)"] assms(2) by (simp_all add: y_def)
  have "real m < real (2 ^ 53)" using ok(3) by (simp only: of_nat_less_iff)
  moreover have "2 powi e \<le> (2 :: real) powi 971" by (rule power_int_increasing [OF ok(2)]) simp
  ultimately have "v < 2 ^ 53 * 2 powi 971" unfolding v_def by (intro mult_less_le_imp_less) simp_all
  also have "\<dots> < 10 powi 309" by simp
  finally have "y < 309" using y(1) by (meson le_less_trans not_le power_int_increasing one_le_numeral)
  have "10 powi (- 324) < (2 :: real) powi (- 1074)" by (simp add: power_int_def field_simps)
  also have "\<dots> \<le> 1 * 2 powi e" using power_int_increasing [OF ok(1), of "2 :: real"] by simp
  also have "\<dots> \<le> v" unfolding v_def using assms(2) by (intro mult_right_mono) simp_all
  finally have "- 324 < y + 1" using y(2) by (meson less_trans not_le power_int_increasing one_le_numeral)
  moreover have "x = y \<or> x = y + 1"
    using assms(3) by (auto simp: sig_digits_def Let_def y_def split: if_splits)
  ultimately show ?thesis using \<open>y < 309\<close> by linarith
qed

text \<open>The shape of the text of a finite number.\<close>

definition number_shape :: "bool \<Rightarrow> u8 list \<Rightarrow> bool" where
  "number_shape neg s \<longleftrightarrow>
     (\<exists>ip fp ex. s = sign_text neg @ with_frac ip fp @ exp_part ex \<and> ip \<noteq> [] \<and>
        (\<forall>b \<in> set ip. is_dig b) \<and> (\<forall>b \<in> set fp. is_dig b) \<and> length s \<le> 24)"

lemma exp_text_length: "length (exp_text x) \<le> 5"
  by (simp add: exp_text_def Let_def)

lemma sprintf_g_strtod:
  assumes "dbl_ok m e" and "0 < m" and "0 < n" and "n \<le> 17"
    and "sig_digits n (m * 2 ^ nat e) (2 ^ nat (- e)) = (d, x)"
  obtains p q where "0 < p" "0 < q" "real p / real q = real d * 10 powi (x - int n + 1)"
    "strtod (sprintf_g n neg m e) = (round_dbl neg p q, length (sprintf_g n neg m e))"
    "number_shape neg (sprintf_g n neg m e)"
proof -
  define v where "v = real d * 10 powi (x - int n + 1)"
  let ?s = "sprintf_g n neg m e"
  obtain ip fp ex where s: "?s = sign_text neg @ with_frac ip fp @ exp_part ex"
    and parts: "number_parts n x v ip fp ex"
    using sprintf_g_parts [OF assms(2,3,5) v_def] by blast
  have x: "\<forall>z. ex = Some z \<longrightarrow> \<bar>z\<bar> < 1000"
    using parts sig_digits_exp [OF assms(1,2,5)] by (auto simp: number_parts_def)
  define k where "k = exp_val ex - int (length fp)"
  define c where "c = digs_val (ip @ fp)"
  have val: "real c * 10 powi k = v" using parts by (simp add: number_parts_def k_def c_def)
  have "10 ^ (n - 1) \<le> d" using sig_digits_near [OF _ _ assms(3,5)] assms(2) by simp
  then have "0 < d" by (rule less_le_trans [rotated]) simp
  then have "0 < v" by (simp add: v_def)
  with val have c: "0 < c" by (cases c) simp_all
  have st: "strtod ?s = (dec_to_dbl neg c k, length ?s)"
    using strtod_text [OF _ _ _ x s] parts unfolding number_parts_def c_def k_def by blast
  have "length ?s \<le> 24"
    using parts assms(4) exp_text_length [of x]
    by (auto simp: s number_parts_def sign_text_def with_frac_def exp_part_def)
  then have "number_shape neg ?s"
    using parts s unfolding number_shape_def number_parts_def by blast
  moreover have "real (c * 10 ^ nat k) / real (10 ^ nat (- k)) = v"
    using val by (cases "0 \<le> k") (simp_all add: power_int_def field_simps)
  ultimately show thesis
    using c st by (intro that [of "c * 10 ^ nat k" "10 ^ nat (- k)"]) (simp_all add: v_def dec_to_dbl_def)
qed

lemma zero_text: "sprintf_g n neg 0 e = sign_text neg @ with_frac [48] [] @ exp_part None"
  by (simp add: sprintf_g_def with_frac_def exp_part_def)

lemma zero_strtod: "strtod (sprintf_g n neg 0 e) = (Fin neg 0 (- 1074), length (sprintf_g n neg 0 e))"
  using strtod_text [OF _ _ _ _ zero_text, of n neg e]
  by (simp add: exp_val_def dec_to_dbl_def round_dbl_def)

text \<open>Seventeen digits are enough for every number.\<close>

lemma sprintf_17_strtod:
  assumes "dbl_ok m e" and "0 < m"
  shows "strtod (sprintf_g 17 neg m e) = (Fin neg m e, length (sprintf_g 17 neg m e))"
proof -
  obtain d x where sd: "sig_digits 17 (m * 2 ^ nat e) (2 ^ nat (- e)) = (d, x)" by fastforce
  obtain p q where pq: "0 < p" "0 < q" "real p / real q = real d * 10 powi (x - int 17 + 1)"
    "strtod (sprintf_g 17 neg m e) = (round_dbl neg p q, length (sprintf_g 17 neg m e))"
    "number_shape neg (sprintf_g 17 neg m e)"
    by (rule sprintf_g_strtod [OF assms _ _ sd, where neg = neg]) simp_all
  have v: "real (m * 2 ^ nat e) / real (2 ^ nat (- e)) = real m * 2 powi e"
    by (cases "0 \<le> e") (simp_all add: power_int_def field_simps)
  have "\<bar>real p / real q - real m * 2 powi e\<bar> \<le> real m * 2 powi e / (2 * 10 ^ (17 - 1))"
    using sig_digits_near [OF _ _ _ sd] assms(2) unfolding pq(3) v by simp
  then have "round_dbl neg p q = Fin neg m e" by (intro round_dbl_near [OF pq(1,2) assms]) simp
  with pq(4) show ?thesis by simp
qed

lemma number_writes_shape:
  assumes "dbl_ok m e"
  shows "\<forall>s \<in> set (number_writes (Fin neg m e)). number_shape neg s"
proof -
  have "number_shape neg (sprintf_g n neg m e)" if "0 < n" "n \<le> 17" for n
  proof (cases "m = 0")
    case True
    then show ?thesis unfolding number_shape_def
      by (intro exI [of _ "[48]"] exI [of _ "[]"] exI [of _ None])
        (simp add: zero_text sign_text_def with_frac_def exp_part_def)
  next
    case False
    obtain d x where sd: "sig_digits n (m * 2 ^ nat e) (2 ^ nat (- e)) = (d, x)" by fastforce
    from False that sprintf_g_strtod [OF assms _ _ _ sd] show ?thesis by blast
  qed
  then have "number_shape neg (sprintf_g 15 neg m e)" "number_shape neg (sprintf_g 17 neg m e)" by simp_all
  then show ?thesis by (cases "strtod (sprintf_g 15 neg m e)") (simp add: number_writes_def Let_def)
qed

lemma number_text_shape: "dbl_ok m e \<Longrightarrow> number_shape neg (number_text (Fin neg m e))"
  using number_writes_shape [of m e neg] by (simp add: number_text_def number_writes_def Let_def split: prod.splits)

text \<open>The number is read back from its text.\<close>

lemma number_text_strtod:
  assumes "dbl_ok m e"
  shows "strtod (number_text (Fin neg m e)) = (Fin neg m e, length (number_text (Fin neg m e)))"
proof (cases "m = 0")
  case True
  then have "e = - 1074" using assms by (simp add: dbl_ok_def)
  with True zero_strtod show ?thesis by (simp add: number_text_def number_writes_def Let_def)
next
  case False
  then have m: "0 < m" by simp
  obtain d x where sd: "sig_digits 15 (m * 2 ^ nat e) (2 ^ nat (- e)) = (d, x)" by fastforce
  obtain p q where pq: "0 < p" "0 < q" "real p / real q = real d * 10 powi (x - int 15 + 1)"
    "strtod (sprintf_g 15 neg m e) = (round_dbl neg p q, length (sprintf_g 15 neg m e))"
    "number_shape neg (sprintf_g 15 neg m e)"
    by (rule sprintf_g_strtod [OF assms m _ _ sd, where neg = neg]) simp_all
  have "round_dbl neg p q = Fin neg m e" if eq: "dbl_eq (round_dbl neg p q) (Fin neg m e)"
  proof -
    obtain neg' n f where r: "round_dbl neg p q = Fin neg' n f"
      using eq by (cases "round_dbl neg p q") (auto simp: dbl_eq_def)
    from round_dbl_ok [OF pq(1,2) r] have "neg' = neg" "dbl_ok n f" by auto
    with dbl_eq_unique [OF _ assms m] eq r show ?thesis by auto
  qed
  then show ?thesis
    using pq(4) sprintf_17_strtod [OF assms m] by (auto simp: number_text_def number_writes_def Let_def)
qed

end
