(* ===== verification/Json_Safe.thy ===== *)
theory Json_Safe
  imports Json_Parse Json_Text_Facts Json_Fmt_Props
begin

text \<open>
  The parser is safe on every input: it never reads or writes outside its buffers, always returns,
  releases every block it allocated when it fails, and builds well-formed items whose nesting is
  bounded.  The contract of a value parser is the locale \<open>value_parsing\<close>; \<open>parse_array\<close> and
  \<open>parse_object\<close> are shown once for every parser that keeps it, and \<open>parse_value\<close> keeps it
  by induction on its fuel.
\<close>

section \<open>Well-formed items\<close>

definition plain_type :: "u32 \<Rightarrow> bool" where
  "plain_type ty \<longleftrightarrow>
     ty = cJSON_False \<or> ty = cJSON_True \<or> ty = cJSON_NULL \<or> ty = cJSON_Number \<or> ty = cJSON_String \<or>
     ty = cJSON_Array \<or> ty = cJSON_Object"

text \<open>
  A number is a \<^verbatim>\<open>double\<close> together with the integer it saturates to; the integer of true is 1.
\<close>

definition value_ok :: "cJSON_fields \<Rightarrow> bool" where
  "value_ok it \<longleftrightarrow>
     (if jtype it = cJSON_Number
      then is_double (valuedouble it) \<and> valueint it = saturate (valuedouble it)
      else valuedouble it = dbl0 \<and> valueint it = (if jtype it = cJSON_True then 1 else 0))"

text \<open>
  Strings and only strings have a text, only arrays and objects have children, the members of an
  object and only they have names.
\<close>

fun tree_ok :: "cJSON \<Rightarrow> bool" where
  "tree_ok (CJSON it cs) \<longleftrightarrow>
     plain_type (jtype it) \<and> value_ok it \<and> (valuestring it \<noteq> None \<longleftrightarrow> jtype it = cJSON_String) \<and>
     (cs \<noteq> [] \<longrightarrow> jtype it = cJSON_Array \<or> jtype it = cJSON_Object) \<and>
     list_all (\<lambda>c. jstring (jfields c) \<noteq> None \<longleftrightarrow> jtype it = cJSON_Object) cs \<and>
     list_all tree_ok cs"

fun nesting :: "cJSON \<Rightarrow> nat" where
  "nesting (CJSON it cs) =
     (if jtype it = cJSON_Array \<or> jtype it = cJSON_Object then Suc (foldr max (map nesting cs) 0) else 0)"

lemma nesting_bound: "foldr max (map nesting cs) 0 \<le> k \<longleftrightarrow> list_all (\<lambda>c. nesting c \<le> k) cs"
  by (induction cs) auto

text \<open>What is true of an item before its value is parsed into it.\<close>

definition item_ok :: "cJSON_fields \<Rightarrow> bool" where
  "item_ok it \<longleftrightarrow>
     jtype it AND cJSON_IsReference = 0 \<and> jtype it AND cJSON_StringIsConst = 0 \<and> valuestring it = None \<and>
     valueint it = 0 \<and> valuedouble it = dbl0"

definition kept :: "parse_buffer \<Rightarrow> parse_buffer \<Rightarrow> bool" where
  "kept b b' \<longleftrightarrow> content b' = content b \<and> hooks b' = hooks b \<and> offset b' \<le> length (content b)"

definition nul_ended :: "parse_buffer \<Rightarrow> bool" where
  "nul_ended b \<longleftrightarrow> content b \<noteq> [] \<and> last (content b) = 0"

text \<open>
  The result of parsing a value into the item \<open>it\<close> at the buffer \<open>b\<close>: a failure leaves no
  block behind; a success advances the offset, and the new blocks are those of the item.
\<close>

definition parsed :: "cJSON_fields \<Rightarrow> parse_buffer \<Rightarrow> cJSON option \<times> parse_buffer \<Rightarrow> bool" where
  "parsed it b = (\<lambda>(r, b').
     kept b b' \<and>
     (case r of
        None \<Rightarrow> live b' = live b
      | Some x \<Rightarrow>
          offset b < offset b' \<and> pdepth b' = pdepth b \<and>
          live b' = live b + blocks x - own_blocks it \<and> tree_ok x \<and>
          jstring (jfields x) = jstring it \<and> nesting x \<le> CJSON_NESTING_LIMIT - pdepth b))"

section \<open>The small steps\<close>

lemma skip_whitespace_fields [simp]:
  "content (buffer_skip_whitespace b) = content b" "hooks (buffer_skip_whitespace b) = hooks b"
  "live (buffer_skip_whitespace b) = live b" "pdepth (buffer_skip_whitespace b) = pdepth b"
  "allocs (buffer_skip_whitespace b) = allocs b"
  by (simp_all add: buffer_skip_whitespace_def Let_def)

lemma skip_whitespace_offset:
  assumes "content b \<noteq> []" and "offset b \<le> length (content b)"
  shows "min (offset b) (length (content b) - 1) \<le> offset (buffer_skip_whitespace b)"
    and "offset (buffer_skip_whitespace b) < length (content b)"
proof -
  let ?n = "offset b + length (takeWhile (\<lambda>c. c \<le> 32) (drop (offset b) (content b)))"
  have "?n \<le> length (content b)"
    using length_takeWhile_le [of "\<lambda>c. c \<le> 32" "drop (offset b) (content b)"] assms(2) by simp
  moreover have "0 < length (content b)" using assms(1) by simp
  ultimately show "min (offset b) (length (content b) - 1) \<le> offset (buffer_skip_whitespace b)"
    "offset (buffer_skip_whitespace b) < length (content b)"
    by (auto simp: buffer_skip_whitespace_def Let_def)
qed

lemma sees_eq: "sees b c = Ok (offset b < length (content b) \<and> content b ! offset b = c)"
  by (simp add: sees_def can_access_at_index_def buffer_at_def)

lemma sees_literal_eq:
  "sees_literal b lit = Ok (offset b + length lit \<le> length (content b) \<and>
     take (length lit) (drop (offset b) (content b)) = lit)"
  by (simp add: sees_literal_def strncmp_at_def can_read_def)

lemma sees_number_eq:
  "sees_number b = Ok (offset b < length (content b) \<and>
     (content b ! offset b = ch_minus \<or> 48 \<le> content b ! offset b \<and> content b ! offset b \<le> 57))"
  by (simp add: sees_number_def can_access_at_index_def buffer_at_def)

text \<open>A character other than NUL is in front of the last byte.\<close>

lemma before_nul:
  assumes "nul_ended b" and "offset b < length (content b)" and "content b ! offset b = c" and "c \<noteq> 0"
  shows "offset b < length (content b) - 1"
  using assms by (cases "offset b = length (content b) - 1") (auto simp: nul_ended_def last_conv_nth)

lemma own_blocks_item_ok:
  "item_ok it \<Longrightarrow> own_blocks it = 1 + (if jstring it \<noteq> None then 1 else 0)"
  by (simp add: item_ok_def own_blocks_def)

lemma plain_type_flags:
  "plain_type ty \<Longrightarrow> ty AND cJSON_IsReference = 0 \<and> ty AND cJSON_StringIsConst = 0"
  by (auto simp: plain_type_def cJSON_types)

lemma plain_types [simp]:
  "plain_type cJSON_False" "plain_type cJSON_True" "plain_type cJSON_NULL" "plain_type cJSON_Number"
  "plain_type cJSON_String" "plain_type cJSON_Array" "plain_type cJSON_Object"
  by (simp_all add: plain_type_def)

text \<open>The blocks of an item whose value has been set.\<close>

lemma blocks_set_type:
  assumes "item_ok it" and "plain_type ty"
  shows "blocks (CJSON (it\<lparr>jtype := ty\<rparr>) cs) = own_blocks it + sum_list (map blocks cs)"
  using assms plain_type_flags [OF assms(2)] by (simp add: item_ok_def own_blocks_def)

section \<open>Strings and numbers\<close>

lemma parse_string_bytes_ok:
  assumes "offset b < length (content b)"
  shows "okp (\<lambda>(r, b'). kept b b' \<and> pdepth b' = pdepth b \<and> offset b < offset b' \<and>
      live b' = live b + (if r = None then 0 else 1)) (parse_string_bytes b)"
proof -
  let ?s = "offset b + 1"
  show ?thesis
  proof (cases "content b ! offset b = ch_quote \<and> scan_string (content b) ?s 0 \<noteq> None")
    case False
    then consider "content b ! offset b \<noteq> ch_quote" | "scan_string (content b) ?s 0 = None" by blast
    then show ?thesis
      by cases (use assms in \<open>auto simp: parse_string_bytes_def buffer_at_def Let_def kept_def\<close>)
  next
    case True
    then obtain e k where scan: "scan_string (content b) ?s 0 = Some (e, k)" by auto
    note scan' = scan_string_Some [OF scan]
    let ?k = "escapes (content b) ?s e"
    have se: "?s \<le> e" using scan' reaches_le by blast
    have half: "?k \<le> e - ?s" using escapes_half [of "content b" ?s e] se by linarith
    let ?cap = "e - offset b - k + 1"
    have cap: "?s + ?cap + ?k = e + 2" using scan' half se by simp
    have inv: "pass2_inv (content b) ?s e ?s (length [])"
      using se by (simp add: pass2_inv_def escapes_stop)
    obtain ok b1 where al: "allocate b = (ok, b1)" by fastforce
    then have b1: "content b1 = content b" "hooks b1 = hooks b" "pdepth b1 = pdepth b" "offset b1 = offset b"
      "live b1 = live b + (if ok then 1 else 0)" by (auto simp: allocate_def)
    from unescape_ok [of "content b" ?s e ?s "[]" ?cap] scan' inv cap obtain p r where
      un: "unescape (content b) e ?cap ?s [] = Ok (p, r)" "?s \<le> p" "p \<le> e + 1"
        "\<And>out. r = Some out \<Longrightarrow> ?s + length out + ?k \<le> e"
      by (auto simp: okp_iff)
    have nul: "emit ?cap out [0] = Ok (out @ [0])" if "r = Some out" for out
      using un(4) [OF that] cap by (intro emit_ok) simp
    show ?thesis
      using True assms scan scan' al b1 un nul
      by (cases r) (auto simp: parse_string_bytes_def buffer_at_def Let_def kept_def deallocate_def)
  qed
qed

lemma parse_string_ok:
  assumes "offset b < length (content b)"
  shows "okp (\<lambda>(r, b'). kept b b' \<and> offset b < offset b' \<and>
      (case r of None \<Rightarrow> live b' = live b
       | Some it' \<Rightarrow> pdepth b' = pdepth b \<and> live b' = live b + 1 \<and>
           (\<exists>out. it' = it\<lparr>jtype := cJSON_String, valuestring := Some out\<rparr>))) (parse_string it b)"
  unfolding parse_string_def okp_rbind using parse_string_bytes_ok [OF assms]
  by (rule okp_mono) (auto split: option.splits)

lemma parse_number_ok:
  assumes "offset b \<le> length (content b)" and "parse_number it b = (r, b')"
  shows "kept b b' \<and> live b' = live b \<and> pdepth b' = pdepth b \<and>
    (case r of None \<Rightarrow> True
     | Some it' \<Rightarrow> offset b < offset b' \<and>
         jtype it' = cJSON_Number \<and> value_ok it' \<and> valuestring it' = valuestring it \<and> jstring it' = jstring it)"
proof -
  let ?s = "takeWhile number_char (take 63 (drop (offset b) (content b)))"
  have "length ?s \<le> length (content b) - offset b"
    using length_takeWhile_le [of number_char "take 63 (drop (offset b) (content b))"] by simp
  with strtod_used [of ?s] have "snd (strtod ?s) \<le> length (content b) - offset b" by linarith
  with assms strtod_double [of ?s] show ?thesis
    by (auto simp: parse_number_def Let_def kept_def value_ok_def case_prod_beta split: if_splits)
qed

section \<open>The contract of a value parser\<close>

definition elems :: "bool \<Rightarrow> nat \<Rightarrow> cJSON list \<Rightarrow> bool" where
  "elems named d cs \<longleftrightarrow>
     list_all (\<lambda>c. tree_ok c \<and> (jstring (jfields c) \<noteq> None \<longleftrightarrow> named) \<and> nesting c \<le> CJSON_NESTING_LIMIT - d) cs"

text \<open>What a loop over elements promises when the elements \<open>items\<close> are complete.\<close>

definition loop_post ::
  "bool \<Rightarrow> parse_buffer \<Rightarrow> cJSON list \<Rightarrow> cJSON list option \<times> parse_buffer \<Rightarrow> bool" where
  "loop_post named b items = (\<lambda>(r, b').
     kept b b' \<and>
     (case r of
        None \<Rightarrow> live b' = live b - sum_list (map blocks items)
      | Some xs \<Rightarrow>
          offset b < offset b' \<and> offset b' < length (content b) \<and> pdepth b' = pdepth b \<and>
          live b' = live b + sum_list (map blocks xs) - sum_list (map blocks items) \<and>
          elems named (pdepth b) xs))"

lemma loop_end_ok:
  assumes nul: "nul_ended b" and off: "offset b \<le> length (content b)"
    and start: "lo < offset b" "lo < length (content b) - 1" and c0: "close_ch \<noteq> 0"
    and items: "elems named (pdepth b) items"
    and again: "\<And>b'. kept b b' \<Longrightarrow> live b' = live b \<Longrightarrow> pdepth b' = pdepth b \<Longrightarrow> lo < offset b' \<Longrightarrow>
      offset b' < length (content b) - 1 \<Longrightarrow> okp (loop_post named b' items) (again items b')"
  shows "okp (\<lambda>(r, b'). kept b b' \<and>
     (case r of
        None \<Rightarrow> live b' = live b - sum_list (map blocks items)
      | Some xs \<Rightarrow>
          lo < offset b' \<and> offset b' < length (content b) \<and> pdepth b' = pdepth b \<and>
          live b' = live b + sum_list (map blocks xs) - sum_list (map blocks items) \<and>
          elems named (pdepth b) xs)) (loop_end close_ch again items b)"
proof -
  let ?b = "buffer_skip_whitespace b"
  have ne: "content b \<noteq> []" using nul by (simp add: nul_ended_def)
  note skip = skip_whitespace_offset [OF ne off]
  have kept: "kept b ?b" using skip(2) by (simp add: kept_def)
  have lo: "lo < offset ?b" using skip(1) start by linarith
  show ?thesis
  proof (cases "content b ! offset ?b = ch_comma")
    case True
    have "offset ?b < length (content ?b) - 1"
      by (rule before_nul [of _ ch_comma]) (use nul skip(2) True in \<open>simp_all add: nul_ended_def\<close>)
    then have lp: "okp (loop_post named ?b items) (again items ?b)"
      using kept lo by (intro again) simp_all
    have "loop_end close_ch again items b = again items ?b"
      using True skip(2) by (simp add: loop_end_def sees_eq)
    with lp lo show ?thesis
      by (auto simp: loop_post_def kept_def split: option.splits elim!: okp_mono)
  next
    case False
    show ?thesis
    proof (cases "content b ! offset ?b = close_ch")
      case True
      with False have "loop_end close_ch again items b = Ok (Some items, ?b)"
        using skip(2) by (simp add: loop_end_def sees_eq)
      with kept lo skip(2) items show ?thesis by simp
    next
      case nclose: False
      with False have "loop_end close_ch again items b = Ok (None, cJSON_Delete items ?b)"
        using skip(2) by (simp add: loop_end_def sees_eq)
      with kept show ?thesis by (simp add: cJSON_Delete_live kept_def)
    qed
  qed
qed

lemma fields0_ok [simp]: "item_ok fields0" "own_blocks fields0 = 1" "jstring fields0 = None"
  by (simp_all add: item_ok_def fields0_def own_blocks_def cJSON_types)

lemma New_Item_cases:
  obtains b1 where "cJSON_New_Item b = (None, b1)" "content b1 = content b" "hooks b1 = hooks b"
      "offset b1 = offset b" "pdepth b1 = pdepth b" "live b1 = live b"
  | b1 where "cJSON_New_Item b = (Some fields0, b1)" "content b1 = content b" "hooks b1 = hooks b"
      "offset b1 = offset b" "pdepth b1 = pdepth b" "live b1 = live b + 1"
  by (cases "hooks b (allocs b)") (auto simp: cJSON_New_Item_def allocate_def)

text \<open>The brackets around the loop: both functions enter, loop and leave in the same way.\<close>

lemma bracketed_ok:
  assumes it: "item_ok it" and nul: "nul_ended b" and off: "offset b < length (content b)"
    and c0: "content b ! offset b \<noteq> 0" and d: "pdepth b < CJSON_NESTING_LIMIT"
    and ty: "ty = (if named then cJSON_Object else cJSON_Array)" and close0: "close_ch \<noteq> 0"
    and loop: "\<And>b'. nul_ended b' \<Longrightarrow> content b' = content b \<Longrightarrow> offset b \<le> offset b' \<Longrightarrow>
      offset b' < length (content b) - 1 \<Longrightarrow> pdepth b' = pdepth b + 1 \<Longrightarrow> okp (loop_post named b' []) (loop b')"
  shows "okp (parsed it b) (bracketed close_ch ty loop it (b\<lparr>pdepth := pdepth b + 1\<rparr>))"
proof -
  define b1 where "b1 = buffer_skip_whitespace (b\<lparr>pdepth := Suc (pdepth b), offset := Suc (offset b)\<rparr>)"
  have ne: "content b \<noteq> []" using nul by (simp add: nul_ended_def)
  have lt: "offset b < length (content b) - 1" by (rule before_nul [OF nul off _ c0]) simp
  have b1: "content b1 = content b" "hooks b1 = hooks b" "live b1 = live b" "pdepth b1 = pdepth b + 1"
    "offset b < offset b1" "offset b1 < length (content b)"
    using skip_whitespace_offset [of "b\<lparr>pdepth := Suc (pdepth b), offset := Suc (offset b)\<rparr>"] ne lt off
    by (auto simp: b1_def)
  have good: "okp (parsed it b) (case r of None \<Rightarrow> Ok (None, b2)
      | Some items \<Rightarrow> Ok (Some (CJSON (it\<lparr>jtype := ty\<rparr>) items), b2\<lparr>pdepth := pdepth b2 - 1, offset := offset b2 + 1\<rparr>))"
    if "content b2 = content b" "hooks b2 = hooks b" "offset b2 \<le> length (content b)"
      "case r of None \<Rightarrow> live b2 = live b | Some items \<Rightarrow> offset b \<le> offset b2 \<and> offset b2 < length (content b) \<and>
        pdepth b2 = pdepth b + 1 \<and> live b2 = live b + sum_list (map blocks items) \<and> elems named (pdepth b + 1) items" for r b2
  proof (cases r)
    case None
    with that show ?thesis by (simp add: parsed_def kept_def)
  next
    case (Some items)
    have ty': "plain_type ty" "ty = cJSON_Array \<or> ty = cJSON_Object" "ty \<noteq> cJSON_String"
      using ty by (auto simp: plain_type_def cJSON_types)
    have nest: "foldr max (map nesting items) 0 \<le> CJSON_NESTING_LIMIT - (pdepth b + 1)"
      using that Some by (auto simp: nesting_bound elems_def list_all_iff)
    have "tree_ok (CJSON (it\<lparr>jtype := ty\<rparr>) items)"
      using that Some ty ty' it by (auto simp: elems_def item_ok_def value_ok_def list_all_iff cJSON_types)
    with that Some ty' nest d show ?thesis
      by (simp add: parsed_def kept_def blocks_set_type [OF it ty'(1)] del: blocks.simps tree_ok.simps)
  qed
  show ?thesis
  proof (cases "content b ! offset b1 = close_ch")
    case True
    with b1 good [of b1 "Some []"] show ?thesis
      by (simp add: bracketed_def sees_eq elems_def Let_def flip: b1_def)
  next
    case False
    let ?b = "b1\<lparr>offset := offset b1 - 1\<rparr>"
    have lp: "okp (loop_post named ?b []) (loop ?b)"
      by (rule loop) (use b1 nul in \<open>auto simp: nul_ended_def\<close>)
    have "okp (parsed it b) (case x of (r, b2) \<Rightarrow> case r of None \<Rightarrow> Ok (None, b2)
        | Some items \<Rightarrow> Ok (Some (CJSON (it\<lparr>jtype := ty\<rparr>) items),
            b2\<lparr>pdepth := pdepth b2 - 1, offset := offset b2 + 1\<rparr>))" if x: "loop_post named ?b [] x" for x
    proof -
      obtain r b2 where xr: "x = (r, b2)" by fastforce
      have "offset b \<le> offset b1 - 1" using b1 by linarith
      with x b1 show ?thesis
        unfolding xr prod.case
        by (intro good; cases r) (auto simp: loop_post_def kept_def)
    qed
    with lp have "okp (parsed it b) (rbind (loop ?b) (\<lambda>(r, b2). case r of None \<Rightarrow> Ok (None, b2)
        | Some items \<Rightarrow> Ok (Some (CJSON (it\<lparr>jtype := ty\<rparr>) items),
            b2\<lparr>pdepth := pdepth b2 - 1, offset := offset b2 + 1\<rparr>)))"
      unfolding okp_rbind by (rule okp_mono)
    then show ?thesis
      using False b1 by (simp add: bracketed_def sees_eq can_access_at_index_def Let_def del: okp_rbind flip: b1_def)
  qed
qed

locale value_parsing =
  fixes pv :: value_parser and R :: nat
  assumes pv_law: "item_ok it \<Longrightarrow> nul_ended b \<Longrightarrow> offset b < length (content b) \<Longrightarrow>
    length (content b) - offset b \<le> R \<Longrightarrow> pdepth b \<le> CJSON_NESTING_LIMIT \<Longrightarrow> okp (parsed it b) (pv it b)"
begin

lemma array_loop_ok:
  assumes "nul_ended b" and "offset b < length (content b) - 1"
    and "length (content b) - offset b \<le> Suc R" and "length (content b) - 1 - offset b \<le> n"
    and "pdepth b \<le> CJSON_NESTING_LIMIT" and "elems False (pdepth b) items"
  shows "okp (loop_post False b items) (array_loop pv n items b)"
  using assms
proof (induction n arbitrary: items b)
  case (Suc n)
  show ?case
  proof (cases rule: New_Item_cases [of b])
    case (1 b1)
    with Suc.prems show ?thesis by (simp add: loop_post_def kept_def cJSON_Delete_live)
  next
    case (2 b1)
    let ?b2 = "buffer_skip_whitespace (b1\<lparr>offset := offset b1 + 1\<rparr>)"
    have ne: "content b \<noteq> []" using Suc.prems(1) by (simp add: nul_ended_def)
    have "content (b1\<lparr>offset := offset b1 + 1\<rparr>) \<noteq> []" "offset (b1\<lparr>offset := offset b1 + 1\<rparr>) \<le> length (content (b1\<lparr>offset := offset b1 + 1\<rparr>))"
      using 2 ne Suc.prems(2) by simp_all
    note skip = skip_whitespace_offset [OF this]
    have o2: "offset b < offset ?b2" "offset ?b2 < length (content b)"
      using skip 2 Suc.prems(2) by simp_all
    have "okp (parsed fields0 ?b2) (pv fields0 ?b2)"
      by (rule pv_law) (use Suc.prems o2 2 in \<open>auto simp: nul_ended_def\<close>)
    then obtain r b3 where pv: "pv fields0 ?b2 = Ok (r, b3)" and parsed: "parsed fields0 ?b2 (r, b3)"
      by (auto simp: okp_iff)
    show ?thesis
    proof (cases r)
      case None
      with parsed 2 pv show ?thesis
        by (simp add: parsed_def loop_post_def kept_def cJSON_Delete_live)
    next
      case (Some x)
      with parsed 2 have b3: "content b3 = content b" "hooks b3 = hooks b" "offset b3 \<le> length (content b)"
        "offset ?b2 < offset b3" "pdepth b3 = pdepth b" "live b3 = live b + blocks x"
        and x: "elems False (pdepth b) (items @ [x])"
        using Suc.prems(6) by (auto simp: parsed_def kept_def elems_def)
      have "okp (\<lambda>(r, b'). kept b3 b' \<and>
         (case r of
            None \<Rightarrow> live b' = live b3 - sum_list (map blocks (items @ [x]))
          | Some xs \<Rightarrow>
              offset b < offset b' \<and> offset b' < length (content b3) \<and> pdepth b' = pdepth b3 \<and>
              live b' = live b3 + sum_list (map blocks xs) - sum_list (map blocks (items @ [x])) \<and>
              elems False (pdepth b3) xs))
        (loop_end ch_rbracket (\<lambda>items c. array_loop pv n items c) (items @ [x]) b3)"
      proof (rule loop_end_ok)
        fix b'
        assume b': "kept b3 b'" "live b' = live b3" "pdepth b' = pdepth b3" "offset b < offset b'"
          "offset b' < length (content b3) - 1"
        show "okp (loop_post False b' (items @ [x])) (array_loop pv n (items @ [x]) b')"
          by (rule Suc.IH) (use b' b3 x Suc.prems in \<open>auto simp: kept_def nul_ended_def\<close>)
      qed (use Suc.prems b3 o2 x in \<open>auto simp: nul_ended_def\<close>)
      then have "okp (loop_post False b items)
          (loop_end ch_rbracket (\<lambda>items c. array_loop pv n items c) (items @ [x]) b3)"
        by (rule okp_mono) (use b3 in \<open>auto simp: loop_post_def kept_def split: option.splits\<close>)
      with 2 pv Some show ?thesis by simp
    qed
  qed
qed simp

lemma object_loop_ok:
  assumes "nul_ended b" and "offset b < length (content b) - 1"
    and "length (content b) - offset b \<le> Suc R" and "length (content b) - 1 - offset b \<le> n"
    and "pdepth b \<le> CJSON_NESTING_LIMIT" and "elems True (pdepth b) items"
  shows "okp (loop_post True b items) (object_loop pv n items b)"
  using assms
proof (induction n arbitrary: items b)
  case (Suc n)
  have ne: "content b \<noteq> []" using Suc.prems(1) by (simp add: nul_ended_def)
  show ?case
  proof (cases rule: New_Item_cases [of b])
    case (1 b1)
    with Suc.prems show ?thesis by (simp add: loop_post_def kept_def cJSON_Delete_live)
  next
    case (2 b1)
    let ?b2 = "buffer_skip_whitespace (b1\<lparr>offset := offset b1 + 1\<rparr>)"
    have "content (b1\<lparr>offset := offset b1 + 1\<rparr>) \<noteq> []" "offset (b1\<lparr>offset := offset b1 + 1\<rparr>) \<le> length (content (b1\<lparr>offset := offset b1 + 1\<rparr>))"
      using 2 ne Suc.prems(2) by simp_all
    note skip = skip_whitespace_offset [OF this]
    have o2: "offset b < offset ?b2" "offset ?b2 < length (content b)"
      using skip 2 Suc.prems(2) by simp_all
    from parse_string_ok [of ?b2 fields0] o2 2 obtain r b3 where
      ps: "parse_string fields0 ?b2 = Ok (r, b3)" and k3: "kept ?b2 b3" "offset ?b2 < offset b3"
      and r: "case r of None \<Rightarrow> live b3 = live ?b2 | Some it' \<Rightarrow> pdepth b3 = pdepth ?b2 \<and> live b3 = live ?b2 + 1 \<and>
           (\<exists>out. it' = fields0\<lparr>jtype := cJSON_String, valuestring := Some out\<rparr>)"
      by (auto simp: okp_iff)
    show ?thesis
    proof (cases r)
      case None
      with r k3 2 ps show ?thesis by (simp add: loop_post_def kept_def cJSON_Delete_live)
    next
      case (Some nm)
      with r 2 obtain out where nm: "nm = fields0\<lparr>jtype := cJSON_String, valuestring := Some out\<rparr>"
        and b3: "pdepth b3 = pdepth b" "live b3 = live b + 2" "content b3 = content b" "hooks b3 = hooks b"
          "offset b3 \<le> length (content b)" "offset b < offset b3"
        using k3 o2 by (auto simp: kept_def)
      let ?it = "take_name nm"
      let ?b4 = "buffer_skip_whitespace b3"
      have it: "item_ok ?it" "own_blocks ?it = 2" "jstring ?it = Some out"
        by (simp_all add: nm take_name_def item_ok_def own_blocks_def fields0_def cJSON_types)
      have skip3: "offset b \<le> offset ?b4" "offset ?b4 < length (content b)"
        using skip_whitespace_offset [of b3] ne b3 Suc.prems(2) by auto
      show ?thesis
      proof (cases "content b ! offset ?b4 = ch_colon")
        case False
        with skip3 2 ps Some b3 it show ?thesis
          by (simp add: sees_eq loop_post_def kept_def cJSON_Delete_live)
      next
        case True
        have o4: "offset ?b4 < length (content ?b4) - 1"
          by (rule before_nul [of _ ch_colon]) (use Suc.prems(1) skip3 True b3 in \<open>simp_all add: nul_ended_def\<close>)
        let ?b5 = "buffer_skip_whitespace (?b4\<lparr>offset := offset ?b4 + 1\<rparr>)"
        have o5: "offset b < offset ?b5" "offset ?b5 < length (content b)"
          using skip_whitespace_offset [of "?b4\<lparr>offset := offset ?b4 + 1\<rparr>"] ne b3 skip3 o4 by auto
        have "okp (parsed ?it ?b5) (pv ?it ?b5)"
          by (rule pv_law) (use Suc.prems o5 it b3 in \<open>auto simp: nul_ended_def\<close>)
        then obtain r' b6 where pv: "pv ?it ?b5 = Ok (r', b6)" and parsed: "parsed ?it ?b5 (r', b6)"
          by (auto simp: okp_iff)
        show ?thesis
        proof (cases r')
          case None
          with parsed 2 ps Some skip3 True pv b3 it show ?thesis
            by (simp add: sees_eq parsed_def loop_post_def kept_def cJSON_Delete_live)
        next
          case (Some x)
          with parsed b3 it have b6: "content b6 = content b" "hooks b6 = hooks b" "offset b6 \<le> length (content b)"
            "offset ?b5 < offset b6" "pdepth b6 = pdepth b" "live b6 = live b + blocks x"
            and x: "elems True (pdepth b) (items @ [x])"
            using Suc.prems(6) by (auto simp: parsed_def kept_def elems_def)
          have "okp (\<lambda>(r, b'). kept b6 b' \<and>
             (case r of
                None \<Rightarrow> live b' = live b6 - sum_list (map blocks (items @ [x]))
              | Some xs \<Rightarrow>
                  offset b < offset b' \<and> offset b' < length (content b6) \<and> pdepth b' = pdepth b6 \<and>
                  live b' = live b6 + sum_list (map blocks xs) - sum_list (map blocks (items @ [x])) \<and>
                  elems True (pdepth b6) xs))
            (loop_end ch_rbrace (\<lambda>items c. object_loop pv n items c) (items @ [x]) b6)"
          proof (rule loop_end_ok)
            fix b'
            assume b': "kept b6 b'" "live b' = live b6" "pdepth b' = pdepth b6" "offset b < offset b'"
              "offset b' < length (content b6) - 1"
            show "okp (loop_post True b' (items @ [x])) (object_loop pv n (items @ [x]) b')"
              by (rule Suc.IH) (use b' b6 x Suc.prems in \<open>auto simp: kept_def nul_ended_def\<close>)
          qed (use Suc.prems b6 o5 x in \<open>auto simp: nul_ended_def\<close>)
          then have "okp (loop_post True b items)
              (loop_end ch_rbrace (\<lambda>items c. object_loop pv n items c) (items @ [x]) b6)"
            by (rule okp_mono) (use b6 in \<open>auto simp: loop_post_def kept_def split: option.splits\<close>)
          with 2 ps \<open>r = Some nm\<close> skip3 True pv b3 Some show ?thesis by (simp add: sees_eq)
        qed
      qed
    qed
  qed
qed simp

lemma parse_array_ok:
  assumes "item_ok it" and "nul_ended b" and "offset b < length (content b)"
    and "length (content b) - offset b \<le> Suc R" and "R \<le> n" and "pdepth b \<le> CJSON_NESTING_LIMIT"
  shows "okp (parsed it b) (parse_array pv n it b)"
proof (cases "pdepth b < CJSON_NESTING_LIMIT \<and> content b ! offset b = ch_lbracket")
  case False
  with assms show ?thesis
    by (auto simp: parse_array_def parsed_def kept_def buffer_at_def Let_def)
next
  case True
  have "okp (loop_post False b' []) (array_loop pv n [] b')"
    if "nul_ended b'" "content b' = content b" "offset b \<le> offset b'"
      "offset b' < length (content b) - 1" "pdepth b' = pdepth b + 1" for b'
    by (rule array_loop_ok) (use that assms True in \<open>auto simp: elems_def\<close>)
  then have "okp (parsed it b) (bracketed ch_rbracket cJSON_Array (array_loop pv n []) it (b\<lparr>pdepth := pdepth b + 1\<rparr>))"
    by (intro bracketed_ok [OF assms(1-3), where named = False]) (use True in simp_all)
  with True assms(3) show ?thesis by (simp add: parse_array_def buffer_at_def Let_def)
qed

lemma parse_object_ok:
  assumes "item_ok it" and "nul_ended b" and "offset b < length (content b)"
    and "length (content b) - offset b \<le> Suc R" and "R \<le> n" and "pdepth b \<le> CJSON_NESTING_LIMIT"
  shows "okp (parsed it b) (parse_object pv n it b)"
proof (cases "pdepth b < CJSON_NESTING_LIMIT \<and> content b ! offset b = ch_lbrace")
  case False
  with assms show ?thesis
    by (auto simp: parse_object_def parsed_def kept_def sees_eq Let_def)
next
  case True
  have "okp (loop_post True b' []) (object_loop pv n [] b')"
    if "nul_ended b'" "content b' = content b" "offset b \<le> offset b'"
      "offset b' < length (content b) - 1" "pdepth b' = pdepth b + 1" for b'
    by (rule object_loop_ok) (use that assms True in \<open>auto simp: elems_def\<close>)
  then have "okp (parsed it b) (bracketed ch_rbrace cJSON_Object (object_loop pv n []) it (b\<lparr>pdepth := pdepth b + 1\<rparr>))"
    by (intro bracketed_ok [OF assms(1-3), where named = True]) (use True in simp_all)
  with True assms(3) show ?thesis by (simp add: parse_object_def sees_eq Let_def)
qed

end

section \<open>The value parser\<close>

lemma parsed_leaf:
  assumes "item_ok it" and "kept b b'" and "offset b < offset b'" and "pdepth b' = pdepth b"
    and "live b' = live b" and "jtype it' \<in> {cJSON_False, cJSON_True, cJSON_NULL, cJSON_Number}"
    and "value_ok it'" and "valuestring it' = valuestring it" and "jstring it' = jstring it"
  shows "parsed it b (Some (CJSON it' []), b')"
  using assms by (auto simp: parsed_def item_ok_def own_blocks_def cJSON_types plain_type_def)

lemma parse_value_ok:
  "item_ok it \<Longrightarrow> nul_ended b \<Longrightarrow> offset b < length (content b) \<Longrightarrow>
     length (content b) - offset b \<le> n \<Longrightarrow> pdepth b \<le> CJSON_NESTING_LIMIT \<Longrightarrow> okp (parsed it b) (parse_value n it b)"
proof (induction n arbitrary: it b)
  case (Suc n)
  then have vp: "value_parsing (parse_value n) n" by (unfold_locales) blast
  show ?case
  proof -
    let ?c = "content b ! offset b"
    have str: "okp (parsed it b) (rbind (parse_string it b) (\<lambda>r. Ok (leaf r)))"
      unfolding okp_rbind using parse_string_ok [OF Suc.prems(3), of it]
      by (rule okp_mono)
        (use Suc.prems(1) in \<open>auto simp: leaf_def parsed_def item_ok_def own_blocks_def value_ok_def cJSON_types plain_type_def split: option.splits\<close>)
    have num: "parsed it b (leaf (parse_number it b))"
    proof -
      obtain r b' where pn: "parse_number it b = (r, b')" by fastforce
      have "parsed it b (map_option (\<lambda>it. CJSON it []) r, b')"
        using parse_number_ok [OF less_imp_le [OF Suc.prems(3)] pn] Suc.prems(1)
        by (cases r) (auto intro!: parsed_leaf, auto simp: parsed_def)
      then show ?thesis by (simp add: pn leaf_def)
    qed
    have arr: "okp (parsed it b) (parse_array (parse_value n) n it b)"
      by (rule value_parsing.parse_array_ok [OF vp]) (use Suc.prems in auto)
    have obj: "okp (parsed it b) (parse_object (parse_value n) n it b)"
      by (rule value_parsing.parse_object_ok [OF vp]) (use Suc.prems in auto)
    have lit: "parsed it b (Some (CJSON it' []), b\<lparr>offset := offset b + k\<rparr>)"
      if "jtype it' \<in> {cJSON_False, cJSON_True, cJSON_NULL, cJSON_Number}" "value_ok it'" "valuestring it' = valuestring it"
        "jstring it' = jstring it" "offset b + k \<le> length (content b)" "0 < k" for it' k
      by (rule parsed_leaf) (use that Suc.prems in \<open>auto simp: kept_def\<close>)
    have none: "parsed it b (None, b)" using Suc.prems by (simp add: parsed_def kept_def)
    show ?thesis
      unfolding parse_value.simps sees_literal_eq sees_eq sees_number_eq rbind_simps
      by (intro okp_ifI str arr obj; simp only: okp_simps num none; (intro lit; use Suc.prems(1) in \<open>simp add: value_ok_def item_ok_def cJSON_types\<close>)?)
  qed
qed simp

interpretation json_value: value_parsing "parse_value n" n for n
  by unfold_locales (rule parse_value_ok)

section \<open>The entry points\<close>

lemma start_buffer_ok:
  "nul_ended (start_buffer hk s lv)" "0 < length (content (start_buffer hk s lv))"
  by (simp_all add: start_buffer_def nul_ended_def)

end
