(* ===== verification/Json_Props.thy ===== *)
theory Json_Props
  imports Json_Safe
begin

text \<open>
  The properties of the JSON library: safety of the entry points on every input, what the
  accessors find, and the conversions of numbers and code points.
\<close>

section \<open>The entry points\<close>

definition outcome_ok :: "int \<Rightarrow> nat \<Rightarrow> parse_outcome \<Rightarrow> bool" where
  "outcome_ok lv len r \<longleftrightarrow>
     (case out_item r of
        None \<Rightarrow> out_live r = lv
      | Some x \<Rightarrow>
          out_live r = lv + blocks x \<and> tree_ok x \<and> nesting x \<le> CJSON_NESTING_LIMIT \<and>
          jstring (jfields x) = None \<and> out_error r = None) \<and>
     (\<forall>p. out_error r = Some p \<longrightarrow> p \<le> len) \<and> (\<forall>p. out_end r = Some p \<longrightarrow> p \<le> len + 1)"

lemma parse_failed_ok:
  assumes "length (content b) = len + 1" and "live b = lv"
  shows "outcome_ok lv len (parse_failed b)"
  using assms by (simp add: outcome_ok_def parse_failed_def error_position_def)

lemma skip_utf8_bom_ok:
  assumes "offset b = 0" and "nul_ended b"
  obtains b' where "skip_utf8_bom b = Ok (Some b')" "content b' = content b" "hooks b' = hooks b"
    "live b' = live b" "pdepth b' = pdepth b" "offset b' \<le> length (content b)"
  using assms
  by (cases "can_access_at_index b 4")
    (auto simp: skip_utf8_bom_def strncmp_at_def can_read_def can_access_at_index_def split: if_splits)

lemma ParseWithOpts_ok:
  "okp (outcome_ok lv (length (cbytes s))) (cJSON_ParseWithOpts hk (Some s) req lv)"
proof -
  let ?b = "start_buffer hk s lv" and ?len = "length (cbytes s)"
  show ?thesis
  proof (cases rule: New_Item_cases [of ?b])
    case (1 b)
    then show ?thesis
      by (simp add: cJSON_ParseWithOpts_def parse_failed_ok start_buffer_def)
  next
    case (2 b)
    have b: "content b = cbytes s @ [0]" "offset b = 0" "pdepth b = 0" "live b = lv + 1" "nul_ended b"
      using 2 by (simp_all add: start_buffer_def nul_ended_def)
    obtain b1 where bom: "skip_utf8_bom b = Ok (Some b1)" "content b1 = content b" "hooks b1 = hooks b"
      "live b1 = live b" "pdepth b1 = pdepth b" "offset b1 \<le> length (content b)"
      by (rule skip_utf8_bom_ok [OF b(2,5)])
    let ?b2 = "buffer_skip_whitespace b1"
    have "content b1 \<noteq> []" using b bom by simp
    from skip_whitespace_offset(2) [OF this] bom(2,6) have o2: "offset ?b2 < length (content ?b2)" by simp
    have "okp (parsed fields0 ?b2) (parse_value (length (content b) + 1) fields0 ?b2)"
      by (rule json_value.pv_law) (use o2 b bom in \<open>simp_all add: nul_ended_def\<close>)
    then obtain r b3 where pv: "parse_value (length (content b) + 1) fields0 ?b2 = Ok (r, b3)"
      and parsed: "parsed fields0 ?b2 (r, b3)" by (auto simp: okp_iff)
    show ?thesis
    proof (cases r)
      case None
      with parsed b bom have "outcome_ok lv ?len (parse_failed (cJSON_Delete [CJSON fields0 []] b3))"
        by (intro parse_failed_ok) (simp_all add: parsed_def kept_def cJSON_Delete_live)
      with 2 bom pv None show ?thesis by (simp add: cJSON_ParseWithOpts_def)
    next
      case (Some x)
      with parsed b bom have b3: "content b3 = content b" "offset b3 \<le> length (content b)"
        "live b3 = lv + blocks x" "tree_ok x" "jstring (jfields x) = None" "nesting x \<le> CJSON_NESTING_LIMIT"
        by (auto simp: parsed_def kept_def)
      let ?b4 = "if req then buffer_skip_whitespace b3 else b3"
      have b4: "content ?b4 = content b" "live ?b4 = lv + blocks x" "offset ?b4 \<le> length (content b)"
        using b3 b skip_whitespace_offset(2) [of b3] by (auto simp: less_imp_le)
      have fail: "outcome_ok lv ?len (parse_failed (cJSON_Delete [x] ?b4))"
        by (rule parse_failed_ok) (use b4 b in \<open>simp_all add: cJSON_Delete_live\<close>)
      have ok: "outcome_ok lv ?len \<lparr>out_item = Some x, out_end = Some (offset ?b4), out_error = None, out_live = live ?b4\<rparr>"
        using b3 b4 b by (simp add: outcome_ok_def)
      show ?thesis
        using 2 bom pv Some fail ok
        by (cases req) (simp_all add: cJSON_ParseWithOpts_def Let_def sees_eq)
    qed
  qed
qed

section \<open>Properties\<close>

text \<open>
  C7: parsing is safe on every text, for every behaviour of the allocator: it returns, no
  read or write leaves a buffer, a failure leaves no allocated block behind, and a success gives a
  well-formed item that owns exactly the new blocks, nested at most 1000 deep; the reported
  positions lie in the text.
\<close>

theorem cJSON_Parse_safe:
  "okp (\<lambda>r.
     (case out_item r of
        None \<Rightarrow> out_live r = lv
      | Some x \<Rightarrow> out_live r = lv + blocks x \<and> tree_ok x \<and> nesting x \<le> 1000) \<and>
     (case out_error r of None \<Rightarrow> True | Some p \<Rightarrow> p \<le> length (cbytes s)))
   (cJSON_ParseWithOpts hk (Some s) require_null_terminated lv)"
  using ParseWithOpts_ok [of lv s hk require_null_terminated]
  by (rule okp_mono) (auto simp: outcome_ok_def CJSON_NESTING_LIMIT_def split: option.splits)

text \<open>The values of all fields of a tree.\<close>

fun all_items :: "(cJSON_fields \<Rightarrow> bool) \<Rightarrow> cJSON \<Rightarrow> bool" where
  "all_items P (CJSON it cs) \<longleftrightarrow> P it \<and> list_all (all_items P) cs"

lemma tree_all_items:
  assumes "\<And>it. plain_type (jtype it) \<Longrightarrow> value_ok it \<Longrightarrow> P it"
  shows "tree_ok x \<Longrightarrow> all_items P x"
  by (induction x rule: tree_ok.induct) (auto simp: list_all_iff assms)

lemma quotient_less:
  fixes N :: int
  assumes "0 < D" and "N < k * D"
  shows "N div D < k"
proof (rule ccontr)
  assume "\<not> N div D < k"
  then have "k * D \<le> N div D * D" using assms(1) by (intro mult_right_mono) simp_all
  also have "\<dots> \<le> N" using div_mult_mod_eq [of N D] pos_mod_sign [OF assms(1), of N] by linarith
  finally show False using assms(2) by simp
qed

lemma saturate_int: "INT_MIN \<le> saturate x \<and> saturate x \<le> INT_MAX"
proof (cases x)
  case (Fin neg m e)
  define N D where "N = int (num_at m (- e))" and "D = int (den_at 1 (- e))"
  have D: "0 < D" and q: "0 \<le> N div D" by (simp_all add: N_def D_def den_at_def pos_imp_zdiv_nonneg_iff)
  have tr: "dbl_trunc x = (if neg then - (N div D) else N div D)"
    by (simp add: Fin dbl_trunc_def zdiv_int N_def D_def)
  have ge: "dbl_ge_int x n \<longleftrightarrow> n * D \<le> (if neg then - N else N)" and le: "dbl_le_int x n \<longleftrightarrow> (if neg then - N else N) \<le> n * D" for n
    by (simp_all add: Fin dbl_ge_int_def dbl_le_int_def N_def D_def)
  show ?thesis
  proof (cases "dbl_ge_int x INT_MAX \<or> dbl_le_int x INT_MIN")
    case False
    then have "if neg then N < - INT_MIN * D else N < INT_MAX * D" unfolding ge le by (cases neg) simp_all
    then have "if neg then N div D < - INT_MIN else N div D < INT_MAX" using quotient_less [OF D] by (cases neg) simp_all
    with False tr q show ?thesis by (cases neg) (simp_all add: saturate_def INT_MAX_def INT_MIN_def)
  qed (auto simp: saturate_def INT_MAX_def INT_MIN_def)
qed (auto simp: saturate_def dbl_ge_int_def dbl_le_int_def INT_MAX_def INT_MIN_def)

lemma int_bounds: "INT_MIN \<le> 0" "0 \<le> INT_MAX" "INT_MIN \<le> 1" "1 \<le> INT_MAX"
  by (simp_all add: INT_MIN_def INT_MAX_def)

text \<open>
  The fields of every item of a parsed tree have values of their C types: the type is one of the seven plain
  ones, the number is a \<^verbatim>\<open>double\<close>, the integer is in the range of \<^verbatim>\<open>int\<close>, and it is the number saturated to
  that range.
\<close>

theorem cJSON_Parse_types:
  "okp (\<lambda>r. case out_item r of None \<Rightarrow> True | Some x \<Rightarrow> all_items (\<lambda>it.
      plain_type (jtype it) \<and> is_double (valuedouble it) \<and> INT_MIN \<le> valueint it \<and> valueint it \<le> INT_MAX \<and>
      (if jtype it = cJSON_Number then valueint it = saturate (valuedouble it) else valuedouble it = dbl0)) x)
    (cJSON_ParseWithOpts hk (Some s) require_null_terminated lv)"
  using ParseWithOpts_ok [of lv s hk require_null_terminated]
proof (rule okp_mono)
  fix r
  assume ok: "outcome_ok lv (length (cbytes s)) r"
  show "case out_item r of None \<Rightarrow> True | Some x \<Rightarrow> all_items (\<lambda>it.
      plain_type (jtype it) \<and> is_double (valuedouble it) \<and> INT_MIN \<le> valueint it \<and> valueint it \<le> INT_MAX \<and>
      (if jtype it = cJSON_Number then valueint it = saturate (valuedouble it) else valuedouble it = dbl0)) x"
  proof (cases "out_item r")
    case (Some x)
    with ok have "tree_ok x" by (simp add: outcome_ok_def)
    then show ?thesis
      unfolding Some option.case
      by (rule tree_all_items [rotated]) (simp add: value_ok_def saturate_int int_bounds split: if_splits)
  qed simp
qed

end
