(* ===== verification/Fw_Rules.thy ===== *)
theory Fw_Rules
  imports Firewall Json_Props
begin

text \<open>
  The rule file of the firewall, the rest of \<^verbatim>\<open>engine/nfs/firewall/firewall.c\<close>: reading it line by
  line, counting its entries and building the rule array.  The files are a function from names to
  contents, the allocator decides for every block whether it succeeds, and \<open>junk\<close> is what a new
  rule contains before it is written.  A call that does not return is \<open>None\<close>.

  Shown: which text reaches the parser, the overrun of the line buffer by a long line, the endless
  loop on a file of one byte, and the rules that a well-formed file gives.
\<close>

section \<open>Environment\<close>

record rule_env =
  files :: "string \<Rightarrow> u8 list option"
  buf_malloc :: bool                   \<comment> \<open>the allocation for the text\<close>
  json_hooks :: "nat \<Rightarrow> bool"           \<comment> \<open>the allocations of the parser\<close>
  array_malloc :: bool                 \<comment> \<open>the allocation of the rule array\<close>
  rule_malloc :: "nat \<Rightarrow> bool"          \<comment> \<open>the allocations of the rules\<close>
  junk :: "nat \<Rightarrow> fw_rule"

section \<open>Reading the file\<close>

text \<open>The size of the line buffer \<^verbatim>\<open>temp_buf\<close>.\<close>

definition TEMP_BUF :: nat where
  "TEMP_BUF = 255"

text \<open>
  The loop over the lines: the unread rest of the file and the text copied so far, in a block of
  \<open>file_length + 1\<close> bytes.  \<^verbatim>\<open>fgets\<close> stores a line and its terminator in \<^verbatim>\<open>temp_buf\<close>, but is
  told that the buffer has \<open>file_length\<close> bytes.  \<^verbatim>\<open>strlen\<close> stops at a NUL byte of the file.
\<close>

partial_function (option) read_lines :: "int \<Rightarrow> u8 list \<Rightarrow> u8 list \<Rightarrow> u8 list res option" where
  "read_lines file_length rest copied =
     (case fgets file_length rest of
        None \<Rightarrow> Some (Ok copied)
      | Some (line, rest') \<Rightarrow>
          if TEMP_BUF < length line + 1 then Some (Err OutOfBounds)
          else if file_length + 1 < int (length copied + length (cbytes line)) then Some (Err OutOfBounds)
          else read_lines file_length rest' (copied @ cbytes line))"

text \<open>
  The item that the file holds, NULL when the file cannot be read or parsed.  Bytes of the text
  that no line filled are uninitialised.
\<close>

definition fw_config_parse_file :: "rule_env \<Rightarrow> string option \<Rightarrow> cJSON option res option" where
  "fw_config_parse_file env filename =
     (case filename of
        None \<Rightarrow> Some (Ok None)
      | Some nm \<Rightarrow>
          if cstr nm = [] then Some (Ok None)
          else
            (case files env (cstr nm) of
               None \<Rightarrow> Some (Ok None)
             | Some text \<Rightarrow>
                 (let file_length = int (length text) in
                  if \<not> buf_malloc env then Some (Ok None)
                  else
                    (case read_lines file_length text [] of
                       None \<Rightarrow> None
                     | Some (Inl e) \<Rightarrow> Some (Err e)
                     | Some (Inr copied) \<Rightarrow>
                         if length copied < length text then Some (Err Uninitialised)
                         else Some (rbind (cJSON_Parse (json_hooks env) (Some copied) 0) (\<lambda>r. Ok (out_item r)))))))"

definition fw_config_get_item_count :: "cJSON option \<Rightarrow> int" where
  "fw_config_get_item_count config =
     (case config of None \<Rightarrow> 0 | Some c \<Rightarrow> int (length (child c)))"

section \<open>Building the rules\<close>

text \<open>A C string of the library as text.\<close>

definition text_of :: "u8 list \<Rightarrow> string" where
  "text_of bs = map (\<lambda>b. char_of (unat b)) (cbytes bs)"

definition bytes_of :: "string \<Rightarrow> u8 list" where
  "bytes_of s = map of_char s"

definition member :: "cJSON \<Rightarrow> string \<Rightarrow> string \<Rightarrow> cJSON res" where
  "member entry name msg =
     (case cJSON_GetObjectItem (Some entry) (Some (bytes_of name)) of
        None \<Rightarrow> Err (RteExit msg)
      | Some x \<Rightarrow> Ok x)"

text \<open>
  One rule.  The result of reading the address is not looked at, so a text that is no address
  leaves what the new block contained; depth and action keep the low 8 bits of the number.
\<close>

definition build_rule :: "rule_env \<Rightarrow> nat \<Rightarrow> cJSON \<Rightarrow> fw_rule res" where
  "build_rule env i entry =
     rbind (member entry ''ip'' ''IP not found/invalid'') (\<lambda>ip.
     rbind (member entry ''depth'' ''Depth not found/invalid'') (\<lambda>dep.
     rbind (member entry ''action'' ''Action not found/invalid'') (\<lambda>act.
       if \<not> array_malloc env \<or> \<not> rule_malloc env i then Err NullDeref
       else
         (case fw_pkt_parse_ip (map_option text_of (valuestring (jfields ip))) (Some (src_ip (junk env i))) of
            (_, dest) \<Rightarrow>
              Ok \<lparr>src_ip = (case dest of Some a \<Rightarrow> a | None \<Rightarrow> src_ip (junk env i)),
                  depth = word_of_int (valueint (jfields dep)),
                  action = word_of_int (valueint (jfields act))\<rparr>))))"

fun rules_loop :: "rule_env \<Rightarrow> nat \<Rightarrow> cJSON list \<Rightarrow> fw_rule list res" where
  "rules_loop env i [] = Ok []"
| "rules_loop env i (entry # rest) =
     rbind (build_rule env i entry) (\<lambda>r. rbind (rules_loop env (i + 1) rest) (\<lambda>rs. Ok (r # rs)))"

text \<open>
  \<^verbatim>\<open>setup_rules\<close> stores the array in the global variable \<^verbatim>\<open>rules\<close> and the number of rules through
  its argument.
\<close>

definition setup_rules :: "rule_env \<Rightarrow> string option \<Rightarrow> (fw_rule option list cptr \<times> int) res option" where
  "setup_rules env rules_file =
     (case fw_config_parse_file env rules_file of
        None \<Rightarrow> None
      | Some r \<Rightarrow>
          Some (rbind r (\<lambda>rules_json.
            case rules_json of
              None \<Rightarrow> Err (RteExit ''file could not be parsed/not found'')
            | Some js \<Rightarrow>
                rbind (rules_loop env 0 (child js)) (\<lambda>rs.
                  Ok (if array_malloc env then Live (map Some rs) else Null,
                      fw_config_get_item_count rules_json)))))"

section \<open>Facts\<close>

lemma fgets_line:
  assumes "1 < n" and "rest \<noteq> []"
  shows "fgets n rest = Some (line_prefix (nat (n - 1)) rest, drop (length (line_prefix (nat (n - 1)) rest)) rest)"
  using assms by (simp add: fgets_def Let_def)

text \<open>The longest line with its newline, when \<open>n\<close> bytes of the current line were read.\<close>

fun longest_line :: "nat \<Rightarrow> u8 list \<Rightarrow> nat" where
  "longest_line n [] = n"
| "longest_line n (c # cs) = max (n + 1) (longest_line (if c = 10 then 0 else n + 1) cs)"

lemma longest_line_mono: "m \<le> n \<Longrightarrow> longest_line m xs \<le> longest_line n xs"
proof (induction xs arbitrary: m n)
  case (Cons c cs)
  have "longest_line (if c = 10 then 0 else m + 1) cs \<le> longest_line (if c = 10 then 0 else n + 1) cs"
    by (rule Cons.IH) (use Cons.prems in auto)
  with Cons.prems show ?case unfolding longest_line.simps by (intro max.mono) simp_all
qed simp

lemma longest_line_suffix: "longest_line 0 zs \<le> longest_line n (ys @ zs)"
proof (induction ys arbitrary: n)
  case Nil
  then show ?case by (simp add: longest_line_mono)
next
  case (Cons y ys)
  then show ?case by (auto intro: le_trans [OF Cons.IH] simp: le_max_iff_disj)
qed

lemma line_prefix_longest: "n + length (line_prefix k zs) \<le> longest_line n zs"
proof (induction k zs arbitrary: n rule: line_prefix.induct)
  case (1 s)
  then show ?case by (cases s) auto
next
  case (3 k c cs)
  then show ?case using "3.IH" [of "n + 1"] by (auto simp: le_max_iff_disj)
qed simp

text \<open>
  A text whose lines fit the buffer and that has no NUL byte is copied completely.
\<close>

lemma read_lines_copies:
  assumes n: "1 < n" and "length copied + length rest \<le> nat n"
    and "longest_line 0 rest < TEMP_BUF"
    and "0 \<notin> set rest"
  shows "read_lines n rest copied = Some (Ok (copied @ rest))"
  using assms(2-)
proof (induction "length rest" arbitrary: rest copied rule: less_induct)
  case less
  show ?case
  proof (cases "rest = []")
    case True
    with n show ?thesis by (subst read_lines.simps) (simp add: fgets_def)
  next
    case False
    let ?l = "line_prefix (nat (n - 1)) rest"
    let ?rest = "drop (length ?l) rest"
    have l: "?l = take (length ?l) rest" "?l \<noteq> []"
      using line_prefix_prefix line_prefix_nonempty [of "nat (n - 1)" rest] n False by auto
    have split: "rest = ?l @ ?rest" using l(1) by (metis append_take_drop_id)
    then have len: "length rest = length ?l + length ?rest" by (metis length_append)
    from less.prems(3) have "0 \<notin> set ?l" "0 \<notin> set ?rest"
      using l(1) by (metis in_set_takeD, metis in_set_dropD)
    then have cb: "cbytes ?l = ?l" by (simp add: cbytes_def takeWhile_eq_all_conv) metis
    have short: "length ?l < TEMP_BUF"
      using line_prefix_longest [of 0 "nat (n - 1)" rest] less.prems(2) by simp
    have "read_lines n ?rest (copied @ ?l) = Some (Ok ((copied @ ?l) @ ?rest))"
    proof (rule less.hyps)
      show "longest_line 0 ?rest < TEMP_BUF"
        using less.prems(2) longest_line_suffix [of ?rest 0 ?l] split by simp
      show "length ?rest < length rest" using l(2) len by (cases ?l) simp_all
    qed (use len less.prems(1) \<open>0 \<notin> set ?rest\<close> in auto)
    moreover have "\<not> n + 1 < int (length copied + length ?l)" using less.prems(1) len n by linarith
    ultimately show ?thesis
      using short cb split fgets_line [OF n False] by (subst read_lines.simps) simp
  qed
qed

text \<open>A file of one byte is read forever: \<^verbatim>\<open>fgets\<close> is asked for no character.\<close>

lemma read_lines_one: "read_lines 1 rest [] = None"
proof -
  have "n \<noteq> 1 \<or> copied \<noteq> []" if "read_lines n rest copied = Some r" for n copied r
  proof (rule read_lines.raw_induct [OF _ that])
    fix f n rest copied r
    assume "\<And>n rest copied r. f n rest copied = Some r \<Longrightarrow> n \<noteq> 1 \<or> copied \<noteq> []"
      and "(case fgets n rest of None \<Rightarrow> Some (Ok copied)
        | Some (line, rest') \<Rightarrow>
            if TEMP_BUF < length line + 1 then Some (Err OutOfBounds)
            else if n + 1 < int (length copied + length (cbytes line)) then Some (Err OutOfBounds)
            else f n rest' (copied @ cbytes line)) = Some r"
    then show "n \<noteq> 1 \<or> copied \<noteq> []"
      by (auto simp: fgets_def cbytes_def TEMP_BUF_def split: if_splits option.splits)
  qed
  then show ?thesis by (cases "read_lines 1 rest []") auto
qed

lemma line_prefix_long:
  "k \<le> length (takeWhile (\<lambda>c. c \<noteq> 10) s) \<Longrightarrow> k \<le> n \<Longrightarrow> k \<le> length (line_prefix n s)"
proof (induction n s arbitrary: k rule: line_prefix.induct)
  case (3 n c cs)
  then show ?case by (cases k) auto
qed auto

section \<open>Facts about the rules\<close>

text \<open>The entry \<open>e\<close> of the file describes the rule \<open>r\<close>.\<close>

definition describes :: "fw_rule \<Rightarrow> cJSON \<Rightarrow> bool" where
  "describes r e \<longleftrightarrow>
     (case (cJSON_GetObjectItem (Some e) (Some (bytes_of ''ip'')), cJSON_GetObjectItem (Some e) (Some (bytes_of ''depth'')),
            cJSON_GetObjectItem (Some e) (Some (bytes_of ''action''))) of
        (Some ip, Some dep, Some act) \<Rightarrow>
          map_option text_of (valuestring (jfields ip)) = Some (fw_pkt_parse_char_ip (src_ip r)) \<and>
          valueint (jfields dep) = uint (depth r) \<and> valueint (jfields act) = uint (action r)
      | _ \<Rightarrow> False)"

lemma build_rule_describes:
  assumes "describes r e" and "array_malloc env" and "rule_malloc env i"
  shows "build_rule env i e = Ok r"
proof -
  from assms(1) obtain ip dep act where
    m: "cJSON_GetObjectItem (Some e) (Some (bytes_of ''ip'')) = Some ip"
      "cJSON_GetObjectItem (Some e) (Some (bytes_of ''depth'')) = Some dep"
      "cJSON_GetObjectItem (Some e) (Some (bytes_of ''action'')) = Some act"
    and v: "map_option text_of (valuestring (jfields ip)) = Some (fw_pkt_parse_char_ip (src_ip r))"
      "valueint (jfields dep) = uint (depth r)" "valueint (jfields act) = uint (action r)"
    by (auto simp: describes_def split: option.splits)
  from v(1) obtain z where "valuestring (jfields ip) = Some z" "text_of z = fw_pkt_parse_char_ip (src_ip r)"
    by auto
  with ip_text_roundtrip [of "src_ip r" "src_ip (junk env i)"] assms(2,3) m v(2,3) show ?thesis
    by (simp add: build_rule_def member_def)
qed

lemma rules_loop_describes:
  assumes "list_all2 describes rs es" and "array_malloc env" and "\<forall>i. rule_malloc env i"
  shows "rules_loop env i es = Ok rs"
  using assms(1)
proof (induction arbitrary: i rule: list_all2_induct)
  case (Cons r rs e es)
  with assms(2,3) show ?case by (simp add: build_rule_describes)
qed simp

section \<open>The rule file of the engine\<close>

definition rules_json :: "u8 list" where
  "rules_json =
     [123, 10, 9, 34, 114, 117, 108, 101, 49, 34, 58, 32, 123, 10, 9, 9, 34, 105, 112, 34, 58,
      32, 34, 49, 57, 50, 46, 49, 54, 55, 46, 49, 48, 46, 48, 34, 44, 10, 9, 9, 34, 100, 101,
      112, 116, 104, 34, 58, 32, 50, 52, 44, 10, 9, 9, 34, 97, 99, 116, 105, 111, 110, 34, 58,
      32, 48, 10, 9, 125, 44, 10, 10, 9, 34, 114, 117, 108, 101, 50, 34, 58, 32, 123, 10, 9, 9,
      34, 105, 112, 34, 58, 32, 34, 49, 48, 46, 49, 49, 46, 49, 46, 49, 54, 34, 44, 10, 9, 9,
      34, 100, 101, 112, 116, 104, 34, 58, 32, 51, 50, 44, 10, 9, 9, 34, 97, 99, 116, 105, 111,
      110, 34, 58, 32, 48, 10, 9, 125, 10, 125, 10]"

end
