(* ===== verification/Coprocessor.thy ===== *)
theory Coprocessor
  imports Engine_State Fw_Rules
begin

text \<open>
  The network function that a coprocessor runs, \<^verbatim>\<open>engine/coprocessor.c\<close> with the build option
  \<^verbatim>\<open>ENABLE_FW_NF\<close>: set-up, tear-down and the decision on one packet, each by a call of the
  firewall.  Set-up reads the rule file, so it may not return (\<open>None\<close>).

  Shown: set-up leaves a table whenever the rules could be read and a table could be created, even
  when adding a rule fails, and it reports success in every case.
\<close>

section \<open>Operations\<close>

definition rule_file :: string where
  "rule_file = ''./nfs/firewall/rules.json''"

text \<open>
  The rule array and the number of rules go to the global variables; the result of \<^verbatim>\<open>lpm_setup\<close>
  is not looked at.
\<close>

definition coprocessor_setup ::
  "('r, 'k, 'l) dpdk \<Rightarrow> rule_env \<Rightarrow> nat \<Rightarrow> u64 \<Rightarrow> 'l fw_state \<Rightarrow> (int \<times> 'l fw_state) res option" where
  "coprocessor_setup D env lcore_id tsc s =
     (case setup_rules env (Some rule_file) of
        None \<Rightarrow> None
      | Some r \<Rightarrow>
          Some (rbind r (\<lambda>(rs, n).
            rbind (lpm_setup D lcore_id tsc rs n (s\<lparr>rules := rs, num_rules := n\<rparr>)) (\<lambda>(_, s').
              Ok (0, s')))))"

definition coprocessor_teardown :: "'l fw_state \<Rightarrow> (int \<times> 'l fw_state) res" where
  "coprocessor_teardown s =
     rbind (lpm_teardown (rules s) (num_rules s)) (\<lambda>rs. Ok (0, s\<lparr>rules := rs\<rparr>))"

definition process_packet ::
  "('r, 'k, 'l) dpdk \<Rightarrow> rte_mbuf \<Rightarrow> 'l fw_state \<Rightarrow> (int \<times> 'l fw_state) res" where
  "process_packet D pkt s =
     rbind (fw_packet_handler D pkt s) (\<lambda>(act, s').
       if act \<noteq> FW_FORWARD then Ok (- 1, s') else Ok (0, s'))"

section \<open>Facts\<close>

lemma lpm_add_some:
  assumes "lpm_spec D R" and "rte_lpm_add D (Some l) ip d h = (ret, l')"
  shows "l' \<noteq> None"
proof (cases "ret < 0")
  case True
  from assms have "if ret < 0 then l' = Some l
      else 1 \<le> unat d \<and> unat d \<le> 32 \<and>
        (\<exists>t. l' = Some t \<and> R t = (R l)((ip AND depth_mask (unat d), unat d) := Some h))"
    unfolding lpm_spec_def by blast
  with True show ?thesis by simp
next
  case False
  with lpm_add [OF assms] show ?thesis by auto
qed

text \<open>Whatever adding the rules returns, the table stays.\<close>

lemma lpm_add_loop_some:
  assumes "lpm_spec D R" and "\<forall>i \<in> set is. i < length rs"
  shows "okp (\<lambda>(ret, tbl). tbl \<noteq> None) (lpm_add_loop D (Live (map Some rs)) is (Some l))"
  using assms(2)
proof (induction "is" arbitrary: l)
  case (Cons i "is")
  obtain ret l' where add: "rte_lpm_add D (Some l) (src_ip (rs ! i)) (depth (rs ! i)) (ucast (action (rs ! i))) = (ret, l')"
    by fastforce
  from lpm_add_some [OF assms(1) add] obtain t where "l' = Some t" by blast
  with Cons add show ?case by (simp add: rule_at_def)
qed simp

lemma lpm_setup_some:
  assumes "lpm_spec D R" and "rte_lpm_create D (lpm_table_name lcore tsc) \<noteq> None"
  shows "okp (\<lambda>(ret, s'). lpm_tbl s' \<noteq> None \<and> rules s' = rules s \<and> num_rules s' = num_rules s)
    (lpm_setup D lcore tsc (Live (map Some rs)) (int (length rs)) s)"
proof -
  from assms(2) obtain l where l: "rte_lpm_create D (lpm_table_name lcore tsc) = Some l" by blast
  have "okp (\<lambda>(ret, tbl). tbl \<noteq> None) (lpm_add_loop D (Live (map Some rs)) [0..<length rs] (Some l))"
    by (rule lpm_add_loop_some [OF assms(1)]) simp
  then show ?thesis by (auto simp: lpm_setup_def l elim!: okp_mono)
qed

lemma coprocessor_setup_some:
  assumes "lpm_spec D R" and "rte_lpm_create D (lpm_table_name lcore tsc) \<noteq> None"
    and "setup_rules env (Some rule_file) = Some (Ok (Live (map Some rs), int (length rs)))"
  obtains f where "coprocessor_setup D env lcore tsc s = Some (Ok (0, f))" "lpm_tbl f \<noteq> None"
    "rules f = Live (map Some rs)" "num_rules f = int (length rs)"
proof -
  let ?s = "s\<lparr>rules := Live (map Some rs), num_rules := int (length rs)\<rparr>"
  from lpm_setup_some [OF assms(1,2), of ?s rs] obtain ret f where
    "lpm_setup D lcore tsc (Live (map Some rs)) (int (length rs)) ?s = Ok (ret, f)"
    "lpm_tbl f \<noteq> None" "rules f = rules ?s" "num_rules f = num_rules ?s"
    by (auto simp: okp_iff)
  with that [of f] assms(3) show thesis by (simp add: coprocessor_setup_def)
qed

end
