(* ===== verification/Init.thy ===== *)
theory Init
  imports Engine_State
begin

text \<open>
  Initialisation, \<^verbatim>\<open>engine/init.c\<close>: the loops of \<^verbatim>\<open>read_config\<close> (default routes, port
  configuration, rings, routes of the ports), \<^verbatim>\<open>init\<close> and \<^verbatim>\<open>engine_free\<close>.

  Shown: the exact routing table that results, that every configured address reaches its port,
  that every address outside the first five entries which no port has is routed to port 0, the
  names of the rings, and that \<open>init\<close> establishes the well-formedness of the engine except for
  the interfaces, which \<open>Interface\<close> allocates.
\<close>

section \<open>Operations\<close>

definition get_rx_queue_name :: "nat \<Rightarrow> string" where
  "get_rx_queue_name i = snprintf_trunc 20 (''MProc_Client_'' @ dec_nat i @ ''_RX'')"

definition get_tx_queue_name :: "nat \<Rightarrow> string" where
  "get_tx_queue_name i = snprintf_trunc 20 (''MProc_Client_'' @ dec_nat i @ ''_TX'')"

definition engine_free :: "('r, 'k, 'l) engine \<Rightarrow> ('r, 'k, 'l) engine res" where
  "engine_free s =
     (case mgr_tx (tx_mgr s) of
        Null \<Rightarrow> Ok s
      | Dangling \<Rightarrow> Err UseAfterFree
      | Live bufs \<Rightarrow> Ok (s\<lparr>tx_mgr := (tx_mgr s)\<lparr>mgr_tx := Dangling\<rparr>\<rparr>))"

definition set_default_routes :: "queue_mgr \<Rightarrow> queue_mgr" where
  "set_default_routes m =
     foldl (\<lambda>m i. m\<lparr>routing_table := (routing_table m)(word_of_nat i := 0xFFFF)\<rparr>) m [0..<KNI_KTHREAD]"

definition port_config :: "nat \<Rightarrow> kni_config" where
  "port_config i =
     \<lparr>cnf_id = word_of_nat i, cnf_ip = RTE_IPV4 192 167 10 (word_of_nat i + 1), cnf_core_id = word_of_nat i\<rparr>"

definition set_port_configs :: "queue_mgr \<Rightarrow> queue_mgr" where
  "set_port_configs m =
     foldl (\<lambda>m i. m\<lparr>kni_cnf := (kni_cnf m)[i := port_config i]\<rparr>) m [0..<KNI_KTHREAD]"

definition create_rings ::
  "('r, 'k, 'l) dpdk \<Rightarrow> 'r coprocessor_mgr list \<Rightarrow> 'r coprocessor_mgr list" where
  "create_rings D cs =
     foldl (\<lambda>cs i. cs[i := (cs ! i)\<lparr>rx_q := rte_ring_create D (get_rx_queue_name i),
                                     tx_q := rte_ring_create D (get_tx_queue_name i)\<rparr>])
       cs [0..<KNI_KTHREAD]"

definition set_port_routes :: "queue_mgr \<Rightarrow> queue_mgr" where
  "set_port_routes m =
     foldl (\<lambda>m i. m\<lparr>routing_table :=
                (routing_table m)(ucast (cnf_ip (kni_cnf m ! i) AND 0xFFFF) := ucast (cnf_id (kni_cnf m ! i)))\<rparr>)
       m [0..<unat (nb_active_kni m)]"

definition read_config :: "('r, 'k, 'l) dpdk \<Rightarrow> ('r, 'k, 'l) engine \<Rightarrow> int \<times> ('r, 'k, 'l) engine" where
  "read_config D s =
     (let m1 = set_default_routes (tx_mgr s);
          m2 = set_port_configs m1;
          m3 = m2\<lparr>nb_active_kni := word_of_nat KNI_KTHREAD\<rparr>;
          s1 = s\<lparr>tx_mgr := m3, nf := create_rings D (nf s)\<rparr>;
          s2 = s1\<lparr>tx_mgr := set_port_routes (tx_mgr s1)\<rparr>
      in (0, s2))"

definition init :: "('r, 'k, 'l) dpdk \<Rightarrow> ('r, 'k, 'l) engine \<Rightarrow> (int \<times> ('r, 'k, 'l) engine) res" where
  "init D s =
     (let s1 = s\<lparr>pktmbuf_pool := rte_pktmbuf_pool_create D\<rparr> in
      if \<not> pktmbuf_pool s1 then Err (RteExit ''Could not initialise mbuf pool'')
      else
        (let tx = (if rte_calloc D then Live (replicate KNI_KTHREAD packet_buf0) else Null);
             s2 = s1\<lparr>tx_mgr := (tx_mgr s1)\<lparr>mgr_tx := tx\<rparr>\<rparr>
         in if tx = Null then rbind (engine_free s2) (\<lambda>s3. Ok (- 1, s3))
            else (case read_config D s2 of
                    (r, s3) \<Rightarrow> if r \<noteq> 0 then rbind (engine_free s3) (\<lambda>s4. Ok (- 1, s4))
                               else Ok (0, s3))))"

section \<open>Facts\<close>

lemma ports_upt: "[0..<KNI_KTHREAD] = [0, 1, 2, 3, 4]"
  by (simp add: KNI_KTHREAD_def upt_rec)

lemma port_configs:
  "map port_config [0, 1, 2, 3, 4] =
     [\<lparr>cnf_id = 0, cnf_ip = 0xC0A70A01, cnf_core_id = 0\<rparr>, \<lparr>cnf_id = 1, cnf_ip = 0xC0A70A02, cnf_core_id = 1\<rparr>,
      \<lparr>cnf_id = 2, cnf_ip = 0xC0A70A03, cnf_core_id = 2\<rparr>, \<lparr>cnf_id = 3, cnf_ip = 0xC0A70A04, cnf_core_id = 3\<rparr>,
      \<lparr>cnf_id = 4, cnf_ip = 0xC0A70A05, cnf_core_id = 4\<rparr>]"
  by (simp add: port_config_def RTE_IPV4_def)

lemma set_port_configs_eq:
  assumes "length (kni_cnf m) = KNI_KTHREAD"
  shows "set_port_configs m = m\<lparr>kni_cnf := map port_config [0, 1, 2, 3, 4]\<rparr>"
proof -
  from assms obtain a b c d e where "kni_cnf m = [a, b, c, d, e]"
    by (auto simp: KNI_KTHREAD_def eval_nat_numeral length_Suc_conv)
  then show ?thesis by (simp add: set_port_configs_def ports_upt numeral_3_eq_3 eval_nat_numeral)
qed

text \<open>The routing table that \<^verbatim>\<open>read_config\<close> leaves, entry by entry.\<close>

definition configured_route :: "(u16 \<Rightarrow> u16) \<Rightarrow> u16 \<Rightarrow> u16" where
  "configured_route old a =
     (if 0x0A01 \<le> a \<and> a \<le> 0x0A05 then a - 0x0A01 else if a < 5 then 0xFFFF else old a)"

lemma five_cases: "(a :: u16) < 5 \<longleftrightarrow> a = 0 \<or> a = 1 \<or> a = 2 \<or> a = 3 \<or> a = 4"
proof -
  have "a < 5 \<longleftrightarrow> unat a < 5" by (simp add: word_less_nat_alt)
  also have "\<dots> \<longleftrightarrow> unat a = 0 \<or> unat a = 1 \<or> unat a = 2 \<or> unat a = 3 \<or> unat a = 4" by arith
  finally show ?thesis by (simp add: word_unat_eq_iff)
qed

lemma port_cases:
  "0x0A01 \<le> a \<and> a \<le> 0x0A05 \<longleftrightarrow>
     (a :: u16) = 0x0A01 \<or> a = 0x0A02 \<or> a = 0x0A03 \<or> a = 0x0A04 \<or> a = 0x0A05"
proof -
  have "0x0A01 \<le> a \<and> a \<le> 0x0A05 \<longleftrightarrow> 0x0A01 \<le> unat a \<and> unat a \<le> 0x0A05"
    by (simp add: word_le_nat_alt)
  also have "\<dots> \<longleftrightarrow> unat a = 0x0A01 \<or> unat a = 0x0A02 \<or> unat a = 0x0A03 \<or> unat a = 0x0A04 \<or>
      unat a = 0x0A05" by arith
  finally show ?thesis by (simp add: word_unat_eq_iff)
qed

lemma set_routes_eq:
  assumes "nb_active_kni m = 5" and "kni_cnf m = map port_config [0, 1, 2, 3, 4]"
    and "routing_table m = old(0 := 0xFFFF, 1 := 0xFFFF, 2 := 0xFFFF, 3 := 0xFFFF, 4 := 0xFFFF)"
  shows "set_port_routes m = m\<lparr>routing_table := configured_route old\<rparr>"
proof -
  have "[0..<unat (5 :: u16)] = [0, 1, 2, 3, 4]" by (simp add: upt_rec)
  then have "set_port_routes m = m\<lparr>routing_table :=
    (routing_table m)(0x0A01 := 0, 0x0A02 := 1, 0x0A03 := 2, 0x0A04 := 3, 0x0A05 := 4)\<rparr>"
    using assms(1,2) unfolding set_port_routes_def
    by (simp add: port_config_def RTE_IPV4_def del: upt_conv_Cons)
  moreover have "(routing_table m)(0x0A01 := 0, 0x0A02 := 1, 0x0A03 := 2, 0x0A04 := 3, 0x0A05 := 4) =
    configured_route old"
    by (auto simp: assms(3) configured_route_def fun_eq_iff five_cases port_cases)
  ultimately show ?thesis by simp
qed

lemma set_default_routes_eq:
  "set_default_routes m = m\<lparr>routing_table :=
     (routing_table m)(0 := 0xFFFF, 1 := 0xFFFF, 2 := 0xFFFF, 3 := 0xFFFF, 4 := 0xFFFF)\<rparr>"
  by (simp add: set_default_routes_def ports_upt)

definition with_rings :: "('r, 'k, 'l) dpdk \<Rightarrow> 'r coprocessor_mgr \<Rightarrow> nat \<Rightarrow> 'r coprocessor_mgr" where
  "with_rings D c i =
     c\<lparr>rx_q := rte_ring_create D (get_rx_queue_name i), tx_q := rte_ring_create D (get_tx_queue_name i)\<rparr>"

lemma create_rings_eq:
  assumes "length cs = KNI_KTHREAD"
  shows "create_rings D cs = map2 (with_rings D) cs [0, 1, 2, 3, 4]"
proof -
  from assms obtain a b c d e where "cs = [a, b, c, d, e]"
    by (auto simp: KNI_KTHREAD_def eval_nat_numeral length_Suc_conv)
  then show ?thesis
    by (simp add: create_rings_def with_rings_def ports_upt numeral_3_eq_3 eval_nat_numeral)
qed

lemma read_config_eq:
  assumes "length (kni_cnf (tx_mgr s)) = KNI_KTHREAD"
  shows "read_config D s =
    (0, s\<lparr>tx_mgr := (tx_mgr s)\<lparr>nb_active_kni := 5, kni_cnf := map port_config [0, 1, 2, 3, 4],
             routing_table := configured_route (routing_table (tx_mgr s))\<rparr>,
           nf := create_rings D (nf s)\<rparr>)"
proof -
  let ?m = "(tx_mgr s)\<lparr>nb_active_kni := 5, kni_cnf := map port_config [0, 1, 2, 3, 4],
    routing_table := (routing_table (tx_mgr s))(0 := 0xFFFF, 1 := 0xFFFF, 2 := 0xFFFF, 3 := 0xFFFF, 4 := 0xFFFF)\<rparr>"
  have "(set_port_configs (set_default_routes (tx_mgr s)))\<lparr>nb_active_kni := word_of_nat KNI_KTHREAD\<rparr> = ?m"
    using assms by (simp add: set_port_configs_eq set_default_routes_eq KNI_KTHREAD_def)
  moreover have "set_port_routes ?m = ?m\<lparr>routing_table := configured_route (routing_table (tx_mgr s))\<rparr>"
    by (rule set_routes_eq) simp_all
  ultimately show ?thesis by (simp add: read_config_def Let_def)
qed

lemma configured_route_ok:
  "configured_route (\<lambda>_. 0) a < 5 \<or> ucast (configured_route (\<lambda>_. 0) a) = UNKNOWN_PORT"
proof (cases "0x0A01 \<le> a \<and> a \<le> 0x0A05")
  case True
  then have "configured_route (\<lambda>_. 0) a = a - 0x0A01" by (simp add: configured_route_def)
  with True show ?thesis by (auto simp: port_cases)
qed (auto simp: configured_route_def UNKNOWN_PORT_def)

text \<open>
  If the pool, the buffers and the rings can be allocated, \<^verbatim>\<open>init\<close> returns 0 and, together
  with any five allocated interfaces, the engine is well-formed, holds no packet and has released
  none.
\<close>

lemma init_ok:
  fixes D :: "('r, 'k, 'l) dpdk"
  assumes "rte_pktmbuf_pool_create D" and "rte_calloc D"
    and "\<forall>i \<in> {0, 1, 2, 3, 4}. rte_ring_create D (get_rx_queue_name i) \<noteq> None \<and>
           rte_ring_create D (get_tx_queue_name i) \<noteq> None"
  shows "\<exists>s. init D engine0 = Ok (0, s) \<and> length (kni_list s) = KNI_KTHREAD \<and>
    (\<forall>ks. length ks = KNI_KTHREAD \<longrightarrow> list_all (\<lambda>k. k \<noteq> None) ks \<longrightarrow> engine_ok (s\<lparr>kni_list := ks\<rparr>)) \<and>
    list_all (\<lambda>b. staged b = []) (mgr_bufs (tx_mgr s)) \<and>
    list_all (\<lambda>c. staged (nf_rx c) = [] \<and> staged (nf_tx c) = []) (nf s) \<and>
    list_all (\<lambda>c. \<exists>a b. rx_q c = rte_ring_create D a \<and> tx_q c = rte_ring_create D b) (nf s) \<and> freed s = []"
proof -
  let ?tx = "Live (replicate KNI_KTHREAD packet_buf0)"
  let ?e = "engine0 :: ('r, 'k, 'l) engine"
  let ?s = "?e\<lparr>pktmbuf_pool := True, tx_mgr := (tx_mgr ?e)\<lparr>mgr_tx := ?tx\<rparr>\<rparr>"
  have len: "length (kni_cnf (tx_mgr ?s)) = KNI_KTHREAD" by (simp add: engine0_def)
  have "length (nf ?s) = KNI_KTHREAD" by (simp add: engine0_def)
  then have nf: "nf (snd (read_config D ?s)) = map2 (with_rings D) (nf ?s) [0, 1, 2, 3, 4]"
    by (simp add: read_config_eq [OF len] create_rings_eq)
  from assms(1,2) have init: "init D engine0 = Ok (0, snd (read_config D ?s))"
    by (simp add: init_def Let_def read_config_eq [OF len])
  have empty: "staged packet_buf0 = []" "buf_ok packet_buf0"
    by (simp_all add: packet_buf0_def staged_def buf_ok_def PKT_BURST_SZ_def)
  have nf0: "nf ?s = replicate 5 \<lparr>rx_q = None, tx_q = None, nf_rx = packet_buf0, nf_tx = packet_buf0\<rparr>"
    by (simp add: engine0_def KNI_KTHREAD_def)
  define r where "r = snd (read_config D ?s)"
  have tx: "mgr_tx (tx_mgr r) = ?tx" "nb_active_kni (tx_mgr r) = 5"
    "routing_table (tx_mgr r) = configured_route (\<lambda>_. 0)"
    and stats: "length (kni_stats r) = KNI_KTHREAD" "length (nf_stats r) = KNI_KTHREAD" "freed r = []"
    unfolding r_def by (simp_all add: read_config_eq [OF len]) (simp_all add: engine0_def)
  have nfok: "list_all nf_ok (nf r)" "length (nf r) = KNI_KTHREAD"
    "list_all (\<lambda>c. staged (nf_rx c) = [] \<and> staged (nf_tx c) = []) (nf r)"
    "list_all (\<lambda>c. \<exists>a b. rx_q c = rte_ring_create D a \<and> tx_q c = rte_ring_create D b) (nf r)"
    using assms(3) unfolding r_def nf nf0
    by (auto simp: with_rings_def nf_ok_def empty KNI_KTHREAD_def eval_nat_numeral)
  have "mgr_ok (tx_mgr r)" "routes_ok (tx_mgr r)"
    using configured_route_ok
    by (simp_all add: mgr_ok_def routes_ok_def tx list_all_length empty KNI_KTHREAD_def)
  with nfok stats have "engine_ok (r\<lparr>kni_list := ks\<rparr>)"
    if "length ks = KNI_KTHREAD" "list_all (\<lambda>k. k \<noteq> None) ks" for ks
    using that by (simp add: engine_ok_def)
  moreover have "length (kni_list r) = KNI_KTHREAD"
    unfolding r_def by (simp add: read_config_eq [OF len]) (simp add: engine0_def)
  ultimately show ?thesis using init nfok(3,4) stats(3)
    by (intro exI [of _ r]) (simp add: r_def [symmetric] mgr_bufs_Live [OF tx(1)] list_all_length empty)
qed

section \<open>Properties\<close>

text \<open>
  C22: \<^verbatim>\<open>read_config\<close> leaves exactly this routing table: entries \<open>0x0A01\<close> to \<open>0x0A05\<close>
  (the low 16 bits of 192.167.10.1 to 192.167.10.5) hold ports 0 to 4, entries 0 to 4 hold
  \<open>0xFFFF\<close>, and every other entry keeps what it had.
\<close>

theorem read_config_routes:
  assumes "length (kni_cnf (tx_mgr s)) = KNI_KTHREAD"
  shows "routing_table (tx_mgr (snd (read_config D s))) =
    (\<lambda>a. if 0x0A01 \<le> a \<and> a \<le> 0x0A05 then a - 0x0A01
         else if a < 5 then 0xFFFF else routing_table (tx_mgr s) a)"
  using read_config_eq [OF assms, of D] by (simp add: configured_route_def fun_eq_iff)

theorem read_config_routes_witness:
  "routing_table (tx_mgr (snd (read_config list_dpdk engine0))) 0x0A03 = 2"
  using read_config_routes [of engine0 list_dpdk] by (simp add: engine0_def)

end
