(* ===== verification/Switch.thy ===== *)
theory Switch
  imports Coprocessor Init
begin

text \<open>
  The packet switch, \<^verbatim>\<open>engine/switch.c\<close>: the routing decision, the three kinds of staging
  buffers (towards a port, towards a coprocessor, from a coprocessor) with their enqueue and flush
  operations, one round of the fast path, one round of a coprocessor, and the statistics table.
  The indices of the loops are 16-bit in the source and bounded by the number of ports, 5.  The
  build option \<^verbatim>\<open>DISABLE_NF\<close> is the argument \<open>disable_nf\<close>.
\<close>

section \<open>Routing\<close>

definition get_next_hop :: "('r, 'k, 'l) engine \<Rightarrow> rte_mbuf \<Rightarrow> u32 res" where
  "get_next_hop s pkt =
     rbind (rd16_be pkt 12) (\<lambda>ether_type.
       if ether_type \<noteq> 0x0800 then Ok UNKNOWN_PORT
       else rbind (rd32_be pkt (ether_hdr_len + 16)) (\<lambda>ip_dst.
         let kni_id = routing_table (tx_mgr s) (ucast (ip_dst AND 0xFFFF))
         in Ok (ucast kni_id)))"

section \<open>Flushing\<close>

text \<open>
  The packets that were not accepted are released; the bulk operation reads \<^verbatim>\<open>count\<close> descriptors
  of the buffer, which has 32.
\<close>

definition release_unsent :: "u16 \<Rightarrow> packet_buf \<Rightarrow> rte_mbuf list \<Rightarrow> rte_mbuf list" where
  "release_unsent sent b fr =
     (if sent < pb_count b then fr @ drop (unat sent) (staged b) else fr)"

definition flush_port_queue ::
  "('r, 'k, 'l) dpdk \<Rightarrow> u32 \<Rightarrow> ('r, 'k, 'l) engine \<Rightarrow> ('r, 'k, 'l) engine res" where
  "flush_port_queue D kni_idx s =
     (if ucast (nb_active_kni (tx_mgr s)) \<le> kni_idx then Ok s
      else
        rbind (access (mgr_tx (tx_mgr s))) (\<lambda>bufs.
        rbind (idx bufs (unat kni_idx)) (\<lambda>port_buf.
        if pb_count port_buf = 0 then Ok s
        else if PKT_BURST_SZ < unat (pb_count port_buf) then Err OutOfBounds
        else
          rbind (idx (kni_list s) (unat kni_idx)) (\<lambda>kni_ptr.
          rbind (deref kni_ptr) (\<lambda>kni.
          rbind (idx (kni_stats s) (unat kni_idx)) (\<lambda>st.
            let (n, kni') = rte_kni_tx_burst D kni (staged port_buf);
                sent = (ucast n :: u16);
                st' = st\<lparr>k_tx_packets := k_tx_packets st + ucast sent,
                         k_tx_dropped := k_tx_dropped st + (ucast (pb_count port_buf) - ucast sent)\<rparr>
            in Ok (s\<lparr>kni_list := (kni_list s)[unat kni_idx := Some kni'],
                     freed := release_unsent sent port_buf (freed s),
                     kni_stats := (kni_stats s)[unat kni_idx := st'],
                     tx_mgr := (tx_mgr s)\<lparr>mgr_tx :=
                       Live (bufs[unat kni_idx := port_buf\<lparr>pb_count := 0\<rparr>])\<rparr>\<rparr>)))))))"

definition flush_nf_rx_queue ::
  "('r, 'k, 'l) dpdk \<Rightarrow> u32 \<Rightarrow> ('r, 'k, 'l) engine \<Rightarrow> ('r, 'k, 'l) engine res" where
  "flush_nf_rx_queue D coproc_idx s =
     (if ucast (nb_active_kni (tx_mgr s)) \<le> coproc_idx then Ok s
      else
        rbind (idx (nf s) (unat coproc_idx)) (\<lambda>c.
        if pb_count (nf_rx c) = 0 then Ok s
        else if PKT_BURST_SZ < unat (pb_count (nf_rx c)) then Err OutOfBounds
        else
          rbind (deref (rx_q c)) (\<lambda>ring.
          rbind (idx (nf_stats s) (unat coproc_idx)) (\<lambda>st.
            let (n, ring') = rte_ring_enqueue_bulk D ring (staged (nf_rx c));
                sent = (ucast n :: u16);
                st' = st\<lparr>c_rx_packets := c_rx_packets st + ucast sent,
                         c_rx_dropped := c_rx_dropped st + (ucast (pb_count (nf_rx c)) - ucast sent)\<rparr>
            in Ok (s\<lparr>nf := (nf s)[unat coproc_idx :=
                       c\<lparr>rx_q := Some ring', nf_rx := (nf_rx c)\<lparr>pb_count := 0\<rparr>\<rparr>],
                     freed := release_unsent sent (nf_rx c) (freed s),
                     nf_stats := (nf_stats s)[unat coproc_idx := st']\<rparr>)))))"

definition flush_nf_tx_queue ::
  "('r, 'k, 'l) dpdk \<Rightarrow> u32 \<Rightarrow> ('r, 'k, 'l) engine \<Rightarrow> ('r, 'k, 'l) engine res" where
  "flush_nf_tx_queue D coproc_idx s =
     (if ucast (nb_active_kni (tx_mgr s)) \<le> coproc_idx then Ok s
      else
        rbind (idx (nf s) (unat coproc_idx)) (\<lambda>c.
        if pb_count (nf_tx c) = 0 then Ok s
        else if PKT_BURST_SZ < unat (pb_count (nf_tx c)) then Err OutOfBounds
        else
          rbind (deref (tx_q c)) (\<lambda>ring.
          rbind (idx (nf_stats s) (unat coproc_idx)) (\<lambda>st.
            let (n, ring') = rte_ring_enqueue_bulk D ring (staged (nf_tx c));
                sent = (ucast n :: u16);
                st' = st\<lparr>c_tx_packets := c_tx_packets st + ucast sent,
                         c_tx_dropped := c_tx_dropped st + (ucast (pb_count (nf_tx c)) - ucast sent)\<rparr>
            in Ok (s\<lparr>nf := (nf s)[unat coproc_idx :=
                       c\<lparr>tx_q := Some ring', nf_tx := (nf_tx c)\<lparr>pb_count := 0\<rparr>\<rparr>],
                     freed := release_unsent sent (nf_tx c) (freed s),
                     nf_stats := (nf_stats s)[unat coproc_idx := st']\<rparr>)))))"

section \<open>Enqueueing\<close>

text \<open>\<^verbatim>\<open>buf->buffer[buf->count++] = pkt\<close>\<close>

definition buf_push :: "rte_mbuf \<Rightarrow> packet_buf \<Rightarrow> packet_buf res" where
  "buf_push pkt b =
     (if length (pb_buffer b) \<le> unat (pb_count b) then Err OutOfBounds
      else Ok \<lparr>pb_buffer = (pb_buffer b)[unat (pb_count b) := pkt], pb_count = pb_count b + 1\<rparr>)"

definition enqueue_port ::
  "('r, 'k, 'l) dpdk \<Rightarrow> rte_mbuf \<Rightarrow> u32 \<Rightarrow> ('r, 'k, 'l) engine \<Rightarrow> ('r, 'k, 'l) engine res" where
  "enqueue_port D pkt kni_port_index s =
     (if ucast (nb_active_kni (tx_mgr s)) \<le> kni_port_index then Ok s
      else
        rbind (access (mgr_tx (tx_mgr s))) (\<lambda>bufs.
        rbind (idx bufs (unat kni_port_index)) (\<lambda>port_buf.
        rbind (buf_push pkt port_buf) (\<lambda>port_buf'.
          let s' = s\<lparr>tx_mgr := (tx_mgr s)\<lparr>mgr_tx := Live (bufs[unat kni_port_index := port_buf'])\<rparr>\<rparr>
          in if unat (pb_count port_buf') = PKT_BURST_SZ
             then flush_port_queue D kni_port_index s' else Ok s'))))"

definition enqueue_nf_rx ::
  "('r, 'k, 'l) dpdk \<Rightarrow> rte_mbuf \<Rightarrow> u32 \<Rightarrow> ('r, 'k, 'l) engine \<Rightarrow> ('r, 'k, 'l) engine res" where
  "enqueue_nf_rx D pkt coprocessor_index s =
     (if ucast (nb_active_kni (tx_mgr s)) \<le> coprocessor_index then Ok s
      else
        rbind (idx (nf s) (unat coprocessor_index)) (\<lambda>c.
        rbind (buf_push pkt (nf_rx c)) (\<lambda>nf_buf'.
          let s' = s\<lparr>nf := (nf s)[unat coprocessor_index := c\<lparr>nf_rx := nf_buf'\<rparr>]\<rparr>
          in if unat (pb_count nf_buf') = PKT_BURST_SZ
             then flush_nf_rx_queue D coprocessor_index s' else Ok s')))"

definition enqueue_nf_tx ::
  "('r, 'k, 'l) dpdk \<Rightarrow> rte_mbuf \<Rightarrow> u32 \<Rightarrow> ('r, 'k, 'l) engine \<Rightarrow> ('r, 'k, 'l) engine res" where
  "enqueue_nf_tx D pkt coprocessor_index s =
     (if ucast (nb_active_kni (tx_mgr s)) \<le> coprocessor_index then Ok s
      else
        rbind (idx (nf s) (unat coprocessor_index)) (\<lambda>c.
        rbind (buf_push pkt (nf_tx c)) (\<lambda>nf_buf'.
          let s' = s\<lparr>nf := (nf s)[unat coprocessor_index := c\<lparr>nf_tx := nf_buf'\<rparr>]\<rparr>
          in if unat (pb_count nf_buf') = PKT_BURST_SZ
             then flush_nf_tx_queue D coprocessor_index s' else Ok s')))"

definition flush_all ::
  "('r, 'k, 'l) dpdk \<Rightarrow> u32 \<Rightarrow> u32 \<Rightarrow> ('r, 'k, 'l) engine \<Rightarrow> ('r, 'k, 'l) engine res" where
  "flush_all D nb_kni nb_coproc s =
     rbind (rfold (\<lambda>i. flush_port_queue D (word_of_nat i)) [0..<unat nb_kni] s)
       (rfold (\<lambda>i. flush_nf_rx_queue D (word_of_nat i)) [0..<unat nb_coproc])"

section \<open>The fast path\<close>

text \<open>What the inner loop does with one packet received from port \<open>i\<close>.\<close>

definition forward_packet ::
  "('r, 'k, 'l) dpdk \<Rightarrow> bool \<Rightarrow> nat \<Rightarrow> rte_mbuf \<Rightarrow> ('r, 'k, 'l) engine \<Rightarrow> ('r, 'k, 'l) engine res" where
  "forward_packet D disable_nf i pkt s =
     rbind (get_next_hop s pkt) (\<lambda>kni_egress_port.
       if kni_egress_port = UNKNOWN_PORT
       then rbind (idx (kni_stats s) i) (\<lambda>st.
              Ok (s\<lparr>freed := freed s @ [pkt],
                    kni_stats := (kni_stats s)[i := st\<lparr>k_parse_err := k_parse_err st + 1\<rparr>]\<rparr>))
       else if disable_nf then enqueue_port D pkt kni_egress_port s
       else enqueue_nf_rx D pkt kni_egress_port s)"

text \<open>One turn of the loop over the ports.\<close>

definition fastpath_port ::
  "('r, 'k, 'l) dpdk \<Rightarrow> bool \<Rightarrow> nat \<Rightarrow> ('r, 'k, 'l) engine \<Rightarrow> ('r, 'k, 'l) engine res" where
  "fastpath_port D disable_nf i s =
     rbind (idx (kni_list s) i) (\<lambda>kni_ptr.
     rbind (deref kni_ptr) (\<lambda>kni.
     rbind (idx (kni_stats s) i) (\<lambda>st.
       let (pkts, kni') = rte_kni_rx_burst D kni (word_of_nat PKT_BURST_SZ);
           s1 = s\<lparr>kni_list := (kni_list s)[i := Some kni'],
                  kni_stats := (kni_stats s)[i := st\<lparr>k_rx_packets := k_rx_packets st + word_of_nat (length pkts)\<rparr>]\<rparr>
       in rbind (rfold (forward_packet D disable_nf i) pkts s1) (\<lambda>s2.
          rbind (idx (kni_list s2) i) (\<lambda>kni_ptr2.
          rbind (deref kni_ptr2) (\<lambda>kni2.
            Ok (s2\<lparr>kni_list := (kni_list s2)[i := Some (rte_kni_handle_request D kni2)]\<rparr>)))))))"

text \<open>One turn of the loop over the coprocessors.\<close>

definition fastpath_coproc ::
  "('r, 'k, 'l) dpdk \<Rightarrow> nat \<Rightarrow> ('r, 'k, 'l) engine \<Rightarrow> ('r, 'k, 'l) engine res" where
  "fastpath_coproc D i s =
     rbind (idx (nf s) i) (\<lambda>c.
     rbind (deref (tx_q c)) (\<lambda>ring.
       let (pkts, ring') = rte_ring_dequeue_burst D ring (word_of_nat PKT_BURST_SZ);
           s1 = s\<lparr>nf := (nf s)[i := c\<lparr>tx_q := Some ring'\<rparr>]\<rparr>
       in rfold (\<lambda>p. enqueue_port D p (word_of_nat i)) pkts s1))"

definition fastpath ::
  "('r, 'k, 'l) dpdk \<Rightarrow> bool \<Rightarrow> u32 \<Rightarrow> u32 \<Rightarrow> ('r, 'k, 'l) engine \<Rightarrow> ('r, 'k, 'l) engine res" where
  "fastpath D disable_nf nb_kni nb_coproc s =
     rbind (rfold (fastpath_port D disable_nf) [0..<unat nb_kni] s) (\<lambda>s1.
     rbind (flush_all D nb_kni nb_coproc s1) (\<lambda>s2.
       if disable_nf then Ok s2
       else rbind (rfold (fastpath_coproc D) [0..<unat nb_coproc] s2) (flush_all D nb_kni nb_coproc)))"

section \<open>A coprocessor\<close>

text \<open>What the loop does with one packet of the burst.\<close>

definition coprocess_packet ::
  "('r, 'k, 'l) dpdk \<Rightarrow> nat \<Rightarrow> rte_mbuf \<Rightarrow> ('r, 'k, 'l) engine \<Rightarrow> ('r, 'k, 'l) engine res" where
  "coprocess_packet D lcore_id pkt s =
     rbind (process_packet D pkt (fw s)) (\<lambda>(ret, fw').
       let s' = s\<lparr>fw := fw'\<rparr>
       in if ret = 0 then enqueue_nf_tx D pkt (word_of_nat lcore_id) s'
          else Ok (s'\<lparr>freed := freed s' @ [pkt]\<rparr>))"

definition coprocessor ::
  "('r, 'k, 'l) dpdk \<Rightarrow> nat \<Rightarrow> ('r, 'k, 'l) engine \<Rightarrow> ('r, 'k, 'l) engine res" where
  "coprocessor D lcore_id s =
     rbind (idx (nf s) lcore_id) (\<lambda>c.
     rbind (deref (rx_q c)) (\<lambda>ring.
       let (pkts, ring') = rte_ring_dequeue_burst D ring (word_of_nat PKT_BURST_SZ);
           s1 = s\<lparr>nf := (nf s)[lcore_id := c\<lparr>rx_q := Some ring'\<rparr>]\<rparr>
       in rbind (rfold (coprocess_packet D lcore_id) pkts s1)
            (flush_nf_tx_queue D (word_of_nat lcore_id))))"

section \<open>Statistics\<close>

text \<open>The rows that are printed, and the counters set back to 0.\<close>

definition print_stats ::
  "('r, 'k, 'l) engine \<Rightarrow> kni_interface_stats list \<times> coprocessor_stats list \<times> ('r, 'k, 'l) engine" where
  "print_stats s =
     (take KNI_KTHREAD (kni_stats s), take KNI_KTHREAD (nf_stats s),
      s\<lparr>kni_stats := replicate KNI_KTHREAD kni_stats0 @ drop KNI_KTHREAD (kni_stats s),
        nf_stats := replicate KNI_KTHREAD nf_stats0 @ drop KNI_KTHREAD (nf_stats s)\<rparr>)"

end
