(* ===== verification/Staging.thy ===== *)
theory Staging
  imports Prelude
begin

text \<open>
  The contract that the three kinds of staging buffers of the switch share, as a locale: packets
  are appended to a small buffer (\<open>stage\<close>), a flush hands a prefix of it to the target
  (\<open>sink\<close>) and releases the others (\<open>lost\<close>), and enqueueing flushes a buffer that became
  full.  \<open>rest\<close> is what the operations leave alone.  From these laws, bursts of packets are
  shown to be accounted for completely and to reach the target in their order; \<open>Switch_Facts\<close>
  interprets the locale for the port queues and both coprocessor queues.  \<open>accepting_staging\<close>
  extends it by a target that refuses nothing, where a burst arrives complete.
\<close>

locale staging =
  fixes okst :: "'s \<Rightarrow> bool"
    and stage :: "'s \<Rightarrow> 'p list"
    and sink :: "'s \<Rightarrow> 'p list"
    and lost :: "'s \<Rightarrow> 'p list"
    and rest :: "'s \<Rightarrow> 'o"
    and enq :: "'p \<Rightarrow> 's \<Rightarrow> 's res"
    and flush :: "'s \<Rightarrow> 's res"
  assumes flush_law: "okst s \<Longrightarrow>
      okp (\<lambda>t. okst t \<and> rest t = rest s \<and> stage t = [] \<and>
        (\<exists>n. sink t = sink s @ take n (stage s) \<and> lost t = lost s @ drop n (stage s))) (flush s)"
    and enq_law: "okst s \<Longrightarrow>
      okp (\<lambda>t. okst t \<and> rest t = rest s \<and>
        (stage t = stage s @ [p] \<and> sink t = sink s \<and> lost t = lost s \<or>
         stage t = [] \<and> (\<exists>n. sink t = sink s @ take n (stage s @ [p]) \<and>
                             lost t = lost s @ drop n (stage s @ [p])))) (enq p s)"
begin

lemma flush_accounted:
  assumes "okst s"
  shows "okp (\<lambda>t. okst t \<and> rest t = rest s \<and> stage t = [] \<and>
    mset (sink t) + mset (stage t) + mset (lost t) =
      mset (sink s) + mset (stage s) + mset (lost s) \<and>
    prefix (sink t) (sink s @ stage s)) (flush s)"
  using flush_law [OF assms]
proof (rule okp_mono)
  fix t
  assume "okst t \<and> rest t = rest s \<and> stage t = [] \<and>
    (\<exists>n. sink t = sink s @ take n (stage s) \<and> lost t = lost s @ drop n (stage s))"
  then obtain n where t: "okst t" "rest t = rest s" "stage t = []"
    "sink t = sink s @ take n (stage s)" "lost t = lost s @ drop n (stage s)" by blast
  have "mset (sink t) + mset (stage t) + mset (lost t) =
      mset (sink s) + (mset (take n (stage s)) + mset (drop n (stage s))) + mset (lost s)"
    using t by (simp add: ac_simps)
  then show "okst t \<and> rest t = rest s \<and> stage t = [] \<and>
    mset (sink t) + mset (stage t) + mset (lost t) =
      mset (sink s) + mset (stage s) + mset (lost s) \<and>
    prefix (sink t) (sink s @ stage s)"
    using t by (simp add: mset_take_drop take_is_prefix)
qed

lemma enq_accounted:
  assumes "okst s"
  shows "okp (\<lambda>t. okst t \<and> rest t = rest s \<and>
    mset (sink t) + mset (stage t) + mset (lost t) =
      mset (sink s) + mset (stage s) + mset (lost s) + {#p#} \<and>
    prefix (sink t @ stage t) (sink s @ stage s @ [p])) (enq p s)"
  using enq_law [OF assms, of p]
proof (rule okp_mono)
  fix t
  assume t: "okst t \<and> rest t = rest s \<and>
    (stage t = stage s @ [p] \<and> sink t = sink s \<and> lost t = lost s \<or>
     stage t = [] \<and> (\<exists>n. sink t = sink s @ take n (stage s @ [p]) \<and>
                         lost t = lost s @ drop n (stage s @ [p])))"
  let ?goal = "okst t \<and> rest t = rest s \<and>
    mset (sink t) + mset (stage t) + mset (lost t) =
      mset (sink s) + mset (stage s) + mset (lost s) + {#p#} \<and>
    prefix (sink t @ stage t) (sink s @ stage s @ [p])"
  from t consider (put) "stage t = stage s @ [p]" "sink t = sink s" "lost t = lost s"
    | (flushed) n where "stage t = []" "sink t = sink s @ take n (stage s @ [p])"
        "lost t = lost s @ drop n (stage s @ [p])" by blast
  then show ?goal
  proof cases
    case put
    with t show ?thesis by simp
  next
    case flushed
    have "mset (sink t) + mset (stage t) + mset (lost t) = mset (sink s) +
        (mset (take n (stage s @ [p])) + mset (drop n (stage s @ [p]))) + mset (lost s)"
      by (simp only: flushed mset_append mset.simps ac_simps) simp
    also have "\<dots> = mset (sink s) + mset (stage s) + mset (lost s) + {#p#}"
      by (simp only: mset_take_drop) (simp add: ac_simps)
    finally have "mset (sink t) + mset (stage t) + mset (lost t) =
      mset (sink s) + mset (stage s) + mset (lost s) + {#p#}" .
    moreover have "prefix (sink t @ stage t) (sink s @ stage s @ [p])"
      using take_is_prefix [of n "stage s @ [p]"]
      by (simp only: flushed(1,2) append_Nil2 same_prefix_prefix)
    ultimately show ?thesis using t by blast
  qed
qed

text \<open>A burst: nothing is lost from the account, and the order of the packets is kept.\<close>

lemma burst_accounted:
  assumes "okst s"
  shows "okp (\<lambda>t. okst t \<and> rest t = rest s \<and>
    mset (sink t) + mset (stage t) + mset (lost t) =
      mset (sink s) + mset (stage s) + mset (lost s) + mset ps \<and>
    subseq (sink t @ stage t) (sink s @ stage s @ ps)) (rfold enq ps s)"
proof (rule rfold_okp)
  show "okst s \<and> rest s = rest s \<and>
    mset (sink s) + mset (stage s) + mset (lost s) =
      mset (sink s) + mset (stage s) + mset (lost s) + mset [] \<and>
    subseq (sink s @ stage s) (sink s @ stage s @ [])"
    using assms by simp
next
  fix ys y zs t
  assume t: "okst t \<and> rest t = rest s \<and>
    mset (sink t) + mset (stage t) + mset (lost t) =
      mset (sink s) + mset (stage s) + mset (lost s) + mset ys \<and>
    subseq (sink t @ stage t) (sink s @ stage s @ ys)"
  then have sub: "subseq ((sink t @ stage t) @ [y]) ((sink s @ stage s @ ys) @ [y])"
    by (intro list_emb_append_mono [of _ "sink t @ stage t"]) blast+
  from enq_accounted [of t y] t
  show "okp (\<lambda>u. okst u \<and> rest u = rest s \<and>
    mset (sink u) + mset (stage u) + mset (lost u) =
      mset (sink s) + mset (stage s) + mset (lost s) + mset (ys @ [y]) \<and>
    subseq (sink u @ stage u) (sink s @ stage s @ ys @ [y])) (enq y t)"
    using sub by (auto elim!: okp_mono dest!: prefix_imp_subseq elim: subseq_order.trans)
qed

end

text \<open>A target that accepts everything: then a burst arrives complete.\<close>

locale accepting_staging = staging +
  assumes flush_keeps: "okst s \<Longrightarrow> okp (\<lambda>t. lost t = lost s) (flush s)"
    and enq_keeps: "okst s \<Longrightarrow> okp (\<lambda>t. lost t = lost s) (enq p s)"
begin

lemma flush_delivered:
  assumes "okst s"
  shows "okp (\<lambda>t. okst t \<and> lost t = lost s \<and> stage t = [] \<and> sink t = sink s @ stage s) (flush s)"
  using okp_conj [OF flush_law flush_keeps, OF assms assms] by (rule okp_mono) auto

lemma enq_delivered:
  assumes "okst s"
  shows "okp (\<lambda>t. okst t \<and> lost t = lost s \<and> sink t @ stage t = sink s @ stage s @ [p]) (enq p s)"
  using okp_conj [OF enq_law [OF assms, of p] enq_keeps [OF assms, of p]]
proof (rule okp_mono)
  fix t
  assume t: "(okst t \<and> rest t = rest s \<and>
        (stage t = stage s @ [p] \<and> sink t = sink s \<and> lost t = lost s \<or>
         stage t = [] \<and> (\<exists>n. sink t = sink s @ take n (stage s @ [p]) \<and>
                             lost t = lost s @ drop n (stage s @ [p])))) \<and> lost t = lost s"
  have "take n (stage s @ [p]) = stage s @ [p]" if "drop n (stage s @ [p]) = []" for n
    using that by (metis append_Nil2 append_take_drop_id)
  with t show "okst t \<and> lost t = lost s \<and> sink t @ stage t = sink s @ stage s @ [p]"
    by (metis append.assoc append_Nil2 append_self_conv)
qed

lemma burst_delivered:
  assumes "okst s"
  shows "okp (\<lambda>t. okst t \<and> lost t = lost s \<and> sink t @ stage t = sink s @ stage s @ ps) (rfold enq ps s)"
proof (rule rfold_okp)
  fix ys y zs t
  assume t: "okst t \<and> lost t = lost s \<and> sink t @ stage t = sink s @ stage s @ ys"
  with enq_delivered [of t y]
  show "okp (\<lambda>u. okst u \<and> lost u = lost s \<and> sink u @ stage u = sink s @ stage s @ ys @ [y]) (enq y t)"
    by (auto elim!: okp_mono)
qed (use assms in simp)

end

end
