(* ===== verification/Switch_Facts.thy ===== *)
theory Switch_Facts
  imports Switch Staging
begin

text \<open>
  The correctness of the switch: the queue operations satisfy the staging contract (three
  interpretations of the locale \<open>staging\<close>), and from it a round of the fast path and a round of
  a coprocessor never leave the arrays, keep the engine well-formed and account for every packet.
\<close>

section \<open>Indices and buffers\<close>

lemma unat_port [simp]: "i < KNI_KTHREAD \<Longrightarrow> unat (word_of_nat i :: u32) = i"
  by (rule unat_word_of_nat) (simp add: KNI_KTHREAD_def)

lemma port_active:
  assumes "nb_active_kni m = word_of_nat KNI_KTHREAD" and "i < KNI_KTHREAD"
  shows "\<not> ucast (nb_active_kni m) \<le> (word_of_nat i :: u32)"
  using assms by (simp add: word_le_nat_alt KNI_KTHREAD_def unsigned_ucast_eq)

lemma engine_okD:
  assumes "engine_ok s"
  shows "\<exists>bufs. mgr_tx (tx_mgr s) = Live bufs \<and> length bufs = KNI_KTHREAD \<and> list_all buf_ok bufs"
    and "nb_active_kni (tx_mgr s) = word_of_nat KNI_KTHREAD" and "routes_ok (tx_mgr s)"
    and "length (nf s) = KNI_KTHREAD" and "list_all nf_ok (nf s)"
    and "length (kni_list s) = KNI_KTHREAD" and "list_all (\<lambda>k. k \<noteq> None) (kni_list s)"
    and "length (kni_stats s) = KNI_KTHREAD" and "length (nf_stats s) = KNI_KTHREAD"
  using assms by (simp_all add: engine_ok_def mgr_ok_def)

lemma ucast_sent:
  assumes "unat (n :: u32) \<le> PKT_BURST_SZ"
  shows "unat (ucast n :: u16) = unat n"
  using assms by (simp add: unsigned_ucast_eq PKT_BURST_SZ_def take_bit_nat_eq_self)

lemma release_unsent_eq:
  assumes "unat n \<le> length (staged b)" and "unat (pb_count b) \<le> PKT_BURST_SZ"
    and "length (pb_buffer b) = PKT_BURST_SZ"
  shows "release_unsent (ucast (n :: u32)) b fr = fr @ drop (unat n) (staged b)"
proof -
  from assms have len: "length (staged b) = unat (pb_count b)" by (simp add: staged_def)
  with assms have n: "unat (ucast n :: u16) = unat n" by (intro ucast_sent) simp
  show ?thesis
  proof (cases "(ucast n :: u16) < pb_count b")
    case True
    then show ?thesis by (simp add: release_unsent_def n)
  next
    case False
    then have "length (staged b) \<le> unat n" using n len by (simp add: word_less_nat_alt)
    with False show ?thesis by (simp add: release_unsent_def)
  qed
qed

text \<open>Appending to a buffer that is not full.\<close>

lemma buf_push_ok:
  assumes "buf_ok b"
  shows "\<exists>b'. buf_push p b = Ok b' \<and> staged b' = staged b @ [p] \<and>
    length (pb_buffer b') = PKT_BURST_SZ \<and> unat (pb_count b') = Suc (unat (pb_count b))"
proof -
  let ?c = "unat (pb_count b)"
  from assms have c: "?c < PKT_BURST_SZ" "length (pb_buffer b) = PKT_BURST_SZ"
    by (simp_all add: buf_ok_def)
  then have suc: "unat (pb_count b + 1) = Suc ?c"
    by (simp add: unat_word_ariths PKT_BURST_SZ_def)
  let ?b = "\<lparr>pb_buffer = (pb_buffer b)[?c := p], pb_count = pb_count b + 1\<rparr>"
  from c have "buf_push p b = Ok ?b" by (simp add: buf_push_def)
  moreover have "staged ?b = staged b @ [p]"
    using c take_list_update_Suc [of ?c "pb_buffer b" p] by (simp add: staged_def suc)
  ultimately show ?thesis using c suc by (intro exI [of _ ?b]) simp
qed

lemma buf_ok_notfull:
  "length (pb_buffer b) = PKT_BURST_SZ \<Longrightarrow> unat (pb_count b) < PKT_BURST_SZ \<Longrightarrow> buf_ok b"
  by (simp add: buf_ok_def)

section \<open>The queue of a port\<close>

text \<open>What the queue of port \<open>i\<close> holds, what its interface accepted, and the rest of the state.\<close>

definition port_stage :: "nat \<Rightarrow> ('r, 'k, 'l) engine \<Rightarrow> rte_mbuf list" where
  "port_stage i s = staged (mgr_bufs (tx_mgr s) ! i)"

definition port_sink :: "('r, 'k) view \<Rightarrow> nat \<Rightarrow> ('r, 'k, 'l) engine \<Rightarrow> rte_mbuf list" where
  "port_sink V i s = (case kni_list s ! i of None \<Rightarrow> [] | Some k \<Rightarrow> kni_outbox V k)"

definition port_blank :: "nat \<Rightarrow> ('r, 'k, 'l) engine \<Rightarrow> ('r, 'k, 'l) engine" where
  "port_blank i s =
     s\<lparr>kni_list := (kni_list s)[i := None], kni_stats := [], freed := [],
       tx_mgr := (tx_mgr s)\<lparr>mgr_tx := Live ((mgr_bufs (tx_mgr s))[i := packet_buf0])\<rparr>\<rparr>"

definition switch_ok :: "('r, 'k, 'l) dpdk \<Rightarrow> ('r, 'k) view \<Rightarrow> nat \<Rightarrow> ('r, 'k, 'l) engine \<Rightarrow> bool" where
  "switch_ok D V i s \<longleftrightarrow> ring_spec D V \<and> kni_spec D V \<and> i < KNI_KTHREAD \<and> engine_ok s"

lemma engine_ok_set_buf:
  assumes "engine_ok s" and "mgr_tx (tx_mgr s) = Live bufs" and "buf_ok b"
  shows "engine_ok (s\<lparr>tx_mgr := (tx_mgr s)\<lparr>mgr_tx := Live (bufs[i := b])\<rparr>\<rparr>)"
  using assms by (auto simp: engine_ok_def mgr_ok_def routes_ok_def list_all_update)

lemma received_kni_update:
  assumes "i < length (kni_list s)" and "kni_list s ! i = Some k" and "kni_intake V k' = kni_intake V k"
  shows "received V (s\<lparr>kni_list := (kni_list s)[i := Some k']\<rparr>) = received V s"
proof -
  have "sum_list (map (kni_received V) ((kni_list s)[i := Some k'])) + kni_received V (kni_list s ! i) =
      sum_list (map (kni_received V) (kni_list s)) + kni_received V (Some k')"
    by (rule sum_list_update_add [OF assms(1)])
  with assms(2,3) show ?thesis by (simp add: received_def kni_received_def)
qed

lemma flush_port_gen:
  assumes kni: "kni_spec D V" and ok: "engine_ok s" and i: "i < KNI_KTHREAD"
    and bufs: "mgr_tx (tx_mgr s) = Live bufs"
    and b: "length (pb_buffer b) = PKT_BURST_SZ" "unat (pb_count b) \<le> PKT_BURST_SZ"
  shows "okp (\<lambda>t. engine_ok t \<and> (port_blank i t, received V t) = (port_blank i s, received V s) \<and>
      port_stage i t = [] \<and>
      (\<exists>n. port_sink V i t = port_sink V i s @ take n (staged b) \<and> freed t = freed s @ drop n (staged b)))
    (flush_port_queue D (word_of_nat i) (s\<lparr>tx_mgr := (tx_mgr s)\<lparr>mgr_tx := Live (bufs[i := b])\<rparr>\<rparr>))"
proof -
  note okD = engine_okD [OF ok]
  from okD(1) bufs have lb: "length bufs = KNI_KTHREAD" "list_all buf_ok bufs" by auto
  from okD(6,7) i obtain k where k: "kni_list s ! i = Some k"
    by (auto dest: list_all_nthD)
  have act: "\<not> ucast (nb_active_kni (tx_mgr s)) \<le> (word_of_nat i :: u32)"
    by (rule port_active [OF okD(2) i])
  show ?thesis
  proof (cases "pb_count b = 0")
    case True
    with b have bok: "buf_ok b" by (simp add: buf_ok_def PKT_BURST_SZ_def)
    from True have st: "staged b = []" by (simp add: staged_def)
    from engine_ok_set_buf [OF ok bufs bok, of i] act lb i bufs True st show ?thesis
      by (simp add: flush_port_queue_def port_blank_def port_stage_def port_sink_def received_def)
  next
    case False
    obtain n k' where tx: "rte_kni_tx_burst D k (staged b) = (n, k')" by fastforce
    note tx' = kni_tx [OF kni tx]
    have rel: "release_unsent (ucast n) b fr = fr @ drop (unat n) (staged b)" for fr
      by (rule release_unsent_eq [OF tx'(1) b(2,1)])
    have bok: "buf_ok (b\<lparr>pb_count := 0\<rparr>)" using b by (simp add: buf_ok_def PKT_BURST_SZ_def)
    let ?st = "(kni_stats s ! i)\<lparr>k_tx_packets := k_tx_packets (kni_stats s ! i) + ucast (ucast n :: u16),
        k_tx_dropped := k_tx_dropped (kni_stats s ! i) + (ucast (pb_count b) - ucast (ucast n :: u16))\<rparr>"
    let ?t = "s\<lparr>kni_list := (kni_list s)[i := Some k'], freed := freed s @ drop (unat n) (staged b),
        kni_stats := (kni_stats s)[i := ?st],
        tx_mgr := (tx_mgr s)\<lparr>mgr_tx := Live (bufs[i := b\<lparr>pb_count := 0\<rparr>])\<rparr>\<rparr>"
    have ok0: "engine_ok ?t"
      using ok bufs bok by (auto simp: engine_ok_def mgr_ok_def routes_ok_def list_all_update)
    have rec: "received V (s\<lparr>kni_list := (kni_list s)[i := Some k']\<rparr>) = received V s"
      by (rule received_kni_update [OF _ k tx'(3)]) (simp add: okD(6) i)
    from act lb i okD(6,8) k tx False b(2) have
      flush: "flush_port_queue D (word_of_nat i) (s\<lparr>tx_mgr := (tx_mgr s)\<lparr>mgr_tx := Live (bufs[i := b])\<rparr>\<rparr>) = Ok ?t"
      by (simp add: flush_port_queue_def rel Let_def)
    show ?thesis
      unfolding flush
      using ok0 rec lb i okD(6) k tx'(2) bufs
      by (auto simp: port_blank_def port_stage_def port_sink_def received_def)
  qed
qed

lemma flush_port_law:
  assumes "switch_ok D V i s"
  shows "okp (\<lambda>t. switch_ok D V i t \<and> (port_blank i t, received V t) = (port_blank i s, received V s) \<and>
      port_stage i t = [] \<and>
      (\<exists>n. port_sink V i t = port_sink V i s @ take n (port_stage i s) \<and>
           freed t = freed s @ drop n (port_stage i s)))
    (flush_port_queue D (word_of_nat i) s)"
proof -
  from assms have A: "ring_spec D V" "kni_spec D V" "i < KNI_KTHREAD" "engine_ok s"
    by (simp_all add: switch_ok_def)
  from engine_okD(1) [OF A(4)] obtain bufs where bufs: "mgr_tx (tx_mgr s) = Live bufs"
    "length bufs = KNI_KTHREAD" "list_all buf_ok bufs" by blast
  let ?b = "bufs ! i"
  from bufs A(3) have b: "buf_ok ?b" by (simp add: list_all_nthD)
  have s: "s\<lparr>tx_mgr := (tx_mgr s)\<lparr>mgr_tx := Live (bufs[i := ?b])\<rparr>\<rparr> = s"
    using bufs by simp
  from b have "length (pb_buffer ?b) = PKT_BURST_SZ" "unat (pb_count ?b) \<le> PKT_BURST_SZ"
    by (simp_all add: buf_ok_def)
  from flush_port_gen [OF A(2,4,3) bufs(1) this, unfolded s] show ?thesis
    using A bufs by (auto simp: switch_ok_def port_stage_def elim!: okp_mono)
qed

lemma enqueue_port_law:
  assumes "switch_ok D V i s"
  shows "okp (\<lambda>t. switch_ok D V i t \<and> (port_blank i t, received V t) = (port_blank i s, received V s) \<and>
      (port_stage i t = port_stage i s @ [p] \<and> port_sink V i t = port_sink V i s \<and> freed t = freed s \<or>
       port_stage i t = [] \<and>
        (\<exists>n. port_sink V i t = port_sink V i s @ take n (port_stage i s @ [p]) \<and>
             freed t = freed s @ drop n (port_stage i s @ [p]))))
    (enqueue_port D p (word_of_nat i) s)"
proof -
  from assms have A: "ring_spec D V" "kni_spec D V" "i < KNI_KTHREAD" "engine_ok s"
    by (simp_all add: switch_ok_def)
  note okD = engine_okD [OF A(4)]
  from okD(1) obtain bufs where bufs: "mgr_tx (tx_mgr s) = Live bufs"
    "length bufs = KNI_KTHREAD" "list_all buf_ok bufs" by blast
  from bufs A(3) have "buf_ok (bufs ! i)" by (simp add: list_all_nthD)
  with buf_push_ok obtain b' where push: "buf_push p (bufs ! i) = Ok b'"
    and st: "staged b' = staged (bufs ! i) @ [p]" "length (pb_buffer b') = PKT_BURST_SZ"
    and cnt: "unat (pb_count b') = Suc (unat (pb_count (bufs ! i)))" by blast
  let ?s' = "s\<lparr>tx_mgr := (tx_mgr s)\<lparr>mgr_tx := Live (bufs[i := b'])\<rparr>\<rparr>"
  have enq: "enqueue_port D p (word_of_nat i) s =
      (if unat (pb_count b') = PKT_BURST_SZ then flush_port_queue D (word_of_nat i) ?s' else Ok ?s')"
    using port_active [OF okD(2) A(3)] bufs A(3) push by (simp add: enqueue_port_def Let_def)
  show ?thesis
  proof (cases "unat (pb_count b') = PKT_BURST_SZ")
    case True
    with flush_port_gen [OF A(2,4,3) bufs(1) st(2)] show ?thesis
      unfolding enq using A bufs st(1)
      by (auto simp: switch_ok_def port_stage_def elim!: okp_mono)
  next
    case False
    with cnt \<open>buf_ok (bufs ! i)\<close> st(2) have "buf_ok b'"
      by (intro buf_ok_notfull) (auto simp: buf_ok_def)
    from engine_ok_set_buf [OF A(4) bufs(1) this] False show ?thesis
      unfolding enq using A bufs st(1)
      by (simp add: switch_ok_def port_stage_def port_sink_def port_blank_def received_def)
  qed
qed

interpretation port: staging "switch_ok D V i" "port_stage i" "port_sink V i" freed
  "\<lambda>s. (port_blank i s, received V s)" "\<lambda>p. enqueue_port D p (word_of_nat i)"
  "flush_port_queue D (word_of_nat i)"
  for D :: "('r, 'k, 'l) dpdk" and V i
  by unfold_locales (rule flush_port_law enqueue_port_law; assumption)+

text \<open>An interface that accepts every burst that a buffer can hold.\<close>

definition kni_accepts :: "('r, 'k, 'l) dpdk \<Rightarrow> bool" where
  "kni_accepts D \<longleftrightarrow>
     (\<forall>k ps. length ps \<le> PKT_BURST_SZ \<longrightarrow> unat (fst (rte_kni_tx_burst D k ps)) = length ps)"

lemma flush_port_keeps_gen:
  assumes "kni_accepts D" and "i < length bufs"
    and b: "length (pb_buffer b) = PKT_BURST_SZ" "unat (pb_count b) \<le> PKT_BURST_SZ"
    and "flush_port_queue D (word_of_nat i) (s\<lparr>tx_mgr := (tx_mgr s)\<lparr>mgr_tx := Live (bufs[i := b])\<rparr>\<rparr>) = Ok t"
    and "i < KNI_KTHREAD"
  shows "freed t = freed s"
proof -
  have rel: "release_unsent (ucast (fst (rte_kni_tx_burst D k (staged b)))) b fr = fr" for k fr
  proof -
    have "length (staged b) \<le> PKT_BURST_SZ" using b by (simp add: staged_def)
    with assms(1) have "unat (fst (rte_kni_tx_burst D k (staged b))) = length (staged b)"
      by (simp add: kni_accepts_def)
    with release_unsent_eq [OF _ b(2,1), of "fst (rte_kni_tx_burst D k (staged b))" fr] show ?thesis by simp
  qed
  from assms(6) have "unat (word_of_nat i :: u32) = i" by (simp add: unat_of_nat KNI_KTHREAD_def)
  with assms(2,5) rel show ?thesis
    by (auto simp: flush_port_queue_def rbind_eq_Ok case_prod_beta Let_def dest!: idx_OkD split: if_splits)
qed

lemma port_keeps:
  assumes "switch_ok D V i s" and "kni_accepts D"
  shows "okp (\<lambda>t. freed t = freed s) (flush_port_queue D (word_of_nat i) s)"
    and "okp (\<lambda>t. freed t = freed s) (enqueue_port D p (word_of_nat i) s)"
proof -
  from assms(1) have A: "i < KNI_KTHREAD" "engine_ok s" by (simp_all add: switch_ok_def)
  note okD = engine_okD [OF A(2)]
  from okD(1) obtain bufs where bufs: "mgr_tx (tx_mgr s) = Live bufs"
    "length bufs = KNI_KTHREAD" "list_all buf_ok bufs" by blast
  from bufs A(1) have b: "buf_ok (bufs ! i)" by (simp add: list_all_nthD)
  have s: "s\<lparr>tx_mgr := (tx_mgr s)\<lparr>mgr_tx := Live (bufs[i := bufs ! i])\<rparr>\<rparr> = s" using bufs by simp
  from flush_port_law [OF assms(1)] obtain t where t: "flush_port_queue D (word_of_nat i) s = Ok t"
    by (auto simp: okp_iff)
  from b t flush_port_keeps_gen [OF assms(2), of i bufs "bufs ! i" s t, unfolded s] A bufs
  show "okp (\<lambda>t. freed t = freed s) (flush_port_queue D (word_of_nat i) s)" by (simp add: buf_ok_def)
  from b buf_push_ok obtain b' where push: "buf_push p (bufs ! i) = Ok b'" "length (pb_buffer b') = PKT_BURST_SZ"
    and cnt: "unat (pb_count b') = Suc (unat (pb_count (bufs ! i)))" by blast
  from enqueue_port_law [OF assms(1)] obtain u where u: "enqueue_port D p (word_of_nat i) s = Ok u"
    by (auto simp: okp_iff)
  moreover have "enqueue_port D p (word_of_nat i) s =
      (let s' = s\<lparr>tx_mgr := (tx_mgr s)\<lparr>mgr_tx := Live (bufs[i := b'])\<rparr>\<rparr> in
       if unat (pb_count b') = PKT_BURST_SZ then flush_port_queue D (word_of_nat i) s' else Ok s')"
    using port_active [OF okD(2) A(1)] bufs A(1) push by (simp add: enqueue_port_def Let_def)
  moreover from b cnt have "unat (pb_count b') \<le> PKT_BURST_SZ" by (simp add: buf_ok_def)
  ultimately show "okp (\<lambda>t. freed t = freed s) (enqueue_port D p (word_of_nat i) s)"
    using flush_port_keeps_gen [OF assms(2), of i bufs b' s u] A bufs push(2) by (auto simp: Let_def split: if_splits)
qed

interpretation accepting_port: accepting_staging "\<lambda>s. switch_ok D V i s \<and> kni_accepts D" "port_stage i" "port_sink V i" freed
  "\<lambda>s. (port_blank i s, received V s)" "\<lambda>p. enqueue_port D p (word_of_nat i)"
  "flush_port_queue D (word_of_nat i)"
  for D :: "('r, 'k, 'l) dpdk" and V i
proof (unfold_locales, goal_cases)
  case (1 s)
  then show ?case by (intro okp_mono [OF flush_port_law [of D V i s]]) auto
next
  case (2 s p)
  then show ?case by (intro okp_mono [OF enqueue_port_law [of D V i s p]]) blast+
qed (blast intro: port_keeps)+

section \<open>The queue towards a coprocessor\<close>

definition nf_rx_stage :: "nat \<Rightarrow> ('r, 'k, 'l) engine \<Rightarrow> rte_mbuf list" where
  "nf_rx_stage i s = staged (nf_rx (nf s ! i))"

definition nf_rx_sink :: "('r, 'k) view \<Rightarrow> nat \<Rightarrow> ('r, 'k, 'l) engine \<Rightarrow> rte_mbuf list" where
  "nf_rx_sink V i s = ring_held V (rx_q (nf s ! i))"

definition nf_rx_blank :: "nat \<Rightarrow> ('r, 'k, 'l) engine \<Rightarrow> ('r, 'k, 'l) engine" where
  "nf_rx_blank i s =
     s\<lparr>nf := (nf s)[i := (nf s ! i)\<lparr>rx_q := None, nf_rx := packet_buf0\<rparr>], nf_stats := [], freed := []\<rparr>"

lemma flush_nf_rx_gen:
  assumes ring: "ring_spec D V" and ok: "engine_ok s" and i: "i < KNI_KTHREAD"
    and b: "length (pb_buffer b) = PKT_BURST_SZ" "unat (pb_count b) \<le> PKT_BURST_SZ"
  shows "okp (\<lambda>t. engine_ok t \<and> nf_rx_blank i t = nf_rx_blank i s \<and> nf_rx_stage i t = [] \<and>
      (\<exists>n. nf_rx_sink V i t = nf_rx_sink V i s @ take n (staged b) \<and> freed t = freed s @ drop n (staged b)))
    (flush_nf_rx_queue D (word_of_nat i) (s\<lparr>nf := (nf s)[i := (nf s ! i)\<lparr>nf_rx := b\<rparr>]\<rparr>))"
proof -
  note okD = engine_okD [OF ok]
  from okD(4,5) i have nfi: "nf_ok (nf s ! i)" by (simp add: list_all_nthD)
  then obtain q where q: "rx_q (nf s ! i) = Some q" by (auto simp: nf_ok_def)
  have act: "\<not> ucast (nb_active_kni (tx_mgr s)) \<le> (word_of_nat i :: u32)"
    by (rule port_active [OF okD(2) i])
  show ?thesis
  proof (cases "pb_count b = 0")
    case True
    with b nfi have "nf_ok ((nf s ! i)\<lparr>nf_rx := b\<rparr>)" by (simp add: nf_ok_def buf_ok_def PKT_BURST_SZ_def)
    with ok have "engine_ok (s\<lparr>nf := (nf s)[i := (nf s ! i)\<lparr>nf_rx := b\<rparr>]\<rparr>)"
      by (simp add: engine_ok_def list_all_update)
    moreover from True have "staged b = []" by (simp add: staged_def)
    ultimately show ?thesis using act okD(4) i True
      by (simp add: flush_nf_rx_queue_def nf_rx_blank_def nf_rx_stage_def nf_rx_sink_def)
  next
    case False
    obtain n q' where enq: "rte_ring_enqueue_bulk D q (staged b) = (n, q')" by fastforce
    from ring_enqueue_cases [OF ring enq] have n: "unat n \<le> length (staged b)"
      and q': "ring_items V q' = ring_items V q @ take (unat n) (staged b)" by (cases; simp)+
    have rel: "release_unsent (ucast n) b fr = fr @ drop (unat n) (staged b)" for fr
      by (rule release_unsent_eq [OF n b(2,1)])
    let ?c = "(nf s ! i)\<lparr>rx_q := Some q', nf_rx := b\<lparr>pb_count := 0\<rparr>\<rparr>"
    let ?st = "(nf_stats s ! i)\<lparr>c_rx_packets := c_rx_packets (nf_stats s ! i) + ucast (ucast n :: u16),
        c_rx_dropped := c_rx_dropped (nf_stats s ! i) + (ucast (pb_count b) - ucast (ucast n :: u16))\<rparr>"
    let ?t = "s\<lparr>nf := (nf s)[i := ?c], freed := freed s @ drop (unat n) (staged b),
        nf_stats := (nf_stats s)[i := ?st]\<rparr>"
    from b nfi have "nf_ok ?c" by (simp add: nf_ok_def buf_ok_def PKT_BURST_SZ_def)
    with ok have ok': "engine_ok ?t" by (simp add: engine_ok_def list_all_update)
    from act i okD(4,9) q enq False b(2) have
      flush: "flush_nf_rx_queue D (word_of_nat i) (s\<lparr>nf := (nf s)[i := (nf s ! i)\<lparr>nf_rx := b\<rparr>]\<rparr>) = Ok ?t"
      by (simp add: flush_nf_rx_queue_def rel Let_def)
    show ?thesis
      unfolding flush using ok' i okD(4) q q'
      by (auto simp: nf_rx_blank_def nf_rx_stage_def nf_rx_sink_def ring_held_def)
  qed
qed

lemma flush_nf_rx_law:
  assumes "switch_ok D V i s"
  shows "okp (\<lambda>t. switch_ok D V i t \<and> nf_rx_blank i t = nf_rx_blank i s \<and> nf_rx_stage i t = [] \<and>
      (\<exists>n. nf_rx_sink V i t = nf_rx_sink V i s @ take n (nf_rx_stage i s) \<and>
           freed t = freed s @ drop n (nf_rx_stage i s)))
    (flush_nf_rx_queue D (word_of_nat i) s)"
proof -
  from assms have A: "ring_spec D V" "kni_spec D V" "i < KNI_KTHREAD" "engine_ok s"
    by (simp_all add: switch_ok_def)
  from engine_okD(4,5) [OF A(4)] A(3) have "nf_ok (nf s ! i)" by (simp add: list_all_nthD)
  then have "length (pb_buffer (nf_rx (nf s ! i))) = PKT_BURST_SZ" "unat (pb_count (nf_rx (nf s ! i))) \<le> PKT_BURST_SZ"
    by (simp_all add: nf_ok_def buf_ok_def)
  from flush_nf_rx_gen [OF A(1,4,3) this] show ?thesis
    using A by (auto simp: switch_ok_def nf_rx_stage_def elim!: okp_mono)
qed

lemma enqueue_nf_rx_law:
  assumes "switch_ok D V i s"
  shows "okp (\<lambda>t. switch_ok D V i t \<and> nf_rx_blank i t = nf_rx_blank i s \<and>
      (nf_rx_stage i t = nf_rx_stage i s @ [p] \<and> nf_rx_sink V i t = nf_rx_sink V i s \<and> freed t = freed s \<or>
       nf_rx_stage i t = [] \<and>
        (\<exists>n. nf_rx_sink V i t = nf_rx_sink V i s @ take n (nf_rx_stage i s @ [p]) \<and>
             freed t = freed s @ drop n (nf_rx_stage i s @ [p]))))
    (enqueue_nf_rx D p (word_of_nat i) s)"
proof -
  from assms have A: "ring_spec D V" "kni_spec D V" "i < KNI_KTHREAD" "engine_ok s"
    by (simp_all add: switch_ok_def)
  note okD = engine_okD [OF A(4)]
  from okD(4,5) A(3) have nfi: "nf_ok (nf s ! i)" by (simp add: list_all_nthD)
  then have bok: "buf_ok (nf_rx (nf s ! i))" by (simp add: nf_ok_def)
  with buf_push_ok obtain b' where push: "buf_push p (nf_rx (nf s ! i)) = Ok b'"
    and st: "staged b' = staged (nf_rx (nf s ! i)) @ [p]" "length (pb_buffer b') = PKT_BURST_SZ"
    and cnt: "unat (pb_count b') = Suc (unat (pb_count (nf_rx (nf s ! i))))" by blast
  let ?s' = "s\<lparr>nf := (nf s)[i := (nf s ! i)\<lparr>nf_rx := b'\<rparr>]\<rparr>"
  have enq: "enqueue_nf_rx D p (word_of_nat i) s =
      (if unat (pb_count b') = PKT_BURST_SZ then flush_nf_rx_queue D (word_of_nat i) ?s' else Ok ?s')"
    using port_active [OF okD(2) A(3)] okD(4) A(3) push by (simp add: enqueue_nf_rx_def Let_def)
  show ?thesis
  proof (cases "unat (pb_count b') = PKT_BURST_SZ")
    case True
    with flush_nf_rx_gen [OF A(1,4,3) st(2)] show ?thesis
      unfolding enq using A st(1)
      by (auto simp: switch_ok_def nf_rx_stage_def elim!: okp_mono)
  next
    case False
    with cnt bok st(2) have "buf_ok b'" by (intro buf_ok_notfull) (auto simp: buf_ok_def)
    with nfi A(4) have "engine_ok ?s'" by (simp add: engine_ok_def nf_ok_def list_all_update)
    with False show ?thesis
      unfolding enq using A okD(4) st(1)
      by (simp add: switch_ok_def nf_rx_stage_def nf_rx_sink_def nf_rx_blank_def)
  qed
qed

interpretation nf_rx_queue: staging "switch_ok D V i" "nf_rx_stage i" "nf_rx_sink V i" freed
  "nf_rx_blank i" "\<lambda>p. enqueue_nf_rx D p (word_of_nat i)" "flush_nf_rx_queue D (word_of_nat i)"
  for D :: "('r, 'k, 'l) dpdk" and V i
  by unfold_locales (rule flush_nf_rx_law enqueue_nf_rx_law; assumption)+

section \<open>The queue from a coprocessor\<close>

definition nf_tx_stage :: "nat \<Rightarrow> ('r, 'k, 'l) engine \<Rightarrow> rte_mbuf list" where
  "nf_tx_stage i s = staged (nf_tx (nf s ! i))"

definition nf_tx_sink :: "('r, 'k) view \<Rightarrow> nat \<Rightarrow> ('r, 'k, 'l) engine \<Rightarrow> rte_mbuf list" where
  "nf_tx_sink V i s = ring_held V (tx_q (nf s ! i))"

definition nf_tx_blank :: "nat \<Rightarrow> ('r, 'k, 'l) engine \<Rightarrow> ('r, 'k, 'l) engine" where
  "nf_tx_blank i s =
     s\<lparr>nf := (nf s)[i := (nf s ! i)\<lparr>tx_q := None, nf_tx := packet_buf0\<rparr>], nf_stats := [], freed := []\<rparr>"

lemma flush_nf_tx_gen:
  assumes ring: "ring_spec D V" and ok: "engine_ok s" and i: "i < KNI_KTHREAD"
    and b: "length (pb_buffer b) = PKT_BURST_SZ" "unat (pb_count b) \<le> PKT_BURST_SZ"
  shows "okp (\<lambda>t. engine_ok t \<and> nf_tx_blank i t = nf_tx_blank i s \<and> nf_tx_stage i t = [] \<and>
      (\<exists>n. nf_tx_sink V i t = nf_tx_sink V i s @ take n (staged b) \<and> freed t = freed s @ drop n (staged b)))
    (flush_nf_tx_queue D (word_of_nat i) (s\<lparr>nf := (nf s)[i := (nf s ! i)\<lparr>nf_tx := b\<rparr>]\<rparr>))"
proof -
  note okD = engine_okD [OF ok]
  from okD(4,5) i have nfi: "nf_ok (nf s ! i)" by (simp add: list_all_nthD)
  then obtain q where q: "tx_q (nf s ! i) = Some q" by (auto simp: nf_ok_def)
  have act: "\<not> ucast (nb_active_kni (tx_mgr s)) \<le> (word_of_nat i :: u32)"
    by (rule port_active [OF okD(2) i])
  show ?thesis
  proof (cases "pb_count b = 0")
    case True
    with b nfi have "nf_ok ((nf s ! i)\<lparr>nf_tx := b\<rparr>)" by (simp add: nf_ok_def buf_ok_def PKT_BURST_SZ_def)
    with ok have "engine_ok (s\<lparr>nf := (nf s)[i := (nf s ! i)\<lparr>nf_tx := b\<rparr>]\<rparr>)"
      by (simp add: engine_ok_def list_all_update)
    moreover from True have "staged b = []" by (simp add: staged_def)
    ultimately show ?thesis using act okD(4) i True
      by (simp add: flush_nf_tx_queue_def nf_tx_blank_def nf_tx_stage_def nf_tx_sink_def)
  next
    case False
    obtain n q' where enq: "rte_ring_enqueue_bulk D q (staged b) = (n, q')" by fastforce
    from ring_enqueue_cases [OF ring enq] have n: "unat n \<le> length (staged b)"
      and q': "ring_items V q' = ring_items V q @ take (unat n) (staged b)" by (cases; simp)+
    have rel: "release_unsent (ucast n) b fr = fr @ drop (unat n) (staged b)" for fr
      by (rule release_unsent_eq [OF n b(2,1)])
    let ?c = "(nf s ! i)\<lparr>tx_q := Some q', nf_tx := b\<lparr>pb_count := 0\<rparr>\<rparr>"
    let ?st = "(nf_stats s ! i)\<lparr>c_tx_packets := c_tx_packets (nf_stats s ! i) + ucast (ucast n :: u16),
        c_tx_dropped := c_tx_dropped (nf_stats s ! i) + (ucast (pb_count b) - ucast (ucast n :: u16))\<rparr>"
    let ?t = "s\<lparr>nf := (nf s)[i := ?c], freed := freed s @ drop (unat n) (staged b),
        nf_stats := (nf_stats s)[i := ?st]\<rparr>"
    from b nfi have "nf_ok ?c" by (simp add: nf_ok_def buf_ok_def PKT_BURST_SZ_def)
    with ok have ok': "engine_ok ?t" by (simp add: engine_ok_def list_all_update)
    from act i okD(4,9) q enq False b(2) have
      flush: "flush_nf_tx_queue D (word_of_nat i) (s\<lparr>nf := (nf s)[i := (nf s ! i)\<lparr>nf_tx := b\<rparr>]\<rparr>) = Ok ?t"
      by (simp add: flush_nf_tx_queue_def rel Let_def)
    show ?thesis
      unfolding flush using ok' i okD(4) q q'
      by (auto simp: nf_tx_blank_def nf_tx_stage_def nf_tx_sink_def ring_held_def)
  qed
qed

lemma flush_nf_tx_law:
  assumes "switch_ok D V i s"
  shows "okp (\<lambda>t. switch_ok D V i t \<and> nf_tx_blank i t = nf_tx_blank i s \<and> nf_tx_stage i t = [] \<and>
      (\<exists>n. nf_tx_sink V i t = nf_tx_sink V i s @ take n (nf_tx_stage i s) \<and>
           freed t = freed s @ drop n (nf_tx_stage i s)))
    (flush_nf_tx_queue D (word_of_nat i) s)"
proof -
  from assms have A: "ring_spec D V" "kni_spec D V" "i < KNI_KTHREAD" "engine_ok s"
    by (simp_all add: switch_ok_def)
  from engine_okD(4,5) [OF A(4)] A(3) have "nf_ok (nf s ! i)" by (simp add: list_all_nthD)
  then have "length (pb_buffer (nf_tx (nf s ! i))) = PKT_BURST_SZ" "unat (pb_count (nf_tx (nf s ! i))) \<le> PKT_BURST_SZ"
    by (simp_all add: nf_ok_def buf_ok_def)
  from flush_nf_tx_gen [OF A(1,4,3) this] show ?thesis
    using A by (auto simp: switch_ok_def nf_tx_stage_def elim!: okp_mono)
qed

lemma enqueue_nf_tx_law:
  assumes "switch_ok D V i s"
  shows "okp (\<lambda>t. switch_ok D V i t \<and> nf_tx_blank i t = nf_tx_blank i s \<and>
      (nf_tx_stage i t = nf_tx_stage i s @ [p] \<and> nf_tx_sink V i t = nf_tx_sink V i s \<and> freed t = freed s \<or>
       nf_tx_stage i t = [] \<and>
        (\<exists>n. nf_tx_sink V i t = nf_tx_sink V i s @ take n (nf_tx_stage i s @ [p]) \<and>
             freed t = freed s @ drop n (nf_tx_stage i s @ [p]))))
    (enqueue_nf_tx D p (word_of_nat i) s)"
proof -
  from assms have A: "ring_spec D V" "kni_spec D V" "i < KNI_KTHREAD" "engine_ok s"
    by (simp_all add: switch_ok_def)
  note okD = engine_okD [OF A(4)]
  from okD(4,5) A(3) have nfi: "nf_ok (nf s ! i)" by (simp add: list_all_nthD)
  then have bok: "buf_ok (nf_tx (nf s ! i))" by (simp add: nf_ok_def)
  with buf_push_ok obtain b' where push: "buf_push p (nf_tx (nf s ! i)) = Ok b'"
    and st: "staged b' = staged (nf_tx (nf s ! i)) @ [p]" "length (pb_buffer b') = PKT_BURST_SZ"
    and cnt: "unat (pb_count b') = Suc (unat (pb_count (nf_tx (nf s ! i))))" by blast
  let ?s' = "s\<lparr>nf := (nf s)[i := (nf s ! i)\<lparr>nf_tx := b'\<rparr>]\<rparr>"
  have enq: "enqueue_nf_tx D p (word_of_nat i) s =
      (if unat (pb_count b') = PKT_BURST_SZ then flush_nf_tx_queue D (word_of_nat i) ?s' else Ok ?s')"
    using port_active [OF okD(2) A(3)] okD(4) A(3) push by (simp add: enqueue_nf_tx_def Let_def)
  show ?thesis
  proof (cases "unat (pb_count b') = PKT_BURST_SZ")
    case True
    with flush_nf_tx_gen [OF A(1,4,3) st(2)] show ?thesis
      unfolding enq using A st(1)
      by (auto simp: switch_ok_def nf_tx_stage_def elim!: okp_mono)
  next
    case False
    with cnt bok st(2) have "buf_ok b'" by (intro buf_ok_notfull) (auto simp: buf_ok_def)
    with nfi A(4) have "engine_ok ?s'" by (simp add: engine_ok_def nf_ok_def list_all_update)
    with False show ?thesis
      unfolding enq using A okD(4) st(1)
      by (simp add: switch_ok_def nf_tx_stage_def nf_tx_sink_def nf_tx_blank_def)
  qed
qed

interpretation nf_tx_queue: staging "switch_ok D V i" "nf_tx_stage i" "nf_tx_sink V i" freed
  "nf_tx_blank i" "\<lambda>p. enqueue_nf_tx D p (word_of_nat i)" "flush_nf_tx_queue D (word_of_nat i)"
  for D :: "('r, 'k, 'l) dpdk" and V i
  by unfold_locales (rule flush_nf_tx_law enqueue_nf_tx_law; assumption)+

end
