(* ===== verification/Switch_Rounds.thy ===== *)
theory Switch_Rounds
  imports Switch_Facts
begin

text \<open>
  Whole rounds of the switch.  \<open>absorbs V M s t\<close> is what every operation of the switch
  establishes between the state before and the state after: the engine stays well-formed, the
  packets it accounts for grow by exactly \<open>M\<close>, the interfaces received nothing, only packets
  with the IPv4 Ethernet type are queued towards a coprocessor, and the tables and the stop flag
  are left alone.  The lemmas of the locale \<open>staging\<close> give it for each queue operation; the
  rounds follow by composing it along the loops.
\<close>

section \<open>What an operation does to the account\<close>

definition ipv4_typed :: "rte_mbuf \<Rightarrow> bool" where
  "ipv4_typed p \<longleftrightarrow> hdr_bytes \<le> length (m_data p) \<and> rd16_be p 12 = Ok 0x0800"

definition towards_nf :: "('r, 'k) view \<Rightarrow> 'r coprocessor_mgr \<Rightarrow> rte_mbuf set" where
  "towards_nf V c = set (staged (nf_rx c)) \<union> set (ring_held V (rx_q c))"

definition nf_clean :: "('r, 'k) view \<Rightarrow> ('r, 'k, 'l) engine \<Rightarrow> bool" where
  "nf_clean V s \<longleftrightarrow> (\<forall>i < length (nf s). \<forall>p \<in> towards_nf V (nf s ! i). ipv4_typed p)"

definition absorbs ::
  "('r, 'k) view \<Rightarrow> rte_mbuf multiset \<Rightarrow> ('r, 'k, 'l) engine \<Rightarrow> ('r, 'k, 'l) engine \<Rightarrow> bool" where
  "absorbs V M s t \<longleftrightarrow>
     engine_ok t \<and> balance V t = balance V s + M \<and> received V t = received V s \<and>
     (nf_clean V s \<longrightarrow> nf_clean V t) \<and>
     lpm_tbl (fw t) = lpm_tbl (fw s) \<and> rules (fw t) = rules (fw s) \<and> kni_stop t = kni_stop s \<and>
     routing_table (tx_mgr t) = routing_table (tx_mgr s)"

lemma absorbs_refl: "engine_ok s \<Longrightarrow> absorbs V {#} s s"
  by (simp add: absorbs_def)

lemma absorbs_trans: "absorbs V M s t \<Longrightarrow> absorbs V N t u \<Longrightarrow> absorbs V (M + N) s u"
  by (auto simp: absorbs_def ac_simps)

lemma absorbs_ok: "absorbs V M s t \<Longrightarrow> engine_ok t"
  by (simp add: absorbs_def)

text \<open>A loop absorbs the sum of what its turns absorb.\<close>

lemma rfold_absorbs:
  assumes "engine_ok s"
    and "\<And>x t. x \<in> set xs \<Longrightarrow> engine_ok t \<Longrightarrow> routing_table (tx_mgr t) = routing_table (tx_mgr s) \<Longrightarrow>
      lpm_tbl (fw t) = lpm_tbl (fw s) \<Longrightarrow> okp (absorbs V (M x) t) (f x t)"
  shows "okp (absorbs V (sum_list (map M xs)) s) (rfold f xs s)"
proof (rule rfold_okp [where P = "\<lambda>ys. absorbs V (sum_list (map M ys)) s"])
  show "absorbs V (sum_list (map M [])) s s" using assms(1) by (simp add: absorbs_refl)
next
  fix ys y zs t
  assume xs: "xs = ys @ y # zs" and t: "absorbs V (sum_list (map M ys)) s t"
  from t have "okp (absorbs V (M y) t) (f y t)"
    by (intro assms(2)) (auto simp: xs absorbs_def)
  with t show "okp (absorbs V (sum_list (map M (ys @ [y]))) s) (f y t)"
    by (auto elim!: okp_mono dest: absorbs_trans)
qed

lemma absorbs_loop_nothing:
  assumes "engine_ok s" and "\<And>x t. x \<in> set xs \<Longrightarrow> engine_ok t \<Longrightarrow> okp (absorbs V {#} t) (f x t)"
  shows "okp (absorbs V {#} s) (rfold f xs s)"
proof -
  have "okp (absorbs V (sum_list (map (\<lambda>_. {#}) xs)) s) (rfold f xs s)"
    by (rule rfold_absorbs) (use assms in auto)
  moreover have "sum_list (map (\<lambda>_. {#}) xs) = ({#} :: rte_mbuf multiset)" by (induction xs) auto
  ultimately show ?thesis by simp
qed

lemma absorbs_loop_packets:
  assumes "engine_ok s"
    and "\<And>p t. p \<in> set ps \<Longrightarrow> engine_ok t \<Longrightarrow> lpm_tbl (fw t) = lpm_tbl (fw s) \<Longrightarrow>
      okp (absorbs V {#p#} t) (f p t)"
  shows "okp (absorbs V (mset ps) s) (rfold f ps s)"
proof -
  have "okp (absorbs V (sum_list (map (\<lambda>p. {#p#}) ps)) s) (rfold f ps s)"
    by (rule rfold_absorbs) (use assms in auto)
  moreover have "sum_list (map (\<lambda>p. {#p#}) ps) = mset ps" by (induction ps) auto
  ultimately show ?thesis by simp
qed

section \<open>The account of one queue\<close>

lemma port_balance:
  assumes "engine_ok s" and "i < KNI_KTHREAD"
  shows "balance V s = balance V (port_blank i s) +
    (mset (port_sink V i s) + mset (port_stage i s) + mset (freed s))"
proof -
  from engine_okD(1) [OF assms(1)] obtain bufs where bufs: "mgr_tx (tx_mgr s) = Live bufs"
    "length bufs = KNI_KTHREAD" by blast
  have empty: "staged packet_buf0 = []" by (simp add: staged_def packet_buf0_def)
  have sum_b: "sum_list (map (mset \<circ> staged) bufs) =
      sum_list (map (mset \<circ> staged) (bufs[i := packet_buf0])) + mset (port_stage i s)"
    using sum_list_update_add [of i bufs "mset \<circ> staged" packet_buf0]
    by (simp add: bufs assms empty port_stage_def)
  have "kni_sent V (kni_list s ! i) = mset (port_sink V i s)"
    by (simp add: kni_sent_def port_sink_def split: option.splits)
  then have sum_k: "sum_list (map (kni_sent V) (kni_list s)) =
      sum_list (map (kni_sent V) ((kni_list s)[i := None])) + mset (port_sink V i s)"
    using sum_list_update_add [of i "kni_list s" "kni_sent V" None]
    by (simp add: engine_okD(6) [OF assms(1)] assms(2)) (simp add: kni_sent_def)
  show ?thesis
    by (simp add: account_defs port_blank_def bufs sum_b sum_k ac_simps)
qed

lemma nf_rx_balance:
  assumes "engine_ok s" and "i < KNI_KTHREAD"
  shows "balance V s = balance V (nf_rx_blank i s) +
    (mset (nf_rx_sink V i s) + mset (nf_rx_stage i s) + mset (freed s))"
proof -
  let ?c = "nf s ! i" and ?c' = "(nf s ! i)\<lparr>rx_q := None, nf_rx := packet_buf0\<rparr>"
  have "sum_list (map (nf_held V) ((nf s)[i := ?c'])) + nf_held V ?c =
      sum_list (map (nf_held V) (nf s)) + nf_held V ?c'"
    by (rule sum_list_update_add) (simp add: engine_okD(4) [OF assms(1)] assms(2))
  moreover have "nf_held V ?c = nf_held V ?c' + mset (nf_rx_sink V i s) + mset (nf_rx_stage i s)"
    by (simp add: nf_held_def nf_rx_sink_def nf_rx_stage_def ring_held_def staged_def packet_buf0_def)
  ultimately show ?thesis
    by (simp add: account_defs nf_rx_blank_def ac_simps)
qed

lemma nf_tx_balance:
  assumes "engine_ok s" and "i < KNI_KTHREAD"
  shows "balance V s = balance V (nf_tx_blank i s) +
    (mset (nf_tx_sink V i s) + mset (nf_tx_stage i s) + mset (freed s))"
proof -
  let ?c = "nf s ! i" and ?c' = "(nf s ! i)\<lparr>tx_q := None, nf_tx := packet_buf0\<rparr>"
  have "sum_list (map (nf_held V) ((nf s)[i := ?c'])) + nf_held V ?c =
      sum_list (map (nf_held V) (nf s)) + nf_held V ?c'"
    by (rule sum_list_update_add) (simp add: engine_okD(4) [OF assms(1)] assms(2))
  moreover have "nf_held V ?c = nf_held V ?c' + mset (nf_tx_sink V i s) + mset (nf_tx_stage i s)"
    by (simp add: nf_held_def nf_tx_sink_def nf_tx_stage_def ring_held_def staged_def packet_buf0_def)
  ultimately show ?thesis
    by (simp add: account_defs nf_tx_blank_def ac_simps)
qed

section \<open>The queue operations\<close>

text \<open>What is left alone is read off the part of the state that the staging contract keeps.\<close>

lemma port_rest:
  assumes "port_blank i t = port_blank i s"
  shows "nf t = nf s" and "fw t = fw s" and "kni_stop t = kni_stop s"
    and "routing_table (tx_mgr t) = routing_table (tx_mgr s)"
  using arg_cong [OF assms, of nf] arg_cong [OF assms, of fw] arg_cong [OF assms, of kni_stop]
    arg_cong [OF assms, of "\<lambda>s. routing_table (tx_mgr s)"]
  by (simp_all add: port_blank_def)

lemma port_others:
  assumes "port_blank i t = port_blank i s" and "j \<noteq> i"
  shows "port_sink V j t = port_sink V j s" and "port_stage j t = port_stage j s"
proof -
  from arg_cong [OF assms(1), of "\<lambda>s. kni_list s ! j"] assms(2)
  show "port_sink V j t = port_sink V j s" by (simp add: port_blank_def port_sink_def)
  from arg_cong [OF assms(1), of "\<lambda>s. mgr_bufs (tx_mgr s) ! j"] assms(2)
  show "port_stage j t = port_stage j s" by (simp add: port_blank_def port_stage_def)
qed

lemma nf_rx_rest:
  assumes "nf_rx_blank i t = nf_rx_blank i s"
  shows "fw t = fw s" and "kni_stop t = kni_stop s" and "tx_mgr t = tx_mgr s"
    and "kni_list t = kni_list s" and "j \<noteq> i \<Longrightarrow> nf t ! j = nf s ! j" and "length (nf t) = length (nf s)"
proof -
  from assms have nf: "(nf t)[i := (nf t ! i)\<lparr>rx_q := None, nf_rx := packet_buf0\<rparr>] =
      (nf s)[i := (nf s ! i)\<lparr>rx_q := None, nf_rx := packet_buf0\<rparr>]"
    by (auto simp: nf_rx_blank_def dest: arg_cong [of _ _ nf])
  from arg_cong [OF nf, of length] show "length (nf t) = length (nf s)" by simp
  from arg_cong [OF nf, of "\<lambda>xs. xs ! j"] show "j \<noteq> i \<Longrightarrow> nf t ! j = nf s ! j" by simp
qed (use arg_cong [OF assms, of fw] arg_cong [OF assms, of kni_stop] arg_cong [OF assms, of tx_mgr]
      arg_cong [OF assms, of kni_list] in \<open>simp_all add: nf_rx_blank_def\<close>)

lemma nf_tx_rest:
  assumes "nf_tx_blank i t = nf_tx_blank i s"
  shows "fw t = fw s" and "kni_stop t = kni_stop s" and "tx_mgr t = tx_mgr s"
    and "kni_list t = kni_list s" and "length (nf t) = length (nf s)"
    and "j < length (nf s) \<Longrightarrow> towards_nf V (nf t ! j) = towards_nf V (nf s ! j)"
proof -
  from assms have nf: "(nf t)[i := (nf t ! i)\<lparr>tx_q := None, nf_tx := packet_buf0\<rparr>] =
      (nf s)[i := (nf s ! i)\<lparr>tx_q := None, nf_tx := packet_buf0\<rparr>]"
    by (auto simp: nf_tx_blank_def dest: arg_cong [of _ _ nf])
  from arg_cong [OF nf, of length] show len: "length (nf t) = length (nf s)" by simp
  from arg_cong [OF nf, of "\<lambda>xs. towards_nf V (xs ! j)"] len
  show "j < length (nf s) \<Longrightarrow> towards_nf V (nf t ! j) = towards_nf V (nf s ! j)"
    by (cases "j = i") (simp_all add: towards_nf_def)
qed (use arg_cong [OF assms, of fw] arg_cong [OF assms, of kni_stop] arg_cong [OF assms, of tx_mgr]
      arg_cong [OF assms, of kni_list] in \<open>simp_all add: nf_tx_blank_def\<close>)

lemma flush_port_absorbs:
  assumes "switch_ok D V i s"
  shows "okp (absorbs V {#} s) (flush_port_queue D (word_of_nat i) s)"
  using port.flush_accounted [OF assms]
proof (rule okp_mono, elim conjE)
  fix t
  assume t: "switch_ok D V i t" "(port_blank i t, received V t) = (port_blank i s, received V s)"
    and m: "mset (port_sink V i t) + mset (port_stage i t) + mset (freed t) =
      mset (port_sink V i s) + mset (port_stage i s) + mset (freed s)"
  from t assms have ok: "engine_ok t" "engine_ok s" "i < KNI_KTHREAD" by (simp_all add: switch_ok_def)
  from t have blank: "port_blank i t = port_blank i s" by simp
  have "balance V t = balance V s"
    by (simp only: port_balance [OF ok(1,3)] port_balance [OF ok(2,3)] blank m)
  with t ok port_rest [OF blank] show "absorbs V {#} s t" by (simp add: absorbs_def nf_clean_def)
qed

lemma enqueue_port_absorbs:
  assumes "switch_ok D V i s"
  shows "okp (absorbs V {#p#} s) (enqueue_port D p (word_of_nat i) s)"
  using port.enq_accounted [OF assms, of p]
proof (rule okp_mono, elim conjE)
  fix t
  assume t: "switch_ok D V i t" "(port_blank i t, received V t) = (port_blank i s, received V s)"
    and m: "mset (port_sink V i t) + mset (port_stage i t) + mset (freed t) =
      mset (port_sink V i s) + mset (port_stage i s) + mset (freed s) + {#p#}"
  from t assms have ok: "engine_ok t" "engine_ok s" "i < KNI_KTHREAD" by (simp_all add: switch_ok_def)
  from t have blank: "port_blank i t = port_blank i s" by simp
  have "balance V t = balance V s + {#p#}"
    by (simp only: port_balance [OF ok(1,3)] port_balance [OF ok(2,3)] blank m) (simp only: ac_simps)
  with t ok port_rest [OF blank] show "absorbs V {#p#} s t" by (simp add: absorbs_def nf_clean_def)
qed

text \<open>The queue towards a coprocessor holds old packets and the new one.\<close>

lemma nf_rx_absorbs:
  assumes "switch_ok D V i s" and "switch_ok D V i t" and blank: "nf_rx_blank i t = nf_rx_blank i s"
    and m: "mset (nf_rx_sink V i t) + mset (nf_rx_stage i t) + mset (freed t) =
      mset (nf_rx_sink V i s) + mset (nf_rx_stage i s) + mset (freed s) + M"
    and sub: "set (nf_rx_sink V i t @ nf_rx_stage i t) \<subseteq> set (nf_rx_sink V i s @ nf_rx_stage i s) \<union> P"
    and "\<forall>p \<in> P. ipv4_typed p"
  shows "absorbs V M s t"
proof -
  from assms have ok: "engine_ok t" "engine_ok s" "i < KNI_KTHREAD" by (simp_all add: switch_ok_def)
  have "balance V t = balance V s + M"
    by (simp only: nf_rx_balance [OF ok(1,3)] nf_rx_balance [OF ok(2,3)] blank m) (simp only: ac_simps)
  moreover have "nf_clean V t" if "nf_clean V s"
    unfolding nf_clean_def
  proof (intro allI impI ballI)
    fix j p
    assume j: "j < length (nf t)" and p: "p \<in> towards_nf V (nf t ! j)"
    show "ipv4_typed p"
    proof (cases "j = i")
      case True
      with p sub have "p \<in> towards_nf V (nf s ! i) \<union> P"
        by (auto simp: towards_nf_def nf_rx_sink_def nf_rx_stage_def)
      with that assms(6) j True nf_rx_rest(6) [OF blank] show ?thesis by (auto simp: nf_clean_def)
    next
      case False
      with that p j nf_rx_rest(5,6) [OF blank] show ?thesis by (auto simp: nf_clean_def)
    qed
  qed
  ultimately show ?thesis
    using ok nf_rx_rest [OF blank] by (simp add: absorbs_def received_def)
qed

lemma flush_nf_rx_absorbs:
  assumes "switch_ok D V i s"
  shows "okp (absorbs V {#} s) (flush_nf_rx_queue D (word_of_nat i) s)"
  using nf_rx_queue.flush_accounted [OF assms]
  by (rule okp_mono) (auto intro!: nf_rx_absorbs [OF assms, where P = "{}"] dest!: set_mono_prefix)

lemma enqueue_nf_rx_absorbs:
  assumes "switch_ok D V i s" and "ipv4_typed p"
  shows "okp (absorbs V {#p#} s) (enqueue_nf_rx D p (word_of_nat i) s)"
  using nf_rx_queue.enq_accounted [OF assms(1), of p]
  by (rule okp_mono)
    (auto simp: assms(2) intro!: nf_rx_absorbs [OF assms(1), where P = "{p}"] dest!: set_mono_prefix)

lemma nf_tx_absorbs:
  assumes "switch_ok D V i s" and "switch_ok D V i t" and blank: "nf_tx_blank i t = nf_tx_blank i s"
    and m: "mset (nf_tx_sink V i t) + mset (nf_tx_stage i t) + mset (freed t) =
      mset (nf_tx_sink V i s) + mset (nf_tx_stage i s) + mset (freed s) + M"
  shows "absorbs V M s t"
proof -
  from assms have ok: "engine_ok t" "engine_ok s" "i < KNI_KTHREAD" by (simp_all add: switch_ok_def)
  have "balance V t = balance V s + M"
    by (simp only: nf_tx_balance [OF ok(1,3)] nf_tx_balance [OF ok(2,3)] blank m) (simp only: ac_simps)
  moreover have "nf_clean V t = nf_clean V s"
    by (simp add: nf_clean_def nf_tx_rest(5,6) [OF blank] cong: conj_cong)
  ultimately show ?thesis
    using ok nf_tx_rest(1-4) [OF blank] by (simp add: absorbs_def received_def)
qed

lemma flush_nf_tx_absorbs:
  assumes "switch_ok D V i s"
  shows "okp (absorbs V {#} s) (flush_nf_tx_queue D (word_of_nat i) s)"
  using nf_tx_queue.flush_accounted [OF assms]
  by (rule okp_mono) (auto intro!: nf_tx_absorbs [OF assms])

lemma enqueue_nf_tx_absorbs:
  assumes "switch_ok D V i s"
  shows "okp (absorbs V {#p#} s) (enqueue_nf_tx D p (word_of_nat i) s)"
  using nf_tx_queue.enq_accounted [OF assms, of p]
  by (rule okp_mono) (auto intro!: nf_tx_absorbs [OF assms])

section \<open>The fast path\<close>

lemma rd8_Ok: "i < length (m_data p) \<Longrightarrow> rd8 p i = Ok (m_data p ! i)"
  by (simp add: rd8_def)

lemma rd16_be_Ok: "i + 1 < length (m_data p) \<Longrightarrow> \<exists>v. rd16_be p i = Ok v"
  by (simp add: rd16_be_def rd8_def)

text \<open>The next hop is the unknown port, or an active port and then the packet is IPv4.\<close>

lemma get_next_hop_cases:
  assumes ok: "engine_ok s" and len: "hdr_bytes \<le> length (m_data p)"
  obtains "get_next_hop s p = Ok UNKNOWN_PORT"
  | i where "get_next_hop s p = Ok (word_of_nat i)" "i < KNI_KTHREAD"
      "word_of_nat i \<noteq> UNKNOWN_PORT" "ipv4_typed p"
proof -
  from len rd16_be_Ok [of 12 p] obtain ty where ty: "rd16_be p 12 = Ok ty" by (auto simp: hdr_bytes_def)
  from len rd32_be_Ok [of "ether_hdr_len + 16" p] obtain dst where
    dst: "rd32_be p (ether_hdr_len + 16) = Ok dst" by (auto simp: hdr_bytes_def ether_hdr_len_def)
  let ?r = "routing_table (tx_mgr s) (ucast (dst AND 0xFFFF))"
  show thesis
  proof (cases "ty = 0x0800")
    case False
    with ty show thesis by (intro that(1)) (simp add: get_next_hop_def)
  next
    case True
    have hop: "get_next_hop s p = Ok (ucast ?r)" by (simp add: get_next_hop_def ty True dst Let_def)
    show thesis
    proof (cases "ucast ?r = UNKNOWN_PORT")
      case True
      with hop show thesis by (intro that(1)) simp
    next
      case False
      with engine_okD(2,3) [OF ok] have "?r < word_of_nat KNI_KTHREAD" unfolding routes_ok_def by metis
      then have "unat ?r < KNI_KTHREAD" by (simp add: word_less_nat_alt KNI_KTHREAD_def)
      moreover have "ucast ?r = (word_of_nat (unat ?r) :: u32)" by simp
      ultimately show thesis
        using that(2) [of "unat ?r"] hop False ty \<open>ty = 0x0800\<close> len by (simp add: ipv4_typed_def)
    qed
  qed
qed

lemma forward_packet_absorbs:
  assumes specs: "ring_spec D V" "kni_spec D V" and ok: "engine_ok s" and i: "i < KNI_KTHREAD"
    and len: "hdr_bytes \<le> length (m_data p)"
  shows "okp (absorbs V {#p#} s) (forward_packet D disable_nf i p s)"
  using ok len
proof (cases rule: get_next_hop_cases)
  case 1
  let ?st = "(kni_stats s)[i := (kni_stats s ! i)\<lparr>k_parse_err := k_parse_err (kni_stats s ! i) + 1\<rparr>]"
  have "forward_packet D disable_nf i p s = Ok (s\<lparr>freed := freed s @ [p], kni_stats := ?st\<rparr>)"
    using engine_okD(8) [OF ok] i by (simp add: forward_packet_def 1)
  then show ?thesis
    using ok by (simp add: absorbs_def engine_ok_def account_defs nf_clean_def ac_simps)
next
  case (2 j)
  then have j: "switch_ok D V j s" using specs ok by (simp add: switch_ok_def)
  show ?thesis
    using 2 enqueue_port_absorbs [OF j, of p] enqueue_nf_rx_absorbs [OF j, of p]
    by (simp add: forward_packet_def)
qed

text \<open>Replacing an interface by one with the same observations, or one that received packets.\<close>

lemma set_kni:
  fixes st :: kni_interface_stats
  assumes ok: "engine_ok s" and i: "i < KNI_KTHREAD" and k: "kni_list s ! i = Some k"
    and out: "kni_outbox V k' = kni_outbox V k" and inb: "kni_intake V k' = kni_intake V k @ ps"
  defines "t \<equiv> s\<lparr>kni_list := (kni_list s)[i := Some k'], kni_stats := (kni_stats s)[i := st]\<rparr>"
  shows "engine_ok t \<and> balance V t = balance V s \<and> received V t = received V s + mset ps"
proof -
  have len: "i < length (kni_list s)" using engine_okD(6) [OF ok] i by simp
  have "sum_list (map (kni_received V) ((kni_list s)[i := Some k'])) + kni_received V (kni_list s ! i) =
      sum_list (map (kni_received V) (kni_list s)) + kni_received V (Some k')"
    by (rule sum_list_update_add [OF len])
  moreover have "sum_list (map (kni_sent V) ((kni_list s)[i := Some k'])) + kni_sent V (kni_list s ! i) =
      sum_list (map (kni_sent V) (kni_list s)) + kni_sent V (Some k')"
    by (rule sum_list_update_add [OF len])
  moreover have "engine_ok t" using ok by (simp add: t_def engine_ok_def list_all_update)
  ultimately show ?thesis
    using k by (auto simp: t_def account_defs kni_received_def kni_sent_def inb out)
qed

text \<open>
  A round may also receive packets; then the account grows by what was received.
\<close>

definition conserves ::
  "('r, 'k) view \<Rightarrow> ('r, 'k, 'l) engine \<Rightarrow> ('r, 'k, 'l) engine \<Rightarrow> bool" where
  "conserves V s t \<longleftrightarrow>
     engine_ok t \<and> balance V t + received V s = balance V s + received V t \<and>
     (nf_clean V s \<longrightarrow> nf_clean V t) \<and>
     lpm_tbl (fw t) = lpm_tbl (fw s) \<and> rules (fw t) = rules (fw s) \<and> kni_stop t = kni_stop s \<and>
     routing_table (tx_mgr t) = routing_table (tx_mgr s)"

lemma conserves_refl: "engine_ok s \<Longrightarrow> conserves V s s"
  by (simp add: conserves_def)

lemma conserves_trans:
  assumes "conserves V s t" and "conserves V t u"
  shows "conserves V s u"
proof -
  from assms have 1: "balance V t + received V s = balance V s + received V t"
    and 2: "balance V u + received V t = balance V t + received V u" by (simp_all add: conserves_def)
  have "(balance V u + received V s) + received V t = (balance V u + received V t) + received V s"
    by (simp only: ac_simps)
  also have "\<dots> = (balance V t + received V s) + received V u" unfolding 2 by (simp only: ac_simps)
  also have "\<dots> = (balance V s + received V u) + received V t" unfolding 1 by (simp only: ac_simps)
  finally have "balance V u + received V s = balance V s + received V u" by (rule add_right_imp_eq)
  with assms show ?thesis by (simp add: conserves_def)
qed

lemma absorbs_conserves: "absorbs V {#} s t \<Longrightarrow> conserves V s t"
  by (simp add: absorbs_def conserves_def)

lemma conserves_ok: "conserves V s t \<Longrightarrow> engine_ok t"
  by (simp add: conserves_def)

lemma conserves_step: "conserves V s t \<Longrightarrow> okp (conserves V t) m \<Longrightarrow> okp (conserves V s) m"
  by (erule okp_mono) (rule conserves_trans)

lemma conserves_then:
  assumes "okp (conserves V s) m" and "\<And>t. engine_ok t \<Longrightarrow> okp (conserves V t) (f t)"
  shows "okp (conserves V s) (rbind m f)"
  unfolding okp_rbind using assms(1)
  by (rule okp_mono) (rule conserves_step, assumption, rule assms(2), erule conserves_ok)

lemma rfold_conserves:
  assumes "engine_ok s" and "\<And>x t. x \<in> set xs \<Longrightarrow> engine_ok t \<Longrightarrow> okp (conserves V t) (f x t)"
  shows "okp (conserves V s) (rfold f xs s)"
  by (rule rfold_okp_inv)
    (blast intro: assms conserves_refl conserves_step conserves_ok)+

lemma fastpath_port_conserves:
  assumes specs: "ring_spec D V" "kni_spec D V" and ok: "engine_ok s" and i: "i < KNI_KTHREAD"
  shows "okp (conserves V s) (fastpath_port D disable_nf i s)"
proof -
  note okD = engine_okD [OF ok]
  from okD(6,7) i obtain k where k: "kni_list s ! i = Some k" by (auto dest: list_all_nthD)
  obtain ps k' where rx: "rte_kni_rx_burst D k (word_of_nat PKT_BURST_SZ) = (ps, k')" by fastforce
  note rx' = kni_rx [OF specs(2) rx]
  let ?st = "(kni_stats s ! i)\<lparr>k_rx_packets := k_rx_packets (kni_stats s ! i) + word_of_nat (length ps)\<rparr>"
  let ?s1 = "s\<lparr>kni_list := (kni_list s)[i := Some k'], kni_stats := (kni_stats s)[i := ?st]\<rparr>"
  from set_kni [OF ok i k rx'(3,2), of ?st] have s1: "engine_ok ?s1"
    "balance V ?s1 = balance V s" "received V ?s1 = received V s + mset ps" by simp_all
  have loop: "okp (absorbs V (mset ps) ?s1) (rfold (forward_packet D disable_nf i) ps ?s1)"
    by (rule absorbs_loop_packets [OF s1(1)]) (use specs i rx'(4) forward_packet_absorbs in blast)
  have "okp (conserves V s) (rbind (idx (kni_list t) i) (\<lambda>kp. rbind (deref kp) (\<lambda>k2.
      Ok (t\<lparr>kni_list := (kni_list t)[i := Some (rte_kni_handle_request D k2)]\<rparr>))))"
    if t: "absorbs V (mset ps) ?s1 t" for t
  proof -
    from t have okt: "engine_ok t" by (rule absorbs_ok)
    from engine_okD(6,7) [OF okt] i obtain k2 where k2: "kni_list t ! i = Some k2"
      by (auto dest: list_all_nthD)
    from set_kni [OF okt i k2, of V "rte_kni_handle_request D k2" "[]" "kni_stats t ! i"] specs(2)
    have "engine_ok (t\<lparr>kni_list := (kni_list t)[i := Some (rte_kni_handle_request D k2)]\<rparr>) \<and>
      balance V (t\<lparr>kni_list := (kni_list t)[i := Some (rte_kni_handle_request D k2)]\<rparr>) = balance V t \<and>
      received V (t\<lparr>kni_list := (kni_list t)[i := Some (rte_kni_handle_request D k2)]\<rparr>) = received V t"
      by simp
    with t s1(2,3) i k2 engine_okD(6) [OF okt] show ?thesis
      by (simp add: absorbs_def conserves_def nf_clean_def ac_simps)
  qed
  with loop i k rx okD(6,8) show ?thesis
    by (auto simp: fastpath_port_def Let_def elim!: okp_mono)
qed

lemma flush_all_conserves:
  assumes "ring_spec D V" "kni_spec D V" and "engine_ok s"
    and "unat nb_kni \<le> KNI_KTHREAD" and "unat nb_coproc \<le> KNI_KTHREAD"
  shows "okp (conserves V s) (flush_all D nb_kni nb_coproc s)"
  unfolding flush_all_def
proof (rule conserves_then)
  show "okp (conserves V s) (rfold (\<lambda>i. flush_port_queue D (word_of_nat i)) [0..<unat nb_kni] s)"
    using assms by (intro rfold_conserves)
      (auto simp: switch_ok_def intro!: okp_mono [OF flush_port_absorbs absorbs_conserves])
next
  fix t :: "('a, 'b, 'c) engine"
  assume "engine_ok t"
  then show "okp (conserves V t) (rfold (\<lambda>i. flush_nf_rx_queue D (word_of_nat i)) [0..<unat nb_coproc] t)"
    using assms by (intro rfold_conserves)
      (auto simp: switch_ok_def intro!: okp_mono [OF flush_nf_rx_absorbs absorbs_conserves])
qed

text \<open>Taking a burst out of a ring.\<close>

lemma set_nf:
  assumes ok: "engine_ok s" and i: "i < KNI_KTHREAD" and "nf_ok c"
    and held: "nf_held V (nf s ! i) = nf_held V c + mset ps"
    and sub: "towards_nf V c \<subseteq> towards_nf V (nf s ! i)"
  defines "t \<equiv> s\<lparr>nf := (nf s)[i := c]\<rparr>"
  shows "engine_ok t \<and> balance V s = balance V t + mset ps \<and> received V t = received V s \<and>
    (nf_clean V s \<longrightarrow> nf_clean V t)"
proof -
  have len: "i < length (nf s)" using engine_okD(4) [OF ok] i by simp
  have "sum_list (map (nf_held V) ((nf s)[i := c])) + nf_held V (nf s ! i) =
      sum_list (map (nf_held V) (nf s)) + nf_held V c"
    by (rule sum_list_update_add [OF len])
  then have sum: "sum_list (map (nf_held V) (nf s)) = sum_list (map (nf_held V) ((nf s)[i := c])) + mset ps"
    by (simp add: held ac_simps)
  have "engine_ok t" using ok assms(3) by (simp add: t_def engine_ok_def list_all_update)
  moreover have "nf_clean V t" if "nf_clean V s"
    using that sub len by (auto simp: t_def nf_clean_def nth_list_update split: if_splits)
  ultimately show ?thesis by (simp add: t_def account_defs sum ac_simps)
qed

lemma fastpath_coproc_conserves:
  assumes specs: "ring_spec D V" "kni_spec D V" and ok: "engine_ok s" and i: "i < KNI_KTHREAD"
  shows "okp (conserves V s) (fastpath_coproc D i s)"
proof -
  note okD = engine_okD [OF ok]
  from okD(4,5) i have nfi: "nf_ok (nf s ! i)" by (simp add: list_all_nthD)
  then obtain r where r: "tx_q (nf s ! i) = Some r" by (auto simp: nf_ok_def)
  obtain ps r' where deq: "rte_ring_dequeue_burst D r (word_of_nat PKT_BURST_SZ) = (ps, r')" by fastforce
  let ?c = "(nf s ! i)\<lparr>tx_q := Some r'\<rparr>"
  let ?s1 = "s\<lparr>nf := (nf s)[i := ?c]\<rparr>"
  have "nf_held V (nf s ! i) = nf_held V ?c + mset ps"
    using ring_dequeue(2) [OF specs(1) deq] r by (simp add: nf_held_def ring_held_def ac_simps)
  with set_nf [OF ok i, of ?c V ps] nfi have s1: "engine_ok ?s1" "balance V s = balance V ?s1 + mset ps"
    "received V ?s1 = received V s" "nf_clean V s \<longrightarrow> nf_clean V ?s1"
    by (simp_all add: nf_ok_def towards_nf_def)
  have "okp (absorbs V (mset ps) ?s1) (rfold (\<lambda>p. enqueue_port D p (word_of_nat i)) ps ?s1)"
    by (rule absorbs_loop_packets [OF s1(1)])
      (use specs i in \<open>auto simp: switch_ok_def intro: enqueue_port_absorbs\<close>)
  then have "okp (conserves V s) (rfold (\<lambda>p. enqueue_port D p (word_of_nat i)) ps ?s1)"
    using s1 by (auto simp: absorbs_def conserves_def ac_simps elim!: okp_mono)
  with i okD(4) r deq show ?thesis by (simp add: fastpath_coproc_def Let_def)
qed

section \<open>A coprocessor\<close>

text \<open>A packet the firewall can read: both headers, and IP version 4.\<close>

definition fw_ready :: "rte_mbuf \<Rightarrow> bool" where
  "fw_ready p \<longleftrightarrow>
     hdr_bytes \<le> length (m_data p) \<and> drop_bit 4 (m_data p ! ether_hdr_len) AND 0b1111 = 4"

lemma bump_total_table [simp]: "lpm_tbl (bump_total f) = lpm_tbl f" "rules (bump_total f) = rules f"
  by (simp_all add: bump_total_def)

lemma process_packet_ready:
  assumes "fw_ready p" and "lpm_tbl f = Some tbl"
  obtains r where "process_packet D p f = Ok (r, bump_total f)"
proof -
  from assms(1) have "fw_pkt_ipv4_hdr p = Ok (Some ether_hdr_len)"
    using fw_pkt_ipv4_hdr_cases [of p] by (simp add: fw_ready_def hdr_bytes_def ether_hdr_len_def)
  moreover from assms(1) rd32_be_Ok [of "ether_hdr_len + 12" p] obtain src where
    "rd32_be p (ether_hdr_len + 12) = Ok src" by (auto simp: fw_ready_def hdr_bytes_def ether_hdr_len_def)
  moreover obtain ret nh where "rte_lpm_lookup D tbl src = (ret, nh)" by fastforce
  ultimately obtain a where "fw_packet_handler D p f = Ok (a, bump_total f)"
    using fw_packet_handler_Ok [of p ether_hdr_len src f tbl D ret nh] assms(2) by blast
  then show thesis
    by (cases "a = FW_FORWARD") (simp_all add: that process_packet_def)
qed

lemma coprocess_packet_absorbs:
  assumes specs: "ring_spec D V" "kni_spec D V" and ok: "engine_ok s" and i: "i < KNI_KTHREAD"
    and p: "fw_ready p" and tbl: "lpm_tbl (fw s) = Some tbl"
  shows "okp (absorbs V {#p#} s) (coprocess_packet D i p s)"
proof -
  from p tbl obtain r where r: "process_packet D p (fw s) = Ok (r, bump_total (fw s))"
    by (rule process_packet_ready [of p "fw s" tbl D])
  let ?s = "s\<lparr>fw := bump_total (fw s)\<rparr>"
  from ok have ok': "engine_ok ?s" by (simp add: engine_ok_def)
  have acc: "balance V ?s = balance V s" "received V ?s = received V s" "nf_clean V ?s = nf_clean V s"
    "lpm_tbl (fw ?s) = lpm_tbl (fw s)"
    by (simp_all add: account_defs nf_clean_def bump_total_def)
  show ?thesis
  proof (cases "r = 0")
    case True
    have "okp (absorbs V {#p#} ?s) (enqueue_nf_tx D p (word_of_nat i) ?s)"
      by (rule enqueue_nf_tx_absorbs) (use specs i ok' in \<open>simp add: switch_ok_def\<close>)
    then have "okp (absorbs V {#p#} s) (enqueue_nf_tx D p (word_of_nat i) ?s)"
      by (rule okp_mono) (simp add: absorbs_def acc)
    with True show ?thesis by (simp add: coprocess_packet_def r Let_def)
  next
    case False
    with ok' acc show ?thesis
      by (simp add: coprocess_packet_def r Let_def absorbs_def engine_ok_def account_defs nf_clean_def ac_simps)
  qed
qed

text \<open>The packets that a round of coprocessor \<open>i\<close> takes from its ring.\<close>

definition coproc_burst :: "('r, 'k, 'l) dpdk \<Rightarrow> nat \<Rightarrow> ('r, 'k, 'l) engine \<Rightarrow> rte_mbuf list" where
  "coproc_burst D i s =
     (case rx_q (nf s ! i) of
        None \<Rightarrow> []
      | Some r \<Rightarrow> fst (rte_ring_dequeue_burst D r (word_of_nat PKT_BURST_SZ)))"

lemma coproc_burst_held:
  assumes "ring_spec D V"
  shows "set (coproc_burst D i s) \<subseteq> set (ring_held V (rx_q (nf s ! i)))"
proof (cases "rx_q (nf s ! i)")
  case (Some r)
  obtain ps r' where "rte_ring_dequeue_burst D r (word_of_nat PKT_BURST_SZ) = (ps, r')" by fastforce
  with ring_dequeue(2) [OF assms this] Some show ?thesis by (simp add: coproc_burst_def ring_held_def)
qed (simp add: coproc_burst_def)

lemma coprocessor_burst_step:
  assumes specs: "ring_spec D V" "kni_spec D V" and ok: "engine_ok s" and i: "i < KNI_KTHREAD"
    and ready: "\<forall>p \<in> set (coproc_burst D i s). fw_ready p"
    and tbl: "coproc_burst D i s = [] \<or> lpm_tbl (fw s) = Some tbl"
  shows "okp (conserves V s) (coprocessor D i s)"
proof -
  note okD = engine_okD [OF ok]
  from okD(4,5) i have nfi: "nf_ok (nf s ! i)" by (simp add: list_all_nthD)
  then obtain r where r: "rx_q (nf s ! i) = Some r" by (auto simp: nf_ok_def)
  obtain ps r' where deq: "rte_ring_dequeue_burst D r (word_of_nat PKT_BURST_SZ) = (ps, r')" by fastforce
  note items = ring_dequeue(2) [OF specs(1) deq]
  let ?c = "(nf s ! i)\<lparr>rx_q := Some r'\<rparr>"
  let ?s1 = "s\<lparr>nf := (nf s)[i := ?c]\<rparr>"
  have "nf_held V (nf s ! i) = nf_held V ?c + mset ps"
    using items r by (simp add: nf_held_def ring_held_def ac_simps)
  moreover have "towards_nf V ?c \<subseteq> towards_nf V (nf s ! i)"
    using items r by (auto simp: towards_nf_def ring_held_def)
  ultimately have s1: "engine_ok ?s1" "balance V s = balance V ?s1 + mset ps"
    "received V ?s1 = received V s" "nf_clean V s \<longrightarrow> nf_clean V ?s1"
    using set_nf [OF ok i, of ?c V ps] nfi by (simp_all add: nf_ok_def)
  from ready r deq have "\<forall>p \<in> set ps. fw_ready p" by (simp add: coproc_burst_def)
  then have "okp (absorbs V (mset ps) ?s1) (rfold (coprocess_packet D i) ps ?s1)"
    by (intro absorbs_loop_packets [OF s1(1)])
      (use specs i tbl r deq in \<open>auto simp: coproc_burst_def intro!: coprocess_packet_absorbs\<close>)
  then have "okp (conserves V s) (rfold (coprocess_packet D i) ps ?s1)"
    using s1 by (auto simp: absorbs_def conserves_def ac_simps elim!: okp_mono)
  then have "okp (conserves V s) (rbind (rfold (coprocess_packet D i) ps ?s1)
      (flush_nf_tx_queue D (word_of_nat i)))"
    by (rule conserves_then)
      (use specs i in \<open>auto simp: switch_ok_def intro!: okp_mono [OF flush_nf_tx_absorbs absorbs_conserves]\<close>)
  with i okD(4) r deq show ?thesis by (simp add: coprocessor_def Let_def)
qed

lemma coprocessor_step:
  assumes "ring_spec D V" "kni_spec D V" and "engine_ok s" and "i < KNI_KTHREAD"
    and "\<forall>p \<in> set (ring_held V (rx_q (nf s ! i))). fw_ready p" and "lpm_tbl (fw s) = Some tbl"
  shows "okp (conserves V s) (coprocessor D i s)"
  using coproc_burst_held [OF assms(1)] assms(5) by (intro coprocessor_burst_step [OF assms(1-4) _ disjI2 [OF assms(6)]]) blast

text \<open>Without a rule table only an empty round returns.\<close>

lemma coprocess_packet_no_table:
  "lpm_tbl (fw s) = None \<Longrightarrow> \<exists>x. coprocess_packet D i p s = Err x"
  by (cases "coprocess_packet D i p s")
    (auto simp: coprocess_packet_def process_packet_def fw_packet_handler_def rbind_eq_Ok deref_def Let_def bump_not_ipv4_def bump_total_def
      split: option.splits if_splits)

lemma coprocessor_no_table:
  assumes "lpm_tbl (fw s) = None" and "coprocessor D i s = Ok t"
  shows "coproc_burst D i s = []"
proof (rule ccontr)
  from assms(2) obtain c r where r: "idx (nf s) i = Ok c" "deref (rx_q c) = Ok r"
    by (auto simp: coprocessor_def rbind_eq_Ok)
  obtain ps r' where deq: "rte_ring_dequeue_burst D r (word_of_nat PKT_BURST_SZ) = (ps, r')" by fastforce
  from r have "rx_q (nf s ! i) = Some r" by (auto simp: deref_def dest!: idx_OkD split: option.splits)
  moreover assume "coproc_burst D i s \<noteq> []"
  ultimately obtain p qs where "ps = p # qs" using deq by (cases ps) (auto simp: coproc_burst_def)
  with assms(2) r deq coprocess_packet_no_table [of "s\<lparr>nf := (nf s)[i := c\<lparr>rx_q := Some r'\<rparr>]\<rparr>" D i p] assms(1)
  show False by (auto simp: coprocessor_def rbind_eq_Ok Let_def)
qed

text \<open>A round that returns has met no packet of another IP version.\<close>

lemma coprocess_packet_Ok:
  assumes "coprocess_packet D i p s = Ok t" and "hdr_bytes \<le> length (m_data p)"
  shows "fw_ready p"
proof (rule ccontr)
  assume "\<not> fw_ready p"
  with assms(2) have "fw_pkt_ipv4_hdr p = Ok None"
    using fw_pkt_ipv4_hdr_cases [of p] by (simp add: fw_ready_def hdr_bytes_def ether_hdr_len_def)
  with assms(1) show False
    by (simp add: coprocess_packet_def process_packet_def fw_packet_handler_not_ipv4)
qed

lemma rfold_Ok_each:
  assumes "rfold f xs s = Ok t" and "x \<in> set xs"
  shows "\<exists>u v. f x u = Ok v"
  using assms by (induction xs arbitrary: s) (auto simp: rbind_eq_Ok)

lemma coprocessor_Ok_ready:
  assumes "coprocessor D i s = Ok t" and "\<forall>p \<in> set (coproc_burst D i s). hdr_bytes \<le> length (m_data p)"
    and "p \<in> set (coproc_burst D i s)"
  shows "fw_ready p"
proof -
  from assms(1) obtain c r where r: "idx (nf s) i = Ok c" "deref (rx_q c) = Ok r"
    by (auto simp: coprocessor_def rbind_eq_Ok)
  obtain ps r' where deq: "rte_ring_dequeue_burst D r (word_of_nat PKT_BURST_SZ) = (ps, r')" by fastforce
  from r have "rx_q (nf s ! i) = Some r" by (auto simp: deref_def dest!: idx_OkD split: option.splits)
  with deq have ps: "coproc_burst D i s = ps" by (simp add: coproc_burst_def)
  from assms(1) r deq obtain u v where "rfold (coprocess_packet D i) ps u = Ok v"
    by (auto simp: coprocessor_def rbind_eq_Ok Let_def)
  from rfold_Ok_each [OF this, of p] assms(2,3) ps coprocess_packet_Ok show ?thesis by blast
qed

lemma fastpath_step:
  assumes "ring_spec D V" "kni_spec D V" and "engine_ok s"
    and "unat nb_kni \<le> KNI_KTHREAD" and "unat nb_coproc \<le> KNI_KTHREAD"
  shows "okp (conserves V s) (fastpath D disable_nf nb_kni nb_coproc s)"
  unfolding fastpath_def
proof (rule conserves_then)
  show "okp (conserves V s) (rfold (fastpath_port D disable_nf) [0..<unat nb_kni] s)"
    using assms by (intro rfold_conserves) (auto intro!: fastpath_port_conserves)
next
  fix t :: "('a, 'b, 'c) engine"
  assume t: "engine_ok t"
  note flush = flush_all_conserves [OF assms(1,2) _ assms(4,5)]
  have "okp (conserves V u) (rbind (rfold (fastpath_coproc D) [0..<unat nb_coproc] u) (flush_all D nb_kni nb_coproc))"
    if "engine_ok u" for u :: "('a, 'b, 'c) engine"
    using assms that
    by (intro conserves_then rfold_conserves flush) (auto intro!: fastpath_coproc_conserves)
  then show "okp (conserves V t) (rbind (flush_all D nb_kni nb_coproc t) (\<lambda>s2.
      if disable_nf then Ok s2
      else rbind (rfold (fastpath_coproc D) [0..<unat nb_coproc] s2) (flush_all D nb_kni nb_coproc)))"
    by (intro conserves_then [OF flush [OF t]]) (simp add: conserves_refl)
qed

end
