(* ===== verification/Main_Loop.thy ===== *)
theory Main_Loop
  imports Switch_Rounds Interface
begin

text \<open>
  The program, \<^verbatim>\<open>engine/main.c\<close> and \<^verbatim>\<open>main_loop\<close> of \<^verbatim>\<open>engine/switch.c\<close>: start-up, one thread per
  logical core, the signal handler, and the end of the process.  A thread is \<open>Launched\<close>, in its
  loop, or has returned.  One turn of a thread is what it does up to the next read of the stop flag:
  the code before its loop, or one round of the loop with the print-out of the statistics, or the
  code after the loop.  \<open>sys_step\<close> interleaves the turns of the threads and the signals in every
  order; the values of the time stamp counter are arbitrary.  Turns are atomic in this model: the
  threads share the rings, whose operations are atomic in DPDK, and the variables of the firewall,
  whose unsynchronised accesses inside a turn are not modelled.

  A run that ends in an error keeps the state before the failing turn and the error.  Shown, in
  \<open>Main_Props\<close>: what holds in every reachable state, which runs can crash, and the double release
  of the rules at the end.
\<close>

section \<open>Main loop\<close>

definition PRINT_DELAY :: nat where
  "PRINT_DELAY = 2"

datatype phase = Launched | Looping | Returned

record thread =
  phase :: phase
  start :: u64

text \<open>What a thread gets from outside: the build option, the frequency of the counter, the rule file.\<close>

record setting =
  disable_nf :: bool
  tsc_hz :: u64
  rsrc :: core_mapping
  renv :: rule_env

definition is_rx :: "core_mapping \<Rightarrow> nat \<Rightarrow> bool" where
  "is_rx m lcore_id \<longleftrightarrow> lcore_id = unat (rx_lcore m)"

definition is_coproc :: "core_mapping \<Rightarrow> nat \<Rightarrow> bool" where
  "is_coproc m lcore_id \<longleftrightarrow> unat (coproc_lcore_first m) \<le> lcore_id \<and> lcore_id \<le> unat (coproc_lcore_last m)"

definition nb_kni :: "core_mapping \<Rightarrow> u32" where
  "nb_kni m = ucast (coproc_lcore_last m) - ucast (coproc_lcore_first m) + 1"

text \<open>
  The code before the loop.  \<open>now\<close> and \<open>now'\<close> are the values of the counter that the turn reads.
\<close>

definition main_loop_enter ::
  "('r, 'k, 'l) dpdk \<Rightarrow> setting \<Rightarrow> nat \<Rightarrow> u64 \<Rightarrow> u64 \<Rightarrow> ('r, 'k, 'l) engine \<Rightarrow>
     (thread \<times> ('r, 'k, 'l) engine) res option" where
  "main_loop_enter D S lcore_id now now' s =
     (if is_rx (rsrc S) lcore_id then Some (Ok (\<lparr>phase = Looping, start = now\<rparr>, s))
      else if is_coproc (rsrc S) lcore_id \<and> \<not> disable_nf S then
        (case coprocessor_setup D (renv S) lcore_id now' (fw s) of
           None \<Rightarrow> None
         | Some r \<Rightarrow>
             Some (rbind r (\<lambda>(ret, fw').
               if ret \<noteq> 0 then Err (RteExit ''Coprocessor setup failed.'')
               else Ok (\<lparr>phase = Looping, start = now\<rparr>, s\<lparr>fw := fw'\<rparr>))))
      else Some (Ok (\<lparr>phase = Returned, start = now\<rparr>, s)))"

text \<open>
  The test \<^verbatim>\<open>(double)(now - start) / hz > PRINT_DELAY\<close> of the source is exact for differences below
  \<open>2 ^ 53\<close> and frequencies below \<open>2 ^ 50\<close>.
\<close>

definition rx_round ::
  "('r, 'k, 'l) dpdk \<Rightarrow> setting \<Rightarrow> u64 \<Rightarrow> u64 \<Rightarrow> thread \<Rightarrow> ('r, 'k, 'l) engine \<Rightarrow>
     (thread \<times> ('r, 'k, 'l) engine) res" where
  "rx_round D S now now' th s =
     rbind (fastpath D (disable_nf S) (nb_kni (rsrc S)) (nb_kni (rsrc S)) s) (\<lambda>s'.
       if PRINT_DELAY * unat (tsc_hz S) < unat (now - start th)
       then (case print_stats s' of (_, _, s'') \<Rightarrow> Ok (th\<lparr>start := now'\<rparr>, s''))
       else Ok (th, s'))"

definition main_loop_round ::
  "('r, 'k, 'l) dpdk \<Rightarrow> setting \<Rightarrow> nat \<Rightarrow> u64 \<Rightarrow> u64 \<Rightarrow> thread \<Rightarrow> ('r, 'k, 'l) engine \<Rightarrow>
     (thread \<times> ('r, 'k, 'l) engine) res" where
  "main_loop_round D S lcore_id now now' th s =
     (if is_rx (rsrc S) lcore_id then
        (if kni_stop s \<noteq> 0 then Ok (th\<lparr>phase := Returned\<rparr>, s) else rx_round D S now now' th s)
      else
        (if kni_stop s \<noteq> 0
         then rbind (coprocessor_teardown (fw s)) (\<lambda>(_, fw'). Ok (th\<lparr>phase := Returned\<rparr>, s\<lparr>fw := fw'\<rparr>))
         else rbind (coprocessor D lcore_id s) (\<lambda>s'. Ok (th, s'))))"

definition main_loop_turn ::
  "('r, 'k, 'l) dpdk \<Rightarrow> setting \<Rightarrow> nat \<Rightarrow> u64 \<Rightarrow> u64 \<Rightarrow> thread \<Rightarrow> ('r, 'k, 'l) engine \<Rightarrow>
     (thread \<times> ('r, 'k, 'l) engine) res option" where
  "main_loop_turn D S lcore_id now now' th s =
     (case phase th of
        Launched \<Rightarrow> main_loop_enter D S lcore_id now now' s
      | Looping \<Rightarrow> Some (main_loop_round D S lcore_id now now' th s)
      | Returned \<Rightarrow> None)"

section \<open>Signals\<close>

datatype signum = SIGRTMIN | SIGINT | OtherSignal

definition signal_handler :: "signum \<Rightarrow> ('r, 'k, 'l) engine \<Rightarrow> ('r, 'k, 'l) engine" where
  "signal_handler sig s =
     (if sig = SIGRTMIN \<or> sig = SIGINT then s\<lparr>kni_stop := kni_stop s + 1\<rparr> else s)"

section \<open>Start and end of the process\<close>

definition main_mapping :: core_mapping where
  "main_mapping =
     \<lparr>rx_lcore = word_of_nat KNI_KTHREAD, coproc_lcore_first = 0,
      coproc_lcore_last = word_of_nat (KNI_KTHREAD - 1)\<rparr>"

text \<open>
  \<open>ret\<close> is the result of \<^verbatim>\<open>rte_eal_init\<close>, \<open>n_lcore\<close> the number of cores and \<open>lcore_index\<close> the
  function \<^verbatim>\<open>rte_lcore_index\<close>.
\<close>

definition main_start ::
  "('r, 'k, 'l) dpdk \<Rightarrow> int \<Rightarrow> nat \<Rightarrow> (nat \<Rightarrow> int) \<Rightarrow> ('r, 'k, 'l) engine \<Rightarrow>
     (core_mapping \<times> ('r, 'k, 'l) engine) res" where
  "main_start D ret n_lcore lcore_index s =
     (if ret < 0 then Err (RteExit ''Could not initialise EAL'')
      else
        rbind (init D s) (\<lambda>(r, s1).
        if r \<noteq> 0 then Err (RteExit ''Initialization failed'')
        else
          rbind (init_kni_port D 0 s1) (\<lambda>s2.
          if n_lcore \<noteq> KNI_KTHREAD + 1 then Err (RteExit ''Number of lcores != KNI_KTHREAD + 1'')
          else if list_ex (\<lambda>i. lcore_index i = - 1) [0..<n_lcore] then Err (RteExit ''Unexpected index for lcore'')
          else Ok (main_mapping, s2))))"

text \<open>
  After its own turn as a thread, the first core waits for the others; \<open>waited\<close> are the results of
  \<^verbatim>\<open>rte_eal_wait_lcore\<close>.
\<close>

definition main_end ::
  "('r, 'k, 'l) dpdk \<Rightarrow> int list \<Rightarrow> ('r, 'k, 'l) engine \<Rightarrow> (int \<times> ('r, 'k, 'l) engine) res" where
  "main_end D waited s =
     (if list_ex (\<lambda>r. r < 0) waited then Ok (- 1, s)
      else rbind (kni_free_kni D s) (\<lambda>(_, _, s'). Ok (0, s')))"

section \<open>Runs\<close>

record ('r, 'k, 'l) sys =
  eng :: "('r, 'k, 'l) engine"
  threads :: "nat \<Rightarrow> thread"
  crash :: "cerror option"

definition launch :: "('r, 'k, 'l) engine \<Rightarrow> ('r, 'k, 'l) sys" where
  "launch s = \<lparr>eng = s, threads = (\<lambda>_. \<lparr>phase = Launched, start = 0\<rparr>), crash = None\<rparr>"

inductive sys_step ::
  "('r, 'k, 'l) dpdk \<Rightarrow> setting \<Rightarrow> ('r, 'k, 'l) sys \<Rightarrow> ('r, 'k, 'l) sys \<Rightarrow> bool" for D S where
  turn: "crash s = None \<Longrightarrow> l \<le> KNI_KTHREAD \<Longrightarrow>
     main_loop_turn D S l now now' (threads s l) (eng s) = Some (Ok (th, e)) \<Longrightarrow>
     sys_step D S s (s\<lparr>eng := e, threads := (threads s)(l := th)\<rparr>)"
| fail: "crash s = None \<Longrightarrow> l \<le> KNI_KTHREAD \<Longrightarrow>
     main_loop_turn D S l now now' (threads s l) (eng s) = Some (Err x) \<Longrightarrow>
     sys_step D S s (s\<lparr>crash := Some x\<rparr>)"
| signal: "crash s = None \<Longrightarrow> sys_step D S s (s\<lparr>eng := signal_handler sig (eng s)\<rparr>)"

inductive reachable ::
  "('r, 'k, 'l) dpdk \<Rightarrow> setting \<Rightarrow> ('r, 'k, 'l) engine \<Rightarrow> ('r, 'k, 'l) sys \<Rightarrow> bool" for D S e where
  launched: "reachable D S e (launch e)"
| step: "reachable D S e s \<Longrightarrow> sys_step D S s t \<Longrightarrow> reachable D S e t"

section \<open>Facts about start-up\<close>

lemma sum_list_empty: "(\<And>x. x \<in> set xs \<Longrightarrow> f x = {#}) \<Longrightarrow> sum_list (map f xs) = {#}"
  by (induction xs) auto

text \<open>A new engine accounts for no packet.\<close>

definition idle :: "('r, 'k) view \<Rightarrow> ('r, 'k, 'l) engine \<Rightarrow> bool" where
  "idle V s \<longleftrightarrow> engine_ok s \<and> balance V s = {#} \<and> received V s = {#} \<and> nf_clean V s"

lemma startup_idle:
  fixes D :: "('r, 'k, 'l) dpdk"
  assumes "fresh_spec D V" and "engine_ok t" and "freed t = []"
    and "list_all (\<lambda>b. staged b = []) (mgr_bufs (tx_mgr t))"
    and nf: "list_all (\<lambda>c. staged (nf_rx c) = [] \<and> staged (nf_tx c) = []) (nf t)"
    and rings: "list_all (\<lambda>c. \<exists>a b. rx_q c = rte_ring_create D a \<and> tx_q c = rte_ring_create D b) (nf t)"
    and knis: "list_all (new_kni D) (kni_list t)"
  shows "idle V t"
proof -
  have ring: "ring_held V (rte_ring_create D a) = []" for a
    using assms(1) by (cases "rte_ring_create D a") (auto simp: ring_held_def fresh_spec_def)
  have "kni_sent V k = {#}" "kni_received V k = {#}" if "k \<in> set (kni_list t)" for k
  proof -
    from that knis obtain d conf port where "k = Some d" "rte_kni_alloc D conf port = Some d"
      by (auto simp: list_all_iff new_kni_def)
    with assms(1) show "kni_sent V k = {#}" "kni_received V k = {#}"
      by (auto simp: fresh_spec_def kni_sent_def kni_received_def)
  qed
  moreover have held: "nf_held V c = {#}" "towards_nf V c = {}" if "c \<in> set (nf t)" for c
    using that nf rings ring by (auto simp: list_all_iff nf_held_def towards_nf_def)
  moreover have "nf_clean V t" unfolding nf_clean_def using held(2) by auto
  ultimately show ?thesis
    using assms(2-4) by (auto simp: idle_def account_defs list_all_iff intro!: sum_list_empty)
qed

lemma main_start_idle:
  fixes D :: "('r, 'k, 'l) dpdk"
  assumes "fresh_spec D V" and "rte_pktmbuf_pool_create D" and "rte_calloc D"
    and "\<forall>i \<in> {0, 1, 2, 3, 4}. rte_ring_create D (get_rx_queue_name i) \<noteq> None \<and>
           rte_ring_create D (get_tx_queue_name i) \<noteq> None"
    and "\<forall>i < KNI_KTHREAD. rte_kni_alloc D (kni_conf D 0 i) (word_of_nat i) \<noteq> None"
    and "main_start D ret n_lcore lcore_index engine0 = Ok (m, e)"
  shows "m = main_mapping \<and> idle V e"
proof -
  from assms(2-5) obtain s t where st: "init D engine0 = Ok (0, s)" "init_kni_port D 0 s = Ok t"
    and t: "engine_ok t" "freed t = []" "list_all (\<lambda>b. staged b = []) (mgr_bufs (tx_mgr t))"
    "list_all (\<lambda>c. staged (nf_rx c) = [] \<and> staged (nf_tx c) = []) (nf t)"
    "list_all (\<lambda>c. \<exists>a b. rx_q c = rte_ring_create D a \<and> tx_q c = rte_ring_create D b) (nf t)"
    "list_all (new_kni D) (kni_list t)"
    by (rule startup_ok)
  from assms(6) st have "m = main_mapping" "e = t" by (auto simp: main_start_def split: if_splits)
  with startup_idle [OF assms(1) t] show ?thesis by simp
qed

text \<open>
  A start that succeeds had its memory and its interfaces; the results of \<^verbatim>\<open>rte_ring_create\<close> are
  not looked at.
\<close>

lemma main_start_allocated:
  assumes "main_start D ret n_lcore lcore_index engine0 = Ok (m, e)"
  shows "rte_pktmbuf_pool_create D" and "rte_calloc D"
    and "\<forall>i < KNI_KTHREAD. rte_kni_alloc D (kni_conf D 0 i) (word_of_nat i) \<noteq> None" and "m = main_mapping"
proof -
  from assms obtain s t where s: "init D engine0 = Ok (0, s)" and t: "init_kni_port D 0 s = Ok t"
    and m: "m = main_mapping"
    by (auto simp: main_start_def rbind_eq_Ok split: if_splits)
  from s show "rte_pktmbuf_pool_create D" "rte_calloc D"
    by (auto simp: init_def Let_def rbind_eq_Ok split: if_splits prod.splits)
  have "unat (word_of_nat KNI_KTHREAD :: u16) = KNI_KTHREAD" by (simp add: KNI_KTHREAD_def)
  with t have loop: "rfold (kni_alloc_one D 0) [0..<KNI_KTHREAD] s = Ok t"
    by (auto simp: init_kni_port_def kni_alloc_def rbind_eq_Ok)
  show "\<forall>i < KNI_KTHREAD. rte_kni_alloc D (kni_conf D 0 i) (word_of_nat i) \<noteq> None"
  proof (intro allI impI)
    fix i assume "i < KNI_KTHREAD"
    with rfold_Ok_each [OF loop] obtain u v where "kni_alloc_one D 0 i u = Ok v" by fastforce
    then show "rte_kni_alloc D (kni_conf D 0 i) (word_of_nat i) \<noteq> None" by (auto simp: kni_alloc_one_def split: option.splits)
  qed
  show "m = main_mapping" by (rule m)
qed

definition rings_created :: "('r, 'k, 'l) dpdk \<Rightarrow> bool" where
  "rings_created D \<longleftrightarrow>
     (\<forall>i \<in> {0, 1, 2, 3, 4}. rte_ring_create D (get_rx_queue_name i) \<noteq> None \<and>
        rte_ring_create D (get_tx_queue_name i) \<noteq> None)"

lemma main_start_rings:
  assumes "fresh_spec D V" and "rings_created D" and "main_start D ret n_lcore lcore_index engine0 = Ok (m, e)"
  shows "idle V e"
  using main_start_idle [OF assms(1) main_start_allocated(1,2) [OF assms(3)] _ main_start_allocated(3) [OF assms(3)] assms(3)]
    assms(2) by (simp add: rings_created_def)

end
