(* ===== verification/Switch_Props.thy ===== *)
theory Switch_Props
  imports Switch_Rounds
begin

text \<open>
  The properties of the switch: conservation of packets by the rounds of both kinds of threads,
  what is flushed at the end of a round, the order of delivery, the filtering of a coprocessor,
  the counters, and the routing decision on the configured table.
\<close>

section \<open>A concrete engine\<close>

text \<open>
  Five interfaces with the same backlog \<open>ps\<close>, packets \<open>qs\<close> in each ring, and the rule table of \<open>Firewall\<close>.
\<close>

definition sample_engine :: "rte_mbuf list \<Rightarrow> rte_mbuf list \<Rightarrow> (rte_mbuf list, list_kni, list_lpm) engine" where
  "sample_engine ps qs =
     engine0\<lparr>pktmbuf_pool := True,
       kni_list := replicate KNI_KTHREAD (Some \<lparr>lk_backlog = ps, lk_intake = [], lk_outbox = [], lk_room = 64\<rparr>),
       tx_mgr := \<lparr>mgr_tx = Live (replicate KNI_KTHREAD packet_buf0), nb_active_kni = 5,
         kni_cnf = map port_config [0, 1, 2, 3, 4], routing_table = configured_route (\<lambda>_. 0)\<rparr>,
       nf := replicate KNI_KTHREAD
         \<lparr>rx_q = Some qs, tx_q = Some qs, nf_rx = packet_buf0, nf_tx = packet_buf0\<rparr>,
       fw := fw_state0\<lparr>lpm_tbl := Some sample_table\<rparr>\<rparr>"

definition sample_packet :: rte_mbuf where
  "sample_packet = ip_packet 0x45 [192, 167, 10, 7] [192, 167, 10, 2]"

lemma sample_packet_ready: "fw_ready sample_packet"
  by (simp add: sample_packet_def fw_ready_def ip_packet_def hdr_bytes_def ether_hdr_len_def nth_append)

lemma packet_buf0_ok [simp]: "buf_ok packet_buf0" "staged packet_buf0 = []"
  by (simp_all add: packet_buf0_def buf_ok_def staged_def PKT_BURST_SZ_def)

lemma sample_engine_ok: "engine_ok (sample_engine ps qs)"
  using configured_route_ok
  by (simp add: sample_engine_def engine_ok_def mgr_ok_def routes_ok_def nf_ok_def list_all_length
      engine0_def KNI_KTHREAD_def)

text \<open>The same with one packet waiting for port 0.\<close>

definition sample_staged :: "(rte_mbuf list, list_kni, list_lpm) engine" where
  "sample_staged = (sample_engine [] [])\<lparr>tx_mgr := (tx_mgr (sample_engine [] []))\<lparr>mgr_tx :=
     Live ((replicate KNI_KTHREAD packet_buf0)
       [0 := \<lparr>pb_buffer = sample_packet # replicate 31 null_mbuf, pb_count = 1\<rparr>])\<rparr>\<rparr>"

lemma sample_staged_ok: "engine_ok sample_staged"
  unfolding sample_staged_def
  by (rule engine_ok_set_buf [OF sample_engine_ok])
    (simp_all add: sample_engine_def buf_ok_def PKT_BURST_SZ_def)

section \<open>The routes after initialisation\<close>

lemma init_routes:
  assumes "init D engine0 = Ok (0, s)"
  shows "routing_table (tx_mgr s) = configured_route (\<lambda>_. 0)"
proof -
  let ?e = "engine0 :: ('a, 'b, 'c) engine"
  let ?s = "?e\<lparr>pktmbuf_pool := True, tx_mgr := (tx_mgr ?e)\<lparr>mgr_tx := Live (replicate KNI_KTHREAD packet_buf0)\<rparr>\<rparr>"
  have len: "length (kni_cnf (tx_mgr ?s)) = KNI_KTHREAD" by (simp add: engine0_def)
  from assms have "s = snd (read_config D ?s)"
    by (auto simp: init_def Let_def engine_free_def read_config_eq [OF len] split: if_splits)
  then show ?thesis by (simp add: read_config_eq [OF len]) (simp add: engine0_def)
qed

lemma init_list_dpdk: "\<exists>s. init list_dpdk engine0 = Ok (0, s)"
proof -
  let ?e = "engine0 :: (rte_mbuf list, list_kni, list_lpm) engine"
  let ?s = "?e\<lparr>pktmbuf_pool := True, tx_mgr := (tx_mgr ?e)\<lparr>mgr_tx := Live (replicate KNI_KTHREAD packet_buf0)\<rparr>\<rparr>"
  have len: "length (kni_cnf (tx_mgr ?s)) = KNI_KTHREAD" by (simp add: engine0_def)
  show ?thesis by (simp add: init_def Let_def list_dpdk_def read_config_eq [OF len])
qed

lemma and_0xFFFF_take_bit: "(w :: u32) AND 0xFFFF = take_bit 16 w"
  by (simp add: take_bit_eq_mask mask_eq_exp_minus_1)

lemma ucast_low_16: "ucast ((w :: u32) AND 0xFFFF) = (ucast w :: u16)"
  by (rule bit_word_eqI) (simp add: and_0xFFFF_take_bit bit_simps)

section \<open>What is flushed\<close>

lemma port_stage_other:
  assumes "port_blank j t = port_blank j s" and "i \<noteq> j"
    and "engine_ok s" and "engine_ok t"
  shows "port_stage i t = port_stage i s"
proof -
  from engine_okD(1) [OF assms(3)] engine_okD(1) [OF assms(4)] obtain bs bt where
    b: "mgr_tx (tx_mgr s) = Live bs" "mgr_tx (tx_mgr t) = Live bt" by blast
  with arg_cong [OF assms(1), of "\<lambda>s. mgr_tx (tx_mgr s)"]
  have "bt[j := packet_buf0] = bs[j := packet_buf0]" by (simp add: port_blank_def)
  from arg_cong [OF this, of "\<lambda>xs. xs ! i"] assms(2) b show ?thesis by (simp add: port_stage_def)
qed

lemma flush_ports_empty:
  assumes "ring_spec D V" "kni_spec D V" and "engine_ok s" and "n \<le> KNI_KTHREAD"
  shows "okp (\<lambda>t. engine_ok t \<and> (\<forall>i < n. port_stage i t = []))
    (rfold (\<lambda>i. flush_port_queue D (word_of_nat i)) [0..<n] s)"
proof -
  have "okp (\<lambda>t. engine_ok t \<and> (\<forall>i \<in> set [0..<n]. port_stage i t = []))
    (rfold (\<lambda>i. flush_port_queue D (word_of_nat i)) [0..<n] s)"
  proof (rule rfold_okp [where P = "\<lambda>ys t. engine_ok t \<and> (\<forall>i \<in> set ys. port_stage i t = [])"])
    fix ys y zs and t :: "('a, 'b, 'c) engine"
    assume split: "[0..<n] = ys @ y # zs" and t: "engine_ok t \<and> (\<forall>i \<in> set ys. port_stage i t = [])"
    from split have "y \<in> set [0..<n]" by simp
    with assms t have ok: "switch_ok D V y t" by (simp add: switch_ok_def)
    show "okp (\<lambda>t. engine_ok t \<and> (\<forall>i \<in> set (ys @ [y]). port_stage i t = []))
        (flush_port_queue D (word_of_nat y) t)"
      using port.flush_accounted [OF ok]
    proof (rule okp_mono, elim conjE)
      fix u :: "('a, 'b, 'c) engine"
      assume u: "switch_ok D V y u" "(port_blank y u, received V u) = (port_blank y t, received V t)"
        "port_stage y u = []"
      then have "port_stage i u = port_stage i t" if "i \<noteq> y" for i
        using t that by (intro port_stage_other [of y]) (auto simp: switch_ok_def)
      with u t show "engine_ok u \<and> (\<forall>i \<in> set (ys @ [y]). port_stage i u = [])"
        by (metis Un_iff empty_iff list.set(1) list.simps(15) set_append insert_iff switch_ok_def)
    qed
  qed (use assms in simp)
  then show ?thesis by (simp add: Ball_def)
qed

lemma flush_nf_rx_empty:
  assumes "ring_spec D V" "kni_spec D V" and "engine_ok s" and "n \<le> KNI_KTHREAD"
  shows "okp (\<lambda>t. engine_ok t \<and> tx_mgr t = tx_mgr s \<and> (\<forall>i < n. nf_rx_stage i t = []))
    (rfold (\<lambda>i. flush_nf_rx_queue D (word_of_nat i)) [0..<n] s)"
proof -
  have "okp (\<lambda>t. engine_ok t \<and> tx_mgr t = tx_mgr s \<and> (\<forall>i \<in> set [0..<n]. nf_rx_stage i t = []))
    (rfold (\<lambda>i. flush_nf_rx_queue D (word_of_nat i)) [0..<n] s)"
  proof (rule rfold_okp [where
        P = "\<lambda>ys t. engine_ok t \<and> tx_mgr t = tx_mgr s \<and> (\<forall>i \<in> set ys. nf_rx_stage i t = [])"])
    fix ys y zs and t :: "('a, 'b, 'c) engine"
    assume split: "[0..<n] = ys @ y # zs"
      and t: "engine_ok t \<and> tx_mgr t = tx_mgr s \<and> (\<forall>i \<in> set ys. nf_rx_stage i t = [])"
    from split have "y \<in> set [0..<n]" by simp
    with assms t have ok: "switch_ok D V y t" by (simp add: switch_ok_def)
    have other: "nf_rx_stage i u = nf_rx_stage i t" if "nf_rx_blank y u = nf_rx_blank y t" "i \<noteq> y" for i u
      using nf_rx_rest(5) [OF that] by (simp add: nf_rx_stage_def)
    show "okp (\<lambda>u. engine_ok u \<and> tx_mgr u = tx_mgr s \<and> (\<forall>i \<in> set (ys @ [y]). nf_rx_stage i u = []))
        (flush_nf_rx_queue D (word_of_nat y) t)"
      using nf_rx_queue.flush_accounted [OF ok]
    proof (rule okp_mono, elim conjE)
      fix u :: "('a, 'b, 'c) engine"
      assume u: "switch_ok D V y u" "nf_rx_blank y u = nf_rx_blank y t" "nf_rx_stage y u = []"
      with t other [OF u(2)] nf_rx_rest(3) [OF u(2)]
      show "engine_ok u \<and> tx_mgr u = tx_mgr s \<and> (\<forall>i \<in> set (ys @ [y]). nf_rx_stage i u = [])"
        by (metis Un_iff empty_iff list.set(1) list.simps(15) set_append insert_iff switch_ok_def)
    qed
  qed (use assms in simp)
  then show ?thesis by (simp add: Ball_def)
qed

lemma flush_all_empty:
  assumes "ring_spec D V" "kni_spec D V" and "engine_ok s"
    and "unat nb_kni \<le> KNI_KTHREAD" and "unat nb_coproc \<le> KNI_KTHREAD"
  shows "okp (\<lambda>t. (\<forall>i < unat nb_kni. port_stage i t = []) \<and> (\<forall>i < unat nb_coproc. nf_rx_stage i t = []))
    (flush_all D nb_kni nb_coproc s)"
  unfolding flush_all_def okp_rbind
proof (rule okp_mono [OF flush_ports_empty [OF assms(1-4)]], elim conjE)
  fix t :: "('a, 'b, 'c) engine"
  assume "engine_ok t" and "\<forall>i < unat nb_kni. port_stage i t = []"
  then show "okp (\<lambda>t. (\<forall>i < unat nb_kni. port_stage i t = []) \<and> (\<forall>i < unat nb_coproc. nf_rx_stage i t = []))
    (rfold (\<lambda>i. flush_nf_rx_queue D (word_of_nat i)) [0..<unat nb_coproc] t)"
    by (intro okp_mono [OF flush_nf_rx_empty [OF assms(1,2) _ assms(5)]]) (auto simp: port_stage_def)
qed

section \<open>What a coprocessor lets through\<close>

text \<open>The longest matching rule for the source address of the packet has an action other than 0.\<close>

definition fw_blocked :: "lpm_rules \<Rightarrow> rte_mbuf \<Rightarrow> bool" where
  "fw_blocked m p =
     (case rd32_be p (ether_hdr_len + 12) of
        Inl e \<Rightarrow> False
      | Inr src \<Rightarrow> (case lpm_search m src 32 of None \<Rightarrow> False | Some hop \<Rightarrow> hop \<noteq> 0))"

lemma process_packet_blocked:
  assumes "lpm_spec D R" and "fw_ready p" and "lpm_tbl f = Some tbl" and "fw_blocked (R tbl) p"
  shows "process_packet D p f = Ok (- 1, bump_total f)"
proof -
  from assms(2) have hdr: "fw_pkt_ipv4_hdr p = Ok (Some ether_hdr_len)"
    using fw_pkt_ipv4_hdr_cases [of p] by (simp add: fw_ready_def hdr_bytes_def ether_hdr_len_def)
  from assms(4) obtain src hop where src: "rd32_be p (ether_hdr_len + 12) = Ok src"
    and hop: "lpm_search (R tbl) src 32 = Some hop" "hop \<noteq> 0"
    by (auto simp: fw_blocked_def split: sum.splits option.splits)
  obtain ret nh where l: "rte_lpm_lookup D tbl src = (ret, nh)" by fastforce
  with assms(1) hop have "nh = Some hop" unfolding lpm_spec_def by (auto dest!: spec)
  with fw_packet_handler_Ok [OF hdr src assms(3) l] hop show ?thesis by (simp add: process_packet_def)
qed

lemma coprocess_packet_filters:
  assumes specs: "ring_spec D V" "kni_spec D V" "lpm_spec D R" and ok: "engine_ok s" and i: "i < KNI_KTHREAD"
    and p: "fw_ready p" and tbl: "lpm_tbl (fw s) = Some tbl"
  shows "okp (\<lambda>t. prefix (nf_tx_sink V i t @ nf_tx_stage i t)
      (nf_tx_sink V i s @ nf_tx_stage i s @ filter (\<lambda>p. \<not> fw_blocked (R tbl) p) [p]))
    (coprocess_packet D i p s)"
proof -
  let ?s = "s\<lparr>fw := bump_total (fw s)\<rparr>"
  from p tbl obtain r where r: "process_packet D p (fw s) = Ok (r, bump_total (fw s))"
    by (rule process_packet_ready [of p "fw s" tbl D])
  have same: "nf_tx_sink V i ?s = nf_tx_sink V i s" "nf_tx_stage i ?s = nf_tx_stage i s"
    by (simp_all add: nf_tx_sink_def nf_tx_stage_def)
  show ?thesis
  proof (cases "r = 0")
    case True
    with process_packet_blocked [OF specs(3) p tbl] r have "\<not> fw_blocked (R tbl) p" by auto
    moreover have "switch_ok D V i ?s" using specs i ok by (simp add: switch_ok_def engine_ok_def)
    from nf_tx_queue.enq_accounted [OF this, of p]
    have "okp (\<lambda>t. prefix (nf_tx_sink V i t @ nf_tx_stage i t) (nf_tx_sink V i s @ nf_tx_stage i s @ [p]))
        (enqueue_nf_tx D p (word_of_nat i) ?s)"
      by (rule okp_mono) (simp add: same)
    ultimately show ?thesis using True by (simp add: coprocess_packet_def r Let_def)
  next
    case False
    then show ?thesis
      by (simp add: coprocess_packet_def r Let_def nf_tx_sink_def nf_tx_stage_def)
  qed
qed

lemma coprocess_burst_filters:
  assumes specs: "ring_spec D V" "kni_spec D V" "lpm_spec D R" and ok: "engine_ok s" and i: "i < KNI_KTHREAD"
    and ps: "\<forall>p \<in> set ps. fw_ready p" and tbl: "lpm_tbl (fw s) = Some tbl"
  shows "okp (\<lambda>t. engine_ok t \<and> lpm_tbl (fw t) = Some tbl \<and> subseq (nf_tx_sink V i t @ nf_tx_stage i t)
      (nf_tx_sink V i s @ nf_tx_stage i s @ filter (\<lambda>p. \<not> fw_blocked (R tbl) p) ps))
    (rfold (coprocess_packet D i) ps s)"
proof (rule rfold_okp [where P = "\<lambda>ys t. engine_ok t \<and> lpm_tbl (fw t) = Some tbl \<and>
      subseq (nf_tx_sink V i t @ nf_tx_stage i t)
        (nf_tx_sink V i s @ nf_tx_stage i s @ filter (\<lambda>p. \<not> fw_blocked (R tbl) p) ys)"])
  fix ys y zs and t :: "('a, 'b, 'c) engine"
  let ?out = "\<lambda>u. nf_tx_sink V i u @ nf_tx_stage i u" and ?keep = "filter (\<lambda>p. \<not> fw_blocked (R tbl) p)"
  assume split: "ps = ys @ y # zs" and t: "engine_ok t \<and> lpm_tbl (fw t) = Some tbl \<and>
    subseq (?out t) (nf_tx_sink V i s @ nf_tx_stage i s @ ?keep ys)"
  from split ps have y: "fw_ready y" by simp
  from t have "subseq (?out t @ ?keep [y]) ((nf_tx_sink V i s @ nf_tx_stage i s @ ?keep ys) @ ?keep [y])"
    by (intro list_emb_append_mono [of _ "?out t"]) auto
  then have "subseq (?out u) (nf_tx_sink V i s @ nf_tx_stage i s @ ?keep (ys @ [y]))"
    if "prefix (?out u) (nf_tx_sink V i t @ nf_tx_stage i t @ ?keep [y])" for u
    using prefix_imp_subseq [OF that] by (auto elim: subseq_order.trans)
  with t show "okp (\<lambda>u. engine_ok u \<and> lpm_tbl (fw u) = Some tbl \<and>
      subseq (?out u) (nf_tx_sink V i s @ nf_tx_stage i s @ ?keep (ys @ [y]))) (coprocess_packet D i y t)"
    using okp_conj [OF coprocess_packet_absorbs [OF specs(1,2) _ i y, of t tbl]
        coprocess_packet_filters [OF specs _ i y, of t tbl]]
    by (auto simp: absorbs_def simp del: filter.simps elim!: okp_mono)
qed (use ok tbl in simp)

section \<open>Properties\<close>

text \<open>
  C3: a round of the fast path never fails (no access outside an array, no NULL pointer),
  keeps the engine well-formed, and conserves packets: what the engine holds, has delivered to an
  interface or has released afterwards is what it had before plus exactly what it received.
\<close>

theorem fastpath_conserves_packets:
  assumes "ring_spec D V" and "kni_spec D V" and "engine_ok s"
    and "unat nb_kni \<le> KNI_KTHREAD" and "unat nb_coproc \<le> KNI_KTHREAD"
  shows "okp (\<lambda>t. engine_ok t \<and> balance V t + received V s = balance V s + received V t)
    (fastpath D disable_nf nb_kni nb_coproc s)"
  using fastpath_step [OF assms] by (rule okp_mono) (simp add: conserves_def)

theorem fastpath_conserves_packets_witness:
  "okp (\<lambda>t. engine_ok t \<and> balance list_view t + received list_view (sample_engine [sample_packet] []) =
       balance list_view (sample_engine [sample_packet] []) + received list_view t)
    (fastpath list_dpdk False 5 5 (sample_engine [sample_packet] []))"
  using fastpath_conserves_packets [OF list_ring_spec list_kni_spec sample_engine_ok, of 5 5 _ _ False]
  by (simp add: KNI_KTHREAD_def)

text \<open>
  C4: a round of a coprocessor never fails when the packets in its ring have both headers and
  IP version 4 and the rule table exists; it keeps the engine well-formed and conserves packets.
\<close>

theorem coprocessor_conserves_packets:
  assumes "ring_spec D V" and "kni_spec D V" and "engine_ok s" and "i < KNI_KTHREAD"
    and "\<forall>p \<in> set (ring_held V (rx_q (nf s ! i))). fw_ready p" and "lpm_tbl (fw s) = Some tbl"
  shows "okp (\<lambda>t. engine_ok t \<and> balance V t + received V s = balance V s + received V t)
    (coprocessor D i s)"
  using coprocessor_step [OF assms] by (rule okp_mono) (simp add: conserves_def)

theorem coprocessor_conserves_packets_witness:
  "okp (\<lambda>t. engine_ok t \<and> balance list_view t + received list_view (sample_engine [] [sample_packet]) =
       balance list_view (sample_engine [] [sample_packet]) + received list_view t)
    (coprocessor list_dpdk 2 (sample_engine [] [sample_packet]))"
  by (rule coprocessor_conserves_packets [OF list_ring_spec list_kni_spec sample_engine_ok, where tbl = sample_table])
    (simp_all add: sample_engine_def engine0_def KNI_KTHREAD_def ring_held_def list_view_def sample_packet_ready)

text \<open>
  C19: after a round of the fast path no packet waits in a staging buffer of a port or in one
  towards a coprocessor: every packet received in the round is in a ring, delivered or released.
\<close>

theorem fastpath_leaves_nothing_staged:
  assumes specs: "ring_spec D V" "kni_spec D V" and "engine_ok s"
    and n: "unat nb_kni \<le> KNI_KTHREAD" "unat nb_coproc \<le> KNI_KTHREAD"
  shows "okp (\<lambda>t. (\<forall>i < unat nb_kni. staged (mgr_bufs (tx_mgr t) ! i) = []) \<and>
      (\<forall>i < unat nb_coproc. staged (nf_rx (nf t ! i)) = []))
    (fastpath D disable_nf nb_kni nb_coproc s)"
proof -
  let ?empty = "\<lambda>t. (\<forall>i < unat nb_kni. port_stage i t = []) \<and> (\<forall>i < unat nb_coproc. nf_rx_stage i t = [])"
  have flush: "okp (\<lambda>t. conserves V u t \<and> ?empty t) (flush_all D nb_kni nb_coproc u)" if "engine_ok u" for u
    by (rule okp_conj [OF flush_all_conserves [OF specs that n] flush_all_empty [OF specs that n]])
  have ports: "okp (conserves V s) (rfold (fastpath_port D disable_nf) [0..<unat nb_kni] s)"
    using assms by (intro rfold_conserves) (auto intro!: fastpath_port_conserves)
  have coprocs: "okp (conserves V u) (rfold (fastpath_coproc D) [0..<unat nb_coproc] u)" if "engine_ok u" for u
    using assms that by (intro rfold_conserves) (auto intro!: fastpath_coproc_conserves)
  have second: "okp (\<lambda>x. okp ?empty (flush_all D nb_kni nb_coproc x)) (rfold (fastpath_coproc D) [0..<unat nb_coproc] u)"
    if "engine_ok u" for u
    using coprocs [OF that]
    by (rule okp_mono) (rule okp_mono [OF flush], erule conserves_ok, simp)
  have "okp ?empty (if disable_nf then Ok x
      else rbind (rfold (fastpath_coproc D) [0..<unat nb_coproc] x) (flush_all D nb_kni nb_coproc))"
    if "conserves V u x \<and> ?empty x" for u x
    using that second [of x] conserves_ok [of V u x] by simp
  then have first: "okp ?empty (rbind (flush_all D nb_kni nb_coproc u) (\<lambda>s2. if disable_nf then Ok s2
      else rbind (rfold (fastpath_coproc D) [0..<unat nb_coproc] s2) (flush_all D nb_kni nb_coproc)))"
    if "engine_ok u" for u
    unfolding okp_rbind by (rule okp_mono [OF flush [OF that]])
  have "okp ?empty (fastpath D disable_nf nb_kni nb_coproc s)"
    unfolding fastpath_def okp_rbind [of _ "rfold (fastpath_port D disable_nf) [0..<unat nb_kni] s"]
    by (rule okp_mono [OF ports]) (rule first, erule conserves_ok)
  then show ?thesis by (simp add: port_stage_def nf_rx_stage_def)
qed

theorem fastpath_leaves_nothing_staged_witness:
  "okp (\<lambda>t. (\<forall>i < unat (5 :: u32). staged (mgr_bufs (tx_mgr t) ! i) = []) \<and>
       (\<forall>i < unat (5 :: u32). staged (nf_rx (nf t ! i)) = []))
    (fastpath list_dpdk False 5 5 (sample_engine [sample_packet] [sample_packet]))"
  by (rule fastpath_leaves_nothing_staged [OF list_ring_spec list_kni_spec sample_engine_ok])
    (simp_all add: KNI_KTHREAD_def)

text \<open>
  C8: what a coprocessor puts into its outgoing ring is, in the order of arrival, a
  subsequence of the packets of its incoming ring whose longest matching rule does not block them:
  no blocked packet passes, and packets are not reordered or invented.
\<close>

theorem coprocessor_filters_in_order:
  assumes specs: "ring_spec D V" "kni_spec D V" "lpm_spec D R" and ok: "engine_ok s" and i: "i < KNI_KTHREAD"
    and ready: "\<forall>p \<in> set (ring_held V (rx_q (nf s ! i))). fw_ready p" and tbl: "lpm_tbl (fw s) = Some tbl"
  shows "okp (\<lambda>t. subseq (ring_held V (tx_q (nf t ! i)))
      (ring_held V (tx_q (nf s ! i)) @ staged (nf_tx (nf s ! i)) @
       filter (\<lambda>p. \<not> fw_blocked (R tbl) p) (ring_held V (rx_q (nf s ! i))))) (coprocessor D i s)"
proof -
  note okD = engine_okD [OF ok]
  from okD(4,5) i have nfi: "nf_ok (nf s ! i)" by (simp add: list_all_nthD)
  then obtain r where r: "rx_q (nf s ! i) = Some r" by (auto simp: nf_ok_def)
  obtain ps r' where deq: "rte_ring_dequeue_burst D r (word_of_nat PKT_BURST_SZ) = (ps, r')" by fastforce
  let ?s1 = "s\<lparr>nf := (nf s)[i := (nf s ! i)\<lparr>rx_q := Some r'\<rparr>]\<rparr>"
  let ?out = "\<lambda>u. nf_tx_sink V i u @ nf_tx_stage i u" and ?keep = "filter (\<lambda>p. \<not> fw_blocked (R tbl) p)"
  from ring_dequeue(2) [OF specs(1) deq] r have ring: "ring_held V (rx_q (nf s ! i)) = ps @ ring_items V r'"
    by (simp add: ring_held_def)
  from ok nfi have ok1: "engine_ok ?s1" by (simp add: engine_ok_def nf_ok_def list_all_update)
  have out1: "nf_tx_sink V i ?s1 = nf_tx_sink V i s" "nf_tx_stage i ?s1 = nf_tx_stage i s"
    using i okD(4) by (simp_all add: nf_tx_sink_def nf_tx_stage_def)
  have round: "coprocessor D i s = rbind (rfold (coprocess_packet D i) ps ?s1) (flush_nf_tx_queue D (word_of_nat i))"
    using i okD(4) r deq by (simp add: coprocessor_def Let_def)
  have sub: "subseq (nf_tx_sink V i s @ nf_tx_stage i s @ ?keep ps)
      (nf_tx_sink V i s @ nf_tx_stage i s @ ?keep (ring_held V (rx_q (nf s ! i))))"
    by (simp add: ring prefix_imp_subseq)
  have burst: "okp (\<lambda>t. engine_ok t \<and> lpm_tbl (fw t) = Some tbl \<and>
      subseq (?out t) (nf_tx_sink V i s @ nf_tx_stage i s @ ?keep ps)) (rfold (coprocess_packet D i) ps ?s1)"
    using coprocess_burst_filters [OF specs ok1 i, of ps tbl] ready tbl ring by (simp add: out1)
  have "okp (\<lambda>t. subseq (nf_tx_sink V i t) (nf_tx_sink V i s @ nf_tx_stage i s @ ?keep ps))
      (rbind (rfold (coprocess_packet D i) ps ?s1) (flush_nf_tx_queue D (word_of_nat i)))"
    unfolding okp_rbind using burst
  proof (rule okp_mono, elim conjE)
    fix t :: "('a, 'b, 'c) engine"
    assume "engine_ok t" and t: "subseq (?out t) (nf_tx_sink V i s @ nf_tx_stage i s @ ?keep ps)"
    with specs i have "switch_ok D V i t" by (simp add: switch_ok_def)
    from nf_tx_queue.flush_accounted [OF this]
    show "okp (\<lambda>t. subseq (nf_tx_sink V i t) (nf_tx_sink V i s @ nf_tx_stage i s @ ?keep ps))
        (flush_nf_tx_queue D (word_of_nat i) t)"
      by (rule okp_mono, elim conjE) (rule subseq_order.trans [OF prefix_imp_subseq t])
  qed
  then have "okp (\<lambda>t. subseq (nf_tx_sink V i t)
      (nf_tx_sink V i s @ nf_tx_stage i s @ ?keep (ring_held V (rx_q (nf s ! i))))) (coprocessor D i s)"
    unfolding round by (rule okp_mono) (rule subseq_order.trans [OF _ sub])
  then show ?thesis by (simp add: nf_tx_sink_def nf_tx_stage_def)
qed

theorem coprocessor_filters_in_order_witness:
  "okp (\<lambda>t. subseq (ring_held list_view (tx_q (nf t ! 2)))
      (ring_held list_view (tx_q (nf (sample_engine [] [sample_packet]) ! 2)) @
       staged (nf_tx (nf (sample_engine [] [sample_packet]) ! 2)) @
       filter (\<lambda>p. \<not> fw_blocked (map_of sample_table) p)
         (ring_held list_view (rx_q (nf (sample_engine [] [sample_packet]) ! 2)))))
    (coprocessor list_dpdk 2 (sample_engine [] [sample_packet]))"
  by (rule coprocessor_filters_in_order [OF list_ring_spec list_kni_spec list_lpm_spec sample_engine_ok])
    (simp_all add: sample_engine_def engine0_def KNI_KTHREAD_def ring_held_def list_view_def sample_packet_ready)

text \<open>
  C20: the turn of the switch for coprocessor \<open>i\<close> takes a burst from the front of the ring of that
  coprocessor and hands it to port \<open>i\<close>.  The packets come behind those already with the interface
  or in its buffer, in the order in which the coprocessor sent them, and a packet of the burst that
  is not there was released.  An interface that accepts every burst gets all of them, and nothing
  is released.  The other ports and the other rings are left alone.
\<close>

theorem fastpath_coproc_in_order:
  assumes specs: "ring_spec D V" "kni_spec D V" and ok: "engine_ok s" and i: "i < KNI_KTHREAD"
    and r: "tx_q (nf s ! i) = Some r" and deq: "rte_ring_dequeue_burst D r (word_of_nat PKT_BURST_SZ) = (ps, r')"
  shows "okp (\<lambda>t. tx_q (nf t ! i) = Some r' \<and>
      subseq (port_sink V i t @ port_stage i t) (port_sink V i s @ port_stage i s @ ps) \<and>
      mset (port_sink V i t) + mset (port_stage i t) + mset (freed t) =
        mset (port_sink V i s) + mset (port_stage i s) + mset (freed s) + mset ps \<and>
      (kni_accepts D \<longrightarrow>
         port_sink V i t @ port_stage i t = port_sink V i s @ port_stage i s @ ps \<and> freed t = freed s) \<and>
      (\<forall>j. j \<noteq> i \<longrightarrow> port_sink V j t = port_sink V j s \<and> port_stage j t = port_stage j s \<and> nf t ! j = nf s ! j))
    (fastpath_coproc D i s)"
proof -
  note okD = engine_okD [OF ok]
  from okD(4,5) i have nfi: "nf_ok (nf s ! i)" by (simp add: list_all_nthD)
  let ?s1 = "s\<lparr>nf := (nf s)[i := (nf s ! i)\<lparr>tx_q := Some r'\<rparr>]\<rparr>"
  from ok nfi have "engine_ok ?s1" by (simp add: engine_ok_def nf_ok_def list_all_update)
  with specs i have ok1: "switch_ok D V i ?s1" by (simp add: switch_ok_def)
  have same: "port_sink V j ?s1 = port_sink V j s" "port_stage j ?s1 = port_stage j s" "freed ?s1 = freed s" for j
    by (simp_all add: port_sink_def port_stage_def)
  have turn: "fastpath_coproc D i s = rfold (\<lambda>p. enqueue_port D p (word_of_nat i)) ps ?s1"
    using i okD(4) r deq by (simp add: fastpath_coproc_def Let_def)
  have all: "okp (\<lambda>t. kni_accepts D \<longrightarrow>
      port_sink V i t @ port_stage i t = port_sink V i s @ port_stage i s @ ps \<and> freed t = freed s) (fastpath_coproc D i s)"
  proof (cases "kni_accepts D")
    case True
    with ok1 have "switch_ok D V i ?s1 \<and> kni_accepts D" by simp
    from accepting_port.burst_delivered [OF this, of ps] show ?thesis
      unfolding turn by (rule okp_mono) (simp add: same)
  next
    case False
    from port.burst_accounted [OF ok1, of ps] show ?thesis unfolding turn by (rule okp_mono) (simp add: False)
  qed
  from okp_conj [OF port.burst_accounted [OF ok1, of ps, folded turn] all] show ?thesis
  proof (rule okp_mono, elim conjE)
    fix t
    assume "(port_blank i t, received V t) = (port_blank i ?s1, received V ?s1)"
    then have blank: "port_blank i t = port_blank i ?s1" by simp
    have others: "\<forall>j. j \<noteq> i \<longrightarrow> port_sink V j t = port_sink V j s \<and> port_stage j t = port_stage j s \<and> nf t ! j = nf s ! j"
      using port_others [OF blank] port_rest(1) [OF blank] by (simp add: same)
    have "tx_q (nf t ! i) = Some r'" using port_rest(1) [OF blank] i okD(4) by simp
    moreover assume "subseq (port_sink V i t @ port_stage i t) (port_sink V i ?s1 @ port_stage i ?s1 @ ps)"
      "mset (port_sink V i t) + mset (port_stage i t) + mset (freed t) =
        mset (port_sink V i ?s1) + mset (port_stage i ?s1) + mset (freed ?s1) + mset ps"
      "kni_accepts D \<longrightarrow>
         port_sink V i t @ port_stage i t = port_sink V i s @ port_stage i s @ ps \<and> freed t = freed s"
    ultimately show "tx_q (nf t ! i) = Some r' \<and>
      subseq (port_sink V i t @ port_stage i t) (port_sink V i s @ port_stage i s @ ps) \<and>
      mset (port_sink V i t) + mset (port_stage i t) + mset (freed t) =
        mset (port_sink V i s) + mset (port_stage i s) + mset (freed s) + mset ps \<and>
      (kni_accepts D \<longrightarrow>
         port_sink V i t @ port_stage i t = port_sink V i s @ port_stage i s @ ps \<and> freed t = freed s) \<and>
      (\<forall>j. j \<noteq> i \<longrightarrow> port_sink V j t = port_sink V j s \<and> port_stage j t = port_stage j s \<and> nf t ! j = nf s ! j)"
      unfolding same by (intro conjI others) simp_all
  qed
qed

text \<open>A DPDK whose interfaces accept everything.\<close>

definition roomy_dpdk :: "(rte_mbuf list, list_kni, list_lpm) dpdk" where
  "roomy_dpdk = list_dpdk\<lparr>rte_kni_tx_burst :=
     (\<lambda>k ps. if length ps < 2 ^ 32 then (word_of_nat (length ps), k\<lparr>lk_outbox := lk_outbox k @ ps\<rparr>) else (0, k))\<rparr>"

lemma roomy_specs: "ring_spec roomy_dpdk list_view" "kni_spec roomy_dpdk list_view" "kni_accepts roomy_dpdk"
proof -
  show "ring_spec roomy_dpdk list_view" using list_ring_spec by (simp add: ring_spec_def roomy_dpdk_def)
  show "kni_spec roomy_dpdk list_view" using list_kni_spec
    by (auto simp: kni_spec_def roomy_dpdk_def unat_of_nat list_view_def)
  show "kni_accepts roomy_dpdk" by (simp add: kni_accepts_def roomy_dpdk_def unat_of_nat PKT_BURST_SZ_def)
qed

theorem fastpath_coproc_in_order_witness:
  "okp (\<lambda>t. port_sink list_view 3 t @ port_stage 3 t = [sample_packet] \<and> freed t = [])
    (fastpath_coproc roomy_dpdk 3 (sample_engine [] [sample_packet]))"
proof -
  let ?s = "sample_engine [] [sample_packet]"
  have s: "(3::nat) < KNI_KTHREAD" "tx_q (nf ?s ! 3) = Some [sample_packet]"
    "rte_ring_dequeue_burst roomy_dpdk [sample_packet] (word_of_nat PKT_BURST_SZ) = ([sample_packet], [])"
    and new: "port_sink list_view 3 ?s = []" "port_stage 3 ?s = []" "freed ?s = []"
    by (simp_all add: sample_engine_def engine0_def KNI_KTHREAD_def roomy_dpdk_def list_dpdk_def PKT_BURST_SZ_def
        port_sink_def port_stage_def list_view_def)
  from fastpath_coproc_in_order [OF roomy_specs(1,2) sample_engine_ok s] show ?thesis
    by (rule okp_mono) (use roomy_specs(3) new in simp)
qed

text \<open>
  C21: flushing the queue of a port delivers a prefix of it and releases the rest, and the
  counters say how many: \<^verbatim>\<open>tx_packets\<close> grows by the number delivered, \<^verbatim>\<open>tx_dropped\<close> by the
  number released (both modulo \<open>2 ^ 64\<close>).
\<close>

theorem flush_port_counts:
  assumes kni: "kni_spec D V" and ok: "engine_ok s" and i: "i < KNI_KTHREAD"
  shows "okp (\<lambda>t. \<exists>n. n \<le> length (port_stage i s) \<and>
      port_sink V i t = port_sink V i s @ take n (port_stage i s) \<and>
      freed t = freed s @ drop n (port_stage i s) \<and> port_stage i t = [] \<and>
      k_tx_packets (kni_stats t ! i) = k_tx_packets (kni_stats s ! i) + word_of_nat n \<and>
      k_tx_dropped (kni_stats t ! i) =
        k_tx_dropped (kni_stats s ! i) + word_of_nat (length (port_stage i s) - n))
    (flush_port_queue D (word_of_nat i) s)"
proof -
  note okD = engine_okD [OF ok]
  from okD(1) obtain bufs where bufs: "mgr_tx (tx_mgr s) = Live bufs" "length bufs = KNI_KTHREAD"
    "list_all buf_ok bufs" by blast
  let ?b = "bufs ! i"
  from bufs i have b: "buf_ok ?b" by (simp add: list_all_nthD)
  from okD(6,7) i obtain k where k: "kni_list s ! i = Some k" by (auto dest: list_all_nthD)
  have act: "\<not> ucast (nb_active_kni (tx_mgr s)) \<le> (word_of_nat i :: u32)"
    by (rule port_active [OF okD(2) i])
  have stage: "port_stage i s = staged ?b" by (simp add: port_stage_def bufs)
  show ?thesis
  proof (cases "pb_count ?b = 0")
    case True
    with act bufs i b show ?thesis by (simp add: flush_port_queue_def stage staged_nil_iff)
  next
    case False
    obtain n k' where tx: "rte_kni_tx_burst D k (staged ?b) = (n, k')" by fastforce
    note tx' = kni_tx [OF kni tx]
    from b have cnt: "unat (pb_count ?b) < PKT_BURST_SZ" "length (pb_buffer ?b) = PKT_BURST_SZ"
      by (simp_all add: buf_ok_def)
    have rel: "release_unsent (ucast n) ?b fr = fr @ drop (unat n) (staged ?b)" for fr
      by (rule release_unsent_eq [OF tx'(1)]) (use cnt in simp_all)
    from tx'(1) b cnt have n: "unat n \<le> unat (pb_count ?b)" "unat n \<le> PKT_BURST_SZ" by simp_all
    have w: "(ucast (ucast n :: u16) :: u64) = word_of_nat (unat n)"
      using ucast_sent [OF n(2)] by (metis of_nat_unat)
    have d: "ucast (pb_count ?b) - word_of_nat (unat n) = (word_of_nat (unat (pb_count ?b) - unat n) :: u64)"
      using n(1) by (simp add: of_nat_diff del: of_nat_unat) (simp add: of_nat_unat)
    from act bufs i k okD(6,8) tx False cnt tx' b show ?thesis
      by (simp add: flush_port_queue_def rel Let_def w d stage port_stage_def port_sink_def del: of_nat_unat)
        (intro exI [of _ "unat n"], simp)
  qed
qed

theorem flush_port_counts_witness:
  "\<exists>n. n \<le> length (port_stage 0 sample_staged) \<and>
     okp (\<lambda>t. k_tx_packets (kni_stats t ! 0) = k_tx_packets (kni_stats sample_staged ! 0) + word_of_nat n)
       (flush_port_queue list_dpdk (word_of_nat 0) sample_staged)"
  using flush_port_counts [OF list_kni_spec sample_staged_ok, of 0]
  by (auto simp: KNI_KTHREAD_def okp_iff)

lemma next_hop_eq:
  assumes "init D engine0 = Ok (0, s)"
    and "rd16_be p 12 = Ok 0x0800" and "rd32_be p (ether_hdr_len + 16) = Ok dst"
  shows "get_next_hop s p = Ok
    (let a = (ucast dst :: u16) in
     if 0x0A01 \<le> a \<and> a \<le> 0x0A05 then ucast (a - 0x0A01) else if a < 5 then UNKNOWN_PORT else 0)"
  using init_routes [OF assms(1)] assms(2,3)
  by (simp add: get_next_hop_def Let_def configured_route_def UNKNOWN_PORT_def ucast_low_16)

text \<open>
  After initialisation, an IPv4 packet is routed by the low 16 bits of its destination
  alone: 10.1 to 10.5 go to ports 0 to 4, 0.0 to 0.4 have no route, and every other destination
  goes to port 0.
\<close>

theorem next_hop_after_init:
  assumes "init D engine0 = Ok (0, s)"
    and "rd16_be p 12 = Ok 0x0800" and "rd32_be p (ether_hdr_len + 16) = Ok dst"
  shows "get_next_hop s p = Ok
    (let a = (ucast dst :: u16) in
     if 0x0A01 \<le> a \<and> a \<le> 0x0A05 then ucast (a - 0x0A01) else if a < 5 then UNKNOWN_PORT else 0)"
  by (rule next_hop_eq [OF assms])

theorem next_hop_after_init_witness:
  "\<exists>s. init list_dpdk engine0 = Ok (0, s) \<and>
     get_next_hop s (ip_packet 0x45 [10, 0, 0, 1] [192, 167, 10, 3]) = Ok 2 \<and>
     get_next_hop s (ip_packet 0x45 [10, 0, 0, 1] [8, 8, 8, 8]) = Ok 0"
proof -
  obtain s where s: "init list_dpdk engine0 = Ok (0, s)" using init_list_dpdk by blast
  have hdr: "rd16_be (ip_packet 0x45 [10, 0, 0, 1] dst) 12 = Ok 0x0800" for dst
    by (simp add: ip_packet_def rd16_be_def rd8_def nth_append)
  have dst: "rd32_be (ip_packet 0x45 [10, 0, 0, 1] [a, b, c, d]) (ether_hdr_len + 16) =
      Ok (push_bit 24 (ucast a) OR push_bit 16 (ucast b) OR push_bit 8 (ucast c) OR ucast d)" for a b c d
    by (simp add: ip_packet_def rd32_be_def rd8_def nth_append ether_hdr_len_def)
  show ?thesis
    using s next_hop_after_init [OF s hdr dst, of 192 167 10 3] next_hop_after_init [OF s hdr dst, of 8 8 8 8]
    by (intro exI [of _ s]) (simp add: Let_def)
qed

end
