(* ===== verification/Fw_Config.thy ===== *)
theory Fw_Config
  imports Fw_Rules
begin

text \<open>
  The properties of the rule file: what reaches the parser, what goes wrong with long lines and
  with one-byte files, the rules of a well-formed file, and the rules of the file
  \<^verbatim>\<open>nfs/firewall/rules.json\<close> of the engine, computed by running the model of the parser on its
  bytes.
\<close>

section \<open>The parser on the rule file\<close>

lemma saturate_nat: "n < 2147483647 \<Longrightarrow> saturate (dec_to_dbl False n 0) = int n"
  using dec_to_dbl_nat [of n False] by (simp add: saturate_def INT_MAX_def INT_MIN_def)

lemmas json_eval =
  cJSON_Parse_def cJSON_ParseWithOpts_def start_buffer_def cbytes_def cJSON_New_Item_def allocate_def
  skip_utf8_bom_def can_access_at_index_def strncmp_at_def can_read_def buffer_skip_whitespace_def Let_def
  sees_literal_def sees_def sees_number_def buffer_at_def idx_def parse_object_def bracketed_def loop_end_def
  parse_string_def parse_string_bytes_def emit_def simple_escape_def unescape_step_def parse_value.simps
  scan_string.simps unescape.simps CJSON_NESTING_LIMIT_def take_name_def fields0_def leaf_def
  parse_number_def number_char_def strtod_def take_sign_def take_exp_def is_dig_def digs_val_def
  dig_val_def cJSON_types

definition json_number :: "string \<Rightarrow> nat \<Rightarrow> cJSON" where
  "json_number nm n =
     CJSON \<lparr>jtype = cJSON_Number, valuestring = None, valueint = int n, valuedouble = dec_to_dbl False n 0,
            jstring = Some (bytes_of nm)\<rparr> []"

definition json_text :: "string \<Rightarrow> string \<Rightarrow> cJSON" where
  "json_text nm s =
     CJSON \<lparr>jtype = cJSON_String, valuestring = Some (bytes_of s), valueint = 0, valuedouble = dbl0,
            jstring = Some (bytes_of nm)\<rparr> []"

definition json_object :: "u8 list option \<Rightarrow> cJSON list \<Rightarrow> cJSON" where
  "json_object nm cs =
     CJSON \<lparr>jtype = cJSON_Object, valuestring = None, valueint = 0, valuedouble = dbl0, jstring = nm\<rparr> cs"

definition rule_entry :: "string \<Rightarrow> string \<Rightarrow> nat \<Rightarrow> nat \<Rightarrow> cJSON" where
  "rule_entry nm ip d a =
     json_object (Some (bytes_of nm)) [json_text ''ip'' ip, json_number ''depth'' d, json_number ''action'' a]"

definition rules_tree :: cJSON where
  "rules_tree = json_object None [rule_entry ''rule1'' ''192.167.10.0'' 24 0, rule_entry ''rule2'' ''10.11.1.16'' 32 0]"

lemmas json_trees = json_number_def json_text_def json_object_def rule_entry_def bytes_of_def

lemma rules_json_parsed:
  "rbind (cJSON_Parse (\<lambda>_. True) (Some rules_json) 0) (\<lambda>r. Ok (out_item r)) = Ok (Some rules_tree)"
  by (simp add: json_eval rules_json_def saturate_nat rules_tree_def json_trees)

lemma rule_entry_describes:
  assumes "ip = fw_pkt_parse_char_ip (src_ip r)" and "d = unat (depth r)" and "a = unat (action r)"
    and "0 \<notin> set (bytes_of ip)" and "text_of (bytes_of ip) = ip"
  shows "describes r (rule_entry nm ip d a)"
  using assms
  by (simp add: describes_def json_trees cJSON_GetObjectItem_def get_object_item_def Let_def
      case_insensitive_strcmp_def cbytes_def tolower8_def)

section \<open>The rules of the file\<close>

definition sample_env :: rule_env where
  "sample_env =
     \<lparr>files = (\<lambda>_. Some rules_json), buf_malloc = True, json_hooks = (\<lambda>_. True), array_malloc = True,
      rule_malloc = (\<lambda>_. True), junk = (\<lambda>_. \<lparr>src_ip = 0xDEADBEEF, depth = 0xFF, action = 0xFF\<rparr>)\<rparr>"

definition shipped_rules :: "fw_rule list" where
  "shipped_rules =
     [\<lparr>src_ip = 0xC0A70A00, depth = 24, action = 0\<rparr>, \<lparr>src_ip = 0x0A0B0110, depth = 32, action = 0\<rparr>]"

lemma shipped_numbers:
  "dec_nat 0 = ''0''" "dec_nat (Suc 0) = ''1''" "dec_nat 10 = ''10''" "dec_nat 11 = ''11''" "dec_nat 16 = ''16''"
  "dec_nat 167 = ''167''" "dec_nat 192 = ''192''"
  by (simp_all add: dec_nat.simps digit_char_def char_of_eq_iff)

lemma shipped_texts:
  "fw_pkt_parse_char_ip 0xC0A70A00 = ''192.167.10.0''" "fw_pkt_parse_char_ip 0x0A0B0110 = ''10.11.1.16''"
  by (simp_all add: fw_pkt_parse_char_ip_def snprintf_trunc_def shipped_numbers)

lemma rules_tree_describes: "list_all2 describes shipped_rules (child rules_tree)"
proof -
  have "text_of (bytes_of ''192.167.10.0'') = ''192.167.10.0''" "text_of (bytes_of ''10.11.1.16'') = ''10.11.1.16''"
    "0 \<notin> set (bytes_of ''192.167.10.0'')" "0 \<notin> set (bytes_of ''10.11.1.16'')"
    by (simp_all add: text_of_def bytes_of_def cbytes_def char_of_eq_iff)
  then show ?thesis
    by (simp add: rules_tree_def json_object_def shipped_rules_def rule_entry_describes shipped_texts)
qed

lemma parse_file_text:
  assumes "files env (cstr nm) = Some text" and "cstr nm \<noteq> []" and "buf_malloc env"
    and "2 \<le> length text" and "0 \<notin> set text" and "longest_line 0 text < TEMP_BUF"
  shows "fw_config_parse_file env (Some nm) =
    Some (rbind (cJSON_Parse (json_hooks env) (Some text) 0) (\<lambda>r. Ok (out_item r)))"
proof -
  have "read_lines (int (length text)) text [] = Some (Ok ([] @ text))"
    by (rule read_lines_copies) (use assms in auto)
  with assms show ?thesis by (simp add: fw_config_parse_file_def Let_def)
qed

lemma setup_rules_described:
  assumes "fw_config_parse_file env f = Some (Ok (Some js))" and "list_all2 describes rs (child js)"
    and "array_malloc env" and "\<forall>i. rule_malloc env i"
  shows "setup_rules env f = Some (Ok (Live (map Some rs), int (length rs)))"
  using assms rules_loop_describes [OF assms(2-4), of 0] list_all2_lengthD [OF assms(2)]
  by (simp add: setup_rules_def fw_config_get_item_count_def)

lemma shipped_file_facts: "0 \<notin> set rules_json" "longest_line 0 rules_json < TEMP_BUF" "2 \<le> length rules_json"
  by (simp_all add: rules_json_def TEMP_BUF_def)

lemma setup_rules_shipped:
  assumes "files env (cstr nm) = Some rules_json" and "cstr nm \<noteq> []" and "buf_malloc env"
    and "json_hooks env = (\<lambda>_. True)" and "array_malloc env" and "\<forall>i. rule_malloc env i"
  shows "setup_rules env (Some nm) = Some (Ok (Live (map Some shipped_rules), 2))"
proof -
  have "fw_config_parse_file env (Some nm) = Some (Ok (Some rules_tree))"
    using parse_file_text [OF assms(1-3)] shipped_file_facts rules_json_parsed assms(4) by simp
  from setup_rules_described [OF this rules_tree_describes assms(5,6)] show ?thesis
    by (simp add: shipped_rules_def)
qed

section \<open>Properties\<close>

text \<open>
  C26: the text of a readable rule file of at least two bytes without NUL bytes and with
  lines of at most 254 bytes reaches the parser unchanged, and the call returns without touching
  memory outside its buffers.
\<close>

theorem config_file_parsed:
  assumes "files env (cstr nm) = Some text" and "cstr nm \<noteq> []" and "buf_malloc env"
    and "2 \<le> length text" and "0 \<notin> set text" and "longest_line 0 text \<le> 254"
  shows "fw_config_parse_file env (Some nm) =
    Some (rbind (cJSON_Parse (json_hooks env) (Some text) 0) (\<lambda>r. Ok (out_item r)))"
  using parse_file_text [OF assms(1-5)] assms(6) by (simp add: TEMP_BUF_def)

theorem config_file_parsed_witness:
  "fw_config_parse_file sample_env (Some ''rules.json'') =
     Some (rbind (cJSON_Parse (\<lambda>_. True) (Some rules_json) 0) (\<lambda>r. Ok (out_item r)))"
  using config_file_parsed [of sample_env "''rules.json''" rules_json] shipped_file_facts
  by (simp add: sample_env_def cstr_def TEMP_BUF_def)

text \<open>
  C27: a file of at least 256 bytes whose first line has 255 bytes or more makes the call
  write behind the line buffer: \<^verbatim>\<open>fgets\<close> gets the size of the file, not of the buffer.
\<close>

theorem config_long_line_overflow:
  assumes "files env (cstr nm) = Some text" and "cstr nm \<noteq> []" and "buf_malloc env"
    and "256 \<le> length text" and "255 \<le> length (takeWhile (\<lambda>c. c \<noteq> 10) text)"
  shows "fw_config_parse_file env (Some nm) = Some (Err OutOfBounds)"
proof -
  let ?n = "int (length text)"
  have "text \<noteq> []" using assms(4) by auto
  with assms(4) have fg: "fgets ?n text = Some (line_prefix (nat (?n - 1)) text, drop (length (line_prefix (nat (?n - 1)) text)) text)"
    by (intro fgets_line) simp_all
  have "255 \<le> length (line_prefix (nat (?n - 1)) text)"
    using assms(4) by (intro line_prefix_long [OF assms(5)]) simp
  then have "read_lines ?n text [] = Some (Err OutOfBounds)"
    using fg by (subst read_lines.simps) (simp add: TEMP_BUF_def)
  with assms(1-3) show ?thesis by (simp add: fw_config_parse_file_def Let_def)
qed

theorem config_long_line_overflow_witness:
  "fw_config_parse_file (sample_env\<lparr>files := (\<lambda>_. Some (replicate 300 32))\<rparr>) (Some ''f'') = Some (Err OutOfBounds)"
  by (rule config_long_line_overflow [of _ _ "replicate 300 32"]) (simp_all add: sample_env_def cstr_def takeWhile_replicate)

text \<open>C28: a rule file of exactly one byte is never read to its end: the call does not return.\<close>

theorem config_one_byte_diverges:
  assumes "files env (cstr nm) = Some [c]" and "cstr nm \<noteq> []" and "buf_malloc env"
  shows "fw_config_parse_file env (Some nm) = None"
  using assms read_lines_one [of "[c]"] by (simp add: fw_config_parse_file_def Let_def)

theorem config_one_byte_diverges_witness:
  "fw_config_parse_file (sample_env\<lparr>files := (\<lambda>_. Some [32])\<rparr>) (Some ''f'') = None"
  by (rule config_one_byte_diverges) (simp_all add: sample_env_def cstr_def)

text \<open>
  C11: when every entry of the parsed file names an address, a depth and an action, the rule
  array holds exactly the described rules, in the order of the file, and the count is their number.
\<close>

theorem setup_rules_wellformed:
  assumes "fw_config_parse_file env f = Some (Ok (Some js))" and "list_all2 describes rs (child js)"
    and "array_malloc env" and "\<forall>i. rule_malloc env i"
  shows "setup_rules env f = Some (Ok (Live (map Some rs), int (length rs)))"
  by (rule setup_rules_described [OF assms])

theorem setup_rules_wellformed_witness:
  "setup_rules sample_env (Some ''rules.json'') = Some (Ok (Live (map Some shipped_rules), 2))"
proof -
  have "fw_config_parse_file sample_env (Some ''rules.json'') = Some (Ok (Some rules_tree))"
    using parse_file_text [of sample_env "''rules.json''" rules_json] shipped_file_facts rules_json_parsed
    by (simp add: sample_env_def cstr_def)
  from setup_rules_wellformed [OF this rules_tree_describes] show ?thesis
    by (simp add: sample_env_def shipped_rules_def)
qed

end
