(* ===== verification/Main_Props.thy ===== *)
theory Main_Props
  imports Main_Loop Switch_Props Fw_Config
begin

text \<open>
  The properties of the whole engine: what holds in every state that the threads and the signals
  can reach from start-up, every cause of a crash, how the threads stop, and what the rules of the
  repository do with a packet.
\<close>

section \<open>The state between turns\<close>

definition sound :: "('r, 'k) view \<Rightarrow> ('r, 'k, 'l) engine \<Rightarrow> bool" where
  "sound V s \<longleftrightarrow> engine_ok s \<and> balance V s = received V s \<and> nf_clean V s"

lemma sound_idle: "idle V s \<Longrightarrow> sound V s"
  by (simp add: sound_def idle_def)

lemma sound_conserves: "sound V s \<Longrightarrow> conserves V s t \<Longrightarrow> sound V t"
  by (simp add: sound_def conserves_def)

lemma sound_fw [simp]: "sound V (s\<lparr>fw := f\<rparr>) = sound V s"
  by (simp add: sound_def engine_ok_def account_defs nf_clean_def)

lemma sound_stop [simp]: "sound V (s\<lparr>kni_stop := n\<rparr>) = sound V s"
  by (simp add: sound_def engine_ok_def account_defs nf_clean_def)

lemma sound_print_stats:
  assumes "sound V s" and "print_stats s = (ks, cs, t)"
  shows "sound V t \<and> fw t = fw s \<and> kni_stop t = kni_stop s"
  using assms by (auto simp: print_stats_def sound_def engine_ok_def account_defs nf_clean_def)

text \<open>A packet with the IPv4 Ethernet type and another IP version.\<close>

definition poison :: "rte_mbuf \<Rightarrow> bool" where
  "poison p \<longleftrightarrow> rd16_be p 12 = Ok 0x0800 \<and> drop_bit 4 (m_data p ! ether_hdr_len) AND 0b1111 \<noteq> 4"

lemma poison_iff: "ipv4_typed p \<Longrightarrow> poison p \<longleftrightarrow> \<not> fw_ready p"
  by (simp add: ipv4_typed_def poison_def fw_ready_def)

lemma ring_received:
  assumes "sound V s" and "i < KNI_KTHREAD" and "p \<in> set (ring_held V (rx_q (nf s ! i)))"
  shows "ipv4_typed p" and "p \<in># received V s"
proof -
  from assms(1) have ok: "engine_ok s" and clean: "nf_clean V s" and bal: "balance V s = received V s"
    by (simp_all add: sound_def)
  from ok have len: "i < length (nf s)" using assms(2) by (simp add: engine_ok_def)
  with clean assms(3) show "ipv4_typed p" by (auto simp: nf_clean_def towards_nf_def)
  have "p \<in># nf_held V (nf s ! i)" using assms(3) by (simp add: nf_held_def)
  with len have "p \<in># balance V s" by (auto simp: account_defs intro: nth_mem)
  with bal show "p \<in># received V s" by simp
qed

section \<open>Turns\<close>

lemma main_mapping_lcores:
  "is_rx main_mapping l \<longleftrightarrow> l = KNI_KTHREAD" "is_coproc main_mapping l \<longleftrightarrow> l < KNI_KTHREAD"
  "unat (nb_kni main_mapping) = KNI_KTHREAD"
  by (auto simp: main_mapping_def is_rx_def is_coproc_def nb_kni_def KNI_KTHREAD_def)

text \<open>Some coprocessor was set up.\<close>

definition table_ok :: "'l fw_state \<Rightarrow> bool" where
  "table_ok f \<longleftrightarrow> lpm_tbl f \<noteq> None \<and> rules f \<noteq> Null"

lemma teardown_cases:
  assumes "coprocessor_teardown f = Ok (r, f')" and "table_ok f"
  shows "rules f \<noteq> Dangling" and "rules f' = Dangling" and "table_ok f'" and "r = 0"
  using assms
  by (auto simp: coprocessor_teardown_def lpm_teardown_def rbind_eq_Ok table_ok_def split: cptr.splits if_splits)

definition setup_works :: "('r, 'k, 'l) dpdk \<Rightarrow> setting \<Rightarrow> bool" where
  "setup_works D S \<longleftrightarrow>
     (\<forall>l tsc f. \<exists>f'. coprocessor_setup D (renv S) l tsc f = Some (Ok (0, f')) \<and>
        table_ok f')"

lemma setup_worksI:
  assumes "lpm_spec D R" and "\<forall>name. rte_lpm_create D name \<noteq> None"
    and "setup_rules (renv S) (Some rule_file) = Some (Ok (Live (map Some rs), int (length rs)))"
  shows "setup_works D S"
  unfolding setup_works_def
proof (intro allI)
  fix l :: nat and tsc :: u64 and f :: "'c fw_state"
  obtain f' where "coprocessor_setup D (renv S) l tsc f = Some (Ok (0, f'))" "lpm_tbl f' \<noteq> None"
    "rules f' = Live (map Some rs)"
    by (rule coprocessor_setup_some [OF assms(1) assms(2) [THEN spec] assms(3)])
  then show "\<exists>f'. coprocessor_setup D (renv S) l tsc f = Some (Ok (0, f')) \<and> table_ok f'"
    by (auto simp: table_ok_def)
qed

text \<open>What a turn of thread \<open>l\<close> leaves when it returns.\<close>

definition turned :: "('r, 'k) view \<Rightarrow> nat \<Rightarrow> ('r, 'k, 'l) engine \<Rightarrow> thread \<times> ('r, 'k, 'l) engine \<Rightarrow> bool" where
  "turned V l s = (\<lambda>(th, t). sound V t \<and>
     (table_ok (fw s) \<longrightarrow> table_ok (fw t)) \<and>
     (phase th = Looping \<and> l < KNI_KTHREAD \<longrightarrow> table_ok (fw t)) \<and>
     (phase th = Looping \<longrightarrow> l \<le> KNI_KTHREAD))"

lemma enter_turned:
  assumes "sound V s" and "setup_works D S" and "rsrc S = main_mapping" and "l \<le> KNI_KTHREAD"
  shows "\<exists>r. main_loop_enter D S l now now' s = Some (Ok r) \<and> turned V l s r"
proof -
  from assms(2) obtain f where "coprocessor_setup D (renv S) l now' (fw s) = Some (Ok (0, f))" "table_ok f"
    unfolding setup_works_def by blast
  with assms show ?thesis by (auto simp: main_loop_enter_def turned_def main_mapping_lcores)
qed

lemma rx_round_turned:
  assumes "ring_spec D V" "kni_spec D V" and "sound V s" and "rsrc S = main_mapping"
    and "l = KNI_KTHREAD" and "phase th = Looping"
  shows "okp (turned V l s) (rx_round D S now now' th s)"
  unfolding rx_round_def okp_rbind
proof (rule okp_mono)
  show "okp (conserves V s) (fastpath D (disable_nf S) (nb_kni (rsrc S)) (nb_kni (rsrc S)) s)"
    using assms by (intro fastpath_step) (auto simp: sound_def main_mapping_lcores)
  fix t
  assume c: "conserves V s t"
  obtain ks cs u where u: "print_stats t = (ks, cs, u)" by (cases "print_stats t") auto
  from c have "sound V t" "table_ok (fw t) = table_ok (fw s)"
    using sound_conserves [OF assms(3)] by (auto simp: conserves_def table_ok_def)
  moreover from sound_print_stats [OF this(1) u] have "sound V u" "fw u = fw t" by auto
  ultimately show "okp (turned V l s) (if PRINT_DELAY * unat (tsc_hz S) < unat (now - start th)
      then (case print_stats t of (_, _, s'') \<Rightarrow> Ok (th\<lparr>start := now'\<rparr>, s'')) else Ok (th, t))"
    using assms(5) by (simp add: turned_def u)
qed

text \<open>A round of a thread that has a table fails only after a stop, or on a poisoned packet.\<close>

lemma round_turned:
  assumes "ring_spec D V" "kni_spec D V" and "sound V s" and "rsrc S = main_mapping"
    and "l \<le> KNI_KTHREAD" and "phase th = Looping" and tbl: "l < KNI_KTHREAD \<longrightarrow> table_ok (fw s)"
  shows "okp (turned V l s) (main_loop_round D S l now now' th s) \<or>
    (\<exists>x. main_loop_round D S l now now' th s = Err x) \<and> (kni_stop s \<noteq> 0 \<or> (\<exists>p \<in># received V s. poison p))"
proof (cases "l = KNI_KTHREAD")
  case True
  with assms rx_round_turned [OF assms(1-4)] show ?thesis
    by (simp add: main_loop_round_def main_mapping_lcores) (simp add: turned_def)
next
  case False
  with assms(5) have l: "l < KNI_KTHREAD" by simp
  with tbl obtain tb where tb: "lpm_tbl (fw s) = Some tb" and ok: "table_ok (fw s)" by (auto simp: table_ok_def)
  show ?thesis
  proof (cases "kni_stop s = 0")
    case True
    with False assms(4) have round: "main_loop_round D S l now now' th s = rbind (coprocessor D l s) (\<lambda>t. Ok (th, t))"
      by (simp add: main_loop_round_def main_mapping_lcores)
    show ?thesis
    proof (cases "\<forall>p \<in> set (coproc_burst D l s). fw_ready p")
      case True
      have "okp (conserves V s) (coprocessor D l s)"
        using assms(3) True by (intro coprocessor_burst_step [OF assms(1,2) _ l _ disjI2 [OF tb]]) (auto simp: sound_def)
      then have "okp (turned V l s) (rbind (coprocessor D l s) (\<lambda>t. Ok (th, t)))"
        unfolding okp_rbind
        by (rule okp_mono) (use sound_conserves [OF assms(3)] ok l in \<open>auto simp: turned_def conserves_def table_ok_def\<close>)
      with round show ?thesis by simp
    next
      case False
      then obtain p where p: "p \<in> set (coproc_burst D l s)" "\<not> fw_ready p" by blast
      have burst: "ipv4_typed q" "q \<in># received V s" if "q \<in> set (coproc_burst D l s)" for q
        using ring_received [OF assms(3) l] coproc_burst_held [OF assms(1)] that by blast+
      with p have "p \<in># received V s" "poison p" by (simp_all add: poison_iff)
      moreover have "coprocessor D l s \<noteq> Ok t" for t
        using coprocessor_Ok_ready [of D l s t p] burst(1) p by (auto simp: ipv4_typed_def)
      then have "\<exists>x. rbind (coprocessor D l s) (\<lambda>t. Ok (th, t)) = Err x" by (cases "coprocessor D l s") auto
      ultimately show ?thesis using round by auto
    qed
  next
    case stop: False
    with False assms(3,4) l teardown_cases [OF _ ok] show ?thesis
      by (cases "coprocessor_teardown (fw s)") (auto simp: main_loop_round_def main_mapping_lcores turned_def)
  qed
qed

section \<open>Reachable states\<close>

definition run_inv :: "('r, 'k) view \<Rightarrow> ('r, 'k, 'l) sys \<Rightarrow> bool" where
  "run_inv V s \<longleftrightarrow>
     sound V (eng s) \<and>
     (\<forall>l < KNI_KTHREAD. phase (threads s l) = Looping \<longrightarrow> table_ok (fw (eng s))) \<and>
     (crash s \<noteq> None \<longrightarrow> kni_stop (eng s) \<noteq> 0 \<or> (\<exists>p \<in># received V (eng s). poison p))"

lemma turn_inv:
  assumes "turned V l (eng s) (th, e)" and "run_inv V s" and "crash s = None"
  shows "run_inv V (s\<lparr>eng := e, threads := (threads s)(l := th)\<rparr>)"
  using assms by (auto simp: run_inv_def turned_def)

lemma turn_cases:
  assumes specs: "ring_spec D V" "kni_spec D V" "setup_works D S" "rsrc S = main_mapping"
    and inv: "run_inv V s" and l: "l \<le> KNI_KTHREAD"
    and turn: "main_loop_turn D S l now now' (threads s l) (eng s) = Some r"
  shows "okp (turned V l (eng s)) r \<or>
    (\<exists>x. r = Err x) \<and> (kni_stop (eng s) \<noteq> 0 \<or> (\<exists>p \<in># received V (eng s). poison p))"
proof (cases "phase (threads s l)")
  case Launched
  from inv have "sound V (eng s)" by (simp add: run_inv_def)
  from enter_turned [OF this specs(3,4) l, where now = now and now' = now'] turn Launched
  show ?thesis by (auto simp: main_loop_turn_def)
next
  case Looping
  with inv have "sound V (eng s)" "l < KNI_KTHREAD \<longrightarrow> table_ok (fw (eng s))" by (simp_all add: run_inv_def)
  from round_turned [OF specs(1,2) this(1) specs(4) l Looping this(2), where now = now and now' = now'] turn Looping
  show ?thesis by (simp add: main_loop_turn_def)
qed (use turn in \<open>simp add: main_loop_turn_def\<close>)

lemma step_inv:
  assumes "ring_spec D V" "kni_spec D V" "setup_works D S" "rsrc S = main_mapping"
    and "run_inv V s" and "sys_step D S s t"
  shows "run_inv V t"
  using assms(6)
proof cases
  case (turn l now now' th e)
  from turn_cases [OF assms(1-5) turn(3,4)] have "turned V l (eng s) (th, e)" by simp
  with turn_inv [OF _ assms(5)] turn show ?thesis by simp
next
  case (fail l now now' x)
  from turn_cases [OF assms(1-5) fail(3,4)] assms(5) fail(1) show ?thesis by (simp add: run_inv_def)
next
  case (signal sig)
  with assms(5) show ?thesis by (simp add: run_inv_def signal_handler_def)
qed

lemma reachable_inv:
  assumes "ring_spec D V" "kni_spec D V" "setup_works D S" "rsrc S = main_mapping" and "sound V e"
    and "reachable D S e s"
  shows "run_inv V s"
  using assms(6)
proof induction
  case launched
  with assms(5) show ?case by (simp add: run_inv_def launch_def)
qed (rule step_inv [OF assms(1-4)])

section \<open>Every cause of a crash\<close>

lemma coprocessor_Ok_conserves:
  assumes specs: "ring_spec D V" "kni_spec D V" and "sound V s" and "l < KNI_KTHREAD"
    and t: "coprocessor D l s = Ok t"
  shows "conserves V s t"
proof -
  have "ipv4_typed q" if "q \<in> set (coproc_burst D l s)" for q
    using ring_received(1) [OF assms(3,4)] coproc_burst_held [OF specs(1)] that by blast
  then have ready: "\<forall>p \<in> set (coproc_burst D l s). fw_ready p"
    using coprocessor_Ok_ready [OF t] by (auto simp: ipv4_typed_def)
  have "coproc_burst D l s = [] \<or> lpm_tbl (fw s) = Some (the (lpm_tbl (fw s)))"
    using coprocessor_no_table [OF _ t] by (cases "lpm_tbl (fw s)") auto
  with ready have "okp (conserves V s) (coprocessor D l s)"
    using assms by (intro coprocessor_burst_step [OF specs]) (auto simp: sound_def)
  with t show ?thesis by simp
qed

lemma coprocessor_Err_cause:
  assumes specs: "ring_spec D V" "kni_spec D V" and "sound V s" and l: "l < KNI_KTHREAD"
    and "coprocessor D l s = Err x"
  shows "(\<exists>p \<in># received V s. poison p) \<or> lpm_tbl (fw s) = None"
proof (rule ccontr)
  assume none: "\<not> ?thesis"
  have "ipv4_typed q" "q \<in># received V s" if "q \<in> set (coproc_burst D l s)" for q
    using ring_received [OF assms(3) l] coproc_burst_held [OF specs(1)] that by blast+
  with none have "\<forall>p \<in> set (coproc_burst D l s). fw_ready p" using poison_iff by blast
  with none assms have "okp (conserves V s) (coprocessor D l s)"
    by (intro coprocessor_burst_step [OF specs, where tbl = "the (lpm_tbl (fw s))"]) (auto simp: sound_def)
  with assms(5) show False by simp
qed

text \<open>Some coprocessor fails while it reads the rules and fills its table.\<close>

definition setup_crashes :: "('r, 'k, 'l) dpdk \<Rightarrow> setting \<Rightarrow> bool" where
  "setup_crashes D S \<longleftrightarrow> (\<exists>l tsc f x. l < KNI_KTHREAD \<and> coprocessor_setup D (renv S) l tsc f = Some (Err x))"

definition crash_cause :: "('r, 'k, 'l) dpdk \<Rightarrow> setting \<Rightarrow> ('r, 'k) view \<Rightarrow> ('r, 'k, 'l) engine \<Rightarrow> bool" where
  "crash_cause D S V s \<longleftrightarrow>
     kni_stop s \<noteq> 0 \<or> (\<exists>p \<in># received V s. poison p) \<or> setup_crashes D S \<or> lpm_tbl (fw s) = None"

lemma enter_cause:
  assumes "sound V s" and "rsrc S = main_mapping" and "l \<le> KNI_KTHREAD"
    and "main_loop_enter D S l now now' s = Some r"
  shows "case r of Inl x \<Rightarrow> crash_cause D S V s | Inr (th, t) \<Rightarrow> sound V t"
proof (cases "l = KNI_KTHREAD \<or> disable_nf S")
  case True
  with assms show ?thesis by (auto simp: main_loop_enter_def main_mapping_lcores split: if_splits)
next
  case False
  with assms(3) have l: "l < KNI_KTHREAD" by simp
  with False assms(2,4) obtain q where q: "coprocessor_setup D (renv S) l now' (fw s) = Some q"
    and r: "r = rbind q (\<lambda>(ret, f). if ret \<noteq> 0 then Err (RteExit ''Coprocessor setup failed.'')
      else Ok (\<lparr>phase = Looping, start = now\<rparr>, s\<lparr>fw := f\<rparr>))"
    by (auto simp: main_loop_enter_def main_mapping_lcores split: option.splits)
  show ?thesis
  proof (cases q)
    case (Inl x)
    with q l have "setup_crashes D S" unfolding setup_crashes_def by blast
    with Inl r show ?thesis by (simp add: crash_cause_def)
  next
    case (Inr p)
    with q have "fst p = 0" by (auto simp: coprocessor_setup_def rbind_eq_Ok split: option.splits)
    with Inr r assms(1) show ?thesis by (cases p) simp
  qed
qed

lemma round_cause:
  assumes "ring_spec D V" "kni_spec D V" and "sound V s" and "rsrc S = main_mapping"
    and "l \<le> KNI_KTHREAD" and "phase th = Looping"
  shows "case main_loop_round D S l now now' th s of Inl x \<Rightarrow> crash_cause D S V s | Inr (th', t) \<Rightarrow> sound V t"
proof (cases "l = KNI_KTHREAD")
  case True
  have "okp (turned V l s) (rx_round D S now now' th s)" by (rule rx_round_turned [OF assms(1-4) True assms(6)])
  with True assms(3,4) show ?thesis
    by (auto simp: main_loop_round_def main_mapping_lcores okp_iff turned_def)
next
  case False
  with assms(5) have l: "l < KNI_KTHREAD" by simp
  show ?thesis
  proof (cases "kni_stop s = 0")
    case True
    with False assms(4) have round: "main_loop_round D S l now now' th s = rbind (coprocessor D l s) (\<lambda>t. Ok (th, t))"
      by (simp add: main_loop_round_def main_mapping_lcores)
    show ?thesis
      using coprocessor_Err_cause [OF assms(1-3) l]
        sound_conserves [OF assms(3) coprocessor_Ok_conserves [OF assms(1-3) l]]
      by (cases "coprocessor D l s") (auto simp: round crash_cause_def)
  next
    case stop: False
    with False l assms(3,4) show ?thesis
      by (cases "coprocessor_teardown (fw s)") (auto simp: main_loop_round_def main_mapping_lcores crash_cause_def)
  qed
qed

lemma reachable_cause:
  assumes "ring_spec D V" "kni_spec D V" "rsrc S = main_mapping" and "sound V e" and "reachable D S e s"
  shows "sound V (eng s) \<and> (crash s \<noteq> None \<longrightarrow> crash_cause D S V (eng s))"
  using assms(5)
proof induction
  case launched
  with assms(4) show ?case by (simp add: launch_def)
next
  case (step s t)
  then have ok: "sound V (eng s)" by simp
  have each: "case r of Inl x \<Rightarrow> crash_cause D S V (eng s) | Inr (th, u) \<Rightarrow> sound V u"
    if "l \<le> KNI_KTHREAD" and "main_loop_turn D S l now now' (threads s l) (eng s) = Some r" for l now now' r
    using that enter_cause [OF ok assms(3) that(1)] round_cause [OF assms(1,2) ok assms(3) that(1)]
    by (cases "phase (threads s l)") (auto simp: main_loop_turn_def)
  from step(2) show ?case
  proof cases
    case (turn l now now' th e)
    with each [OF turn(3,4)] show ?thesis by simp
  next
    case (fail l now now' x)
    with each [OF fail(3,4)] ok show ?thesis by simp
  next
    case (signal sig)
    with ok show ?thesis by (simp add: signal_handler_def)
  qed
qed

section \<open>Stopping\<close>

text \<open>Only the thread that leaves the loop of a coprocessor touches the rule array.\<close>

lemma round_rules:
  assumes "ring_spec D V" "kni_spec D V" and "sound V s" and "rsrc S = main_mapping"
    and "l \<le> KNI_KTHREAD" and "phase th = Looping" and tbl: "l < KNI_KTHREAD \<longrightarrow> table_ok (fw s)"
    and t: "main_loop_round D S l now now' th s = Ok (th', t)"
  shows "rules (fw t) = rules (fw s) \<and> lpm_tbl (fw t) = lpm_tbl (fw s) \<and> (l < KNI_KTHREAD \<longrightarrow> phase th' = Looping) \<or>
    l < KNI_KTHREAD \<and> coprocessor_teardown (fw s) = Ok (0, fw t) \<and> phase th' = Returned"
proof (cases "l = KNI_KTHREAD")
  case True
  have "okp (conserves V s) (fastpath D (disable_nf S) (nb_kni (rsrc S)) (nb_kni (rsrc S)) s)"
    using assms by (intro fastpath_step) (auto simp: sound_def main_mapping_lcores)
  with t True assms(4) show ?thesis
    by (auto simp: main_loop_round_def main_mapping_lcores rx_round_def rbind_eq_Ok conserves_def print_stats_def
        split: if_splits prod.splits)
next
  case False
  with assms(5) tbl obtain tb where l: "l < KNI_KTHREAD" and tb: "lpm_tbl (fw s) = Some tb" by (auto simp: table_ok_def)
  show ?thesis
  proof (cases "kni_stop s = 0")
    case True
    with t False assms(4) have "coprocessor D l s = Ok t" "th' = th"
      by (auto simp: main_loop_round_def main_mapping_lcores rbind_eq_Ok)
    with coprocessor_Ok_conserves [OF assms(1-3) l] assms(6) show ?thesis by (auto simp: conserves_def)
  next
    case stop: False
    with t False assms(4) obtain r f where "coprocessor_teardown (fw s) = Ok (r, f)" "th' = th\<lparr>phase := Returned\<rparr>" "t = s\<lparr>fw := f\<rparr>"
      by (auto simp: main_loop_round_def main_mapping_lcores rbind_eq_Ok)
    with l show ?thesis by (auto simp: coprocessor_teardown_def rbind_eq_Ok)
  qed
qed

definition returned :: "('r, 'k, 'l) sys \<Rightarrow> nat set" where
  "returned s = {l. l < KNI_KTHREAD \<and> phase (threads s l) = Returned}"

definition stop_inv :: "('r, 'k, 'l) sys \<Rightarrow> bool" where
  "stop_inv s \<longleftrightarrow>
     (\<forall>l < KNI_KTHREAD. phase (threads s l) \<noteq> Launched) \<and> table_ok (fw (eng s)) \<and>
     (returned s = {} \<or> rules (fw (eng s)) = Dangling \<and> (\<exists>l. returned s = {l}))"

lemma turn_stop_inv:
  assumes specs: "ring_spec D V" "kni_spec D V" "rsrc S = main_mapping"
    and inv: "run_inv V s" and stop: "stop_inv s" and l: "l \<le> KNI_KTHREAD"
    and turn: "main_loop_turn D S l now now' (threads s l) (eng s) = Some (Ok (th, e))"
  shows "stop_inv (s\<lparr>eng := e, threads := (threads s)(l := th)\<rparr>)"
proof (cases "phase (threads s l)")
  case Launched
  with stop l have "l = KNI_KTHREAD" by (auto simp: stop_inv_def le_less)
  with turn Launched specs(3) stop show ?thesis
    by (auto simp: main_loop_turn_def main_loop_enter_def main_mapping_lcores stop_inv_def returned_def)
next
  case Looping
  with inv have s: "sound V (eng s)" "l < KNI_KTHREAD \<longrightarrow> table_ok (fw (eng s))" by (simp_all add: run_inv_def)
  let ?t = "s\<lparr>eng := e, threads := (threads s)(l := th)\<rparr>"
  from turn Looping have "main_loop_round D S l now now' (threads s l) (eng s) = Ok (th, e)"
    by (simp add: main_loop_turn_def)
  from round_rules [OF specs(1,2) s(1) specs(3) l Looping s(2) this] show ?thesis
  proof (elim disjE conjE)
    assume "rules (fw e) = rules (fw (eng s))" "lpm_tbl (fw e) = lpm_tbl (fw (eng s))" "l < KNI_KTHREAD \<longrightarrow> phase th = Looping"
    moreover from this Looping have "returned ?t = returned s" by (auto simp: returned_def)
    ultimately show ?thesis using stop by (auto simp: stop_inv_def table_ok_def)
  next
    assume a: "l < KNI_KTHREAD" "coprocessor_teardown (fw (eng s)) = Ok (0, fw e)" "phase th = Returned"
    from stop have "table_ok (fw (eng s))" by (simp add: stop_inv_def)
    from teardown_cases [OF a(2) this]
    have "rules (fw (eng s)) \<noteq> Dangling" "rules (fw e) = Dangling" "table_ok (fw e)" by auto
    moreover from this stop have "returned s = {}" by (auto simp: stop_inv_def)
    then have "returned ?t = {l}" using a by (auto simp: returned_def)
    ultimately show ?thesis using stop a(3) by (auto simp: stop_inv_def)
  qed
qed (use turn in \<open>simp add: main_loop_turn_def\<close>)

lemma steps_stop_inv:
  assumes specs: "ring_spec D V" "kni_spec D V" "setup_works D S" "rsrc S = main_mapping"
    and "run_inv V s" and "stop_inv s" and "(sys_step D S)\<^sup>*\<^sup>* s t"
  shows "run_inv V t \<and> stop_inv t"
  using assms(7)
proof induction
  case base
  with assms(5,6) show ?case by simp
next
  case (step t u)
  then have inv: "run_inv V t" and stop: "stop_inv t" by simp_all
  from step(2) have "stop_inv u"
  proof cases
    case (turn l now now' th e)
    from turn_stop_inv [OF specs(1,2,4) inv stop turn(3,4)] turn(1) show ?thesis by simp
  next
    case (fail l now now' x)
    with stop show ?thesis by (simp add: stop_inv_def returned_def)
  next
    case (signal sig)
    with stop show ?thesis by (simp add: stop_inv_def returned_def signal_handler_def)
  qed
  with step_inv [OF specs inv step(2)] show ?case by simp
qed

text \<open>Every coprocessor can reach its loop.\<close>

lemma all_started:
  assumes "setup_works D S" and "rsrc S = main_mapping" and "\<not> disable_nf S" and "n \<le> KNI_KTHREAD"
  shows "\<exists>s. reachable D S e s \<and> crash s = None \<and> (\<forall>l. phase (threads s l) = (if l < n then Looping else Launched))"
  using assms(4)
proof (induction n)
  case 0
  show ?case by (intro exI conjI) (rule reachable.launched, simp_all add: launch_def)
next
  case (Suc n)
  then obtain s where s: "reachable D S e s" "crash s = None"
    "\<forall>l. phase (threads s l) = (if l < n then Looping else Launched)" by auto
  from assms(1) obtain f where "coprocessor_setup D (renv S) n 0 (fw (eng s)) = Some (Ok (0, f))"
    unfolding setup_works_def by blast
  with s(3) Suc.prems assms(2,3)
  have 1: "main_loop_turn D S n 0 0 (threads s n) (eng s) = Some (Ok (\<lparr>phase = Looping, start = 0\<rparr>, (eng s)\<lparr>fw := f\<rparr>))"
    by (simp add: main_loop_turn_def main_loop_enter_def main_mapping_lcores)
  let ?t = "s\<lparr>eng := (eng s)\<lparr>fw := f\<rparr>, threads := (threads s)(n := \<lparr>phase = Looping, start = 0\<rparr>)\<rparr>"
  have "reachable D S e ?t" by (rule reachable.step [OF s(1) turn [OF s(2) _ 1]]) (use Suc.prems in simp)
  with s(2,3) show ?case by (intro exI [of _ ?t]) (auto simp: less_Suc_eq)
qed

section \<open>The rules of the repository\<close>

lemma lpm_add_loop_hops:
  assumes spec: "lpm_spec D R" and "\<forall>i \<in> set is. i < length rs" and "\<forall>r \<in> set rs. action r = 0"
    and "\<forall>k h. R l k = Some h \<longrightarrow> h = 0"
  shows "okp (\<lambda>(ret, tbl). \<exists>t. tbl = Some t \<and> (\<forall>k h. R t k = Some h \<longrightarrow> h = 0))
    (lpm_add_loop D (Live (map Some rs)) is (Some l))"
  using assms(2,4)
proof (induction "is" arbitrary: l)
  case (Cons i "is")
  let ?r = "rs ! i"
  from Cons.prems(1) assms(3) have i: "i < length rs" "action ?r = 0" by auto
  obtain ret l' where add: "rte_lpm_add D (Some l) (src_ip ?r) (depth ?r) (ucast (action ?r)) = (ret, l')"
    by fastforce
  have "\<exists>t. l' = Some t \<and> (\<forall>k h. R t k = Some h \<longrightarrow> h = 0)"
  proof (cases "ret < 0")
    case True
    from spec add have "if ret < 0 then l' = Some l else True" unfolding lpm_spec_def by metis
    with True Cons.prems(2) show ?thesis by simp
  next
    case False
    from lpm_add [OF spec add False] obtain t where
      "l' = Some t" "R t = (R l)((src_ip ?r AND depth_mask (unat (depth ?r)), unat (depth ?r)) := Some (ucast (action ?r)))"
      by blast
    with Cons.prems(2) i(2) show ?thesis by (auto split: if_splits)
  qed
  then obtain t where "l' = Some t" "\<forall>k h. R t k = Some h \<longrightarrow> h = 0" by blast
  with Cons add i show ?case by (auto simp: rule_at_def)
qed simp

lemma setup_hops:
  assumes spec: "lpm_spec D R" and "rte_lpm_create D (lpm_table_name lcore tsc) \<noteq> None"
    and "setup_rules env (Some rule_file) = Some (Ok (Live (map Some rs), int (length rs)))"
    and "\<forall>r \<in> set rs. action r = 0" and "coprocessor_setup D env lcore tsc s = Some (Ok (0, f))"
  shows "\<exists>t. lpm_tbl f = Some t \<and> (\<forall>k h. R t k = Some h \<longrightarrow> h = 0)"
proof -
  from assms(2) obtain l where l: "rte_lpm_create D (lpm_table_name lcore tsc) = Some l" by blast
  with spec have "R l = (\<lambda>_. None)" unfolding lpm_spec_def by blast
  then have "okp (\<lambda>(ret, tbl). \<exists>t. tbl = Some t \<and> (\<forall>k h. R t k = Some h \<longrightarrow> h = 0))
      (lpm_add_loop D (Live (map Some rs)) [0..<length rs] (Some l))"
    by (intro lpm_add_loop_hops [OF spec _ assms(4)]) simp_all
  with assms(3,5) l show ?thesis by (auto simp: coprocessor_setup_def lpm_setup_def rbind_eq_Ok)
qed

section \<open>Properties\<close>

definition allocates :: "('r, 'k, 'l) dpdk \<Rightarrow> bool" where
  "allocates D \<longleftrightarrow>
     rte_pktmbuf_pool_create D \<and> rte_calloc D \<and> (\<forall>name. rte_ring_create D name \<noteq> None) \<and>
     (\<forall>conf port. rte_kni_alloc D conf port \<noteq> None) \<and> (\<forall>name. rte_lpm_create D name \<noteq> None)"

definition sample_setting :: setting where
  "sample_setting = \<lparr>disable_nf = False, tsc_hz = 1000, rsrc = main_mapping, renv = sample_env\<rparr>"

lemma list_allocates: "allocates list_dpdk"
  by (simp add: allocates_def list_dpdk_def)

lemma sample_setup_rules:
  "setup_rules (renv sample_setting) (Some rule_file) = Some (Ok (Live (map Some shipped_rules), int (length shipped_rules)))"
  using setup_rules_shipped [of sample_env rule_file]
  by (simp add: sample_setting_def sample_env_def rule_file_def cstr_def shipped_rules_def)

lemma allocated_start:
  assumes "fresh_spec D V" and "allocates D" and "main_start D ret n_lcore lcore_index engine0 = Ok (m, e)"
  shows "m = main_mapping" and "sound V e"
  using main_start_idle [OF assms(1) _ _ _ _ assms(3)] assms(2) by (auto simp: allocates_def sound_idle)

lemma list_start: "\<exists>e. main_start list_dpdk 0 6 int engine0 = Ok (main_mapping, e)"
proof -
  have "\<forall>i \<in> {0, 1, 2, 3, 4 :: nat}. rte_ring_create list_dpdk (get_rx_queue_name i) \<noteq> None \<and>
      rte_ring_create list_dpdk (get_tx_queue_name i) \<noteq> None"
    "\<forall>i < KNI_KTHREAD. rte_kni_alloc list_dpdk (kni_conf list_dpdk 0 i) (word_of_nat i) \<noteq> None"
    "rte_pktmbuf_pool_create list_dpdk" "rte_calloc list_dpdk"
    using list_allocates by (auto simp: allocates_def)
  from startup_ok [OF this(3,4,1,2)] obtain s t where "init list_dpdk engine0 = Ok (0, s)" "init_kni_port list_dpdk 0 s = Ok t"
    by blast
  then show ?thesis by (simp add: main_start_def KNI_KTHREAD_def list_ex_iff)
qed

lemma sample_setup_works: "setup_works list_dpdk sample_setting"
  using list_allocates by (intro setup_worksI [OF list_lpm_spec _ sample_setup_rules]) (simp add: allocates_def)

text \<open>
  C1: the engine is safe.  Once start-up has succeeded, with every ring of the coprocessors created
  (start-up does not look at these results), in every state that the threads and the signals can
  reach the engine is well-formed and accounts for exactly the packets it received.  And whatever
  the allocations gave, a run crashes only if a stop signal came, or a packet with the IPv4
  Ethernet type and another IP version was received, or reading the rules failed in some
  coprocessor, or a coprocessor has no rule table, or a ring could not be created.
\<close>

theorem engine_run_safe:
  assumes "ring_spec D V" and "kni_spec D V" and "fresh_spec D V"
    and "main_start D ret n_lcore lcore_index engine0 = Ok (rsrc S, e)" and "reachable D S e s"
  shows "(rings_created D \<longrightarrow> engine_ok (eng s) \<and> balance V (eng s) = received V (eng s)) \<and>
    (crash s \<noteq> None \<longrightarrow> kni_stop (eng s) \<noteq> 0 \<or> (\<exists>p \<in># received V (eng s). poison p) \<or>
       setup_crashes D S \<or> lpm_tbl (fw (eng s)) = None \<or> \<not> rings_created D)"
proof (cases "rings_created D")
  case True
  have "sound V e" by (rule sound_idle [OF main_start_rings [OF assms(3) True assms(4)]])
  from reachable_cause [OF assms(1,2) main_start_allocated(4) [OF assms(4)] this assms(5)]
  show ?thesis by (auto simp: sound_def crash_cause_def)
qed simp

theorem engine_run_safe_witness:
  "\<exists>e s. main_start list_dpdk 0 6 int engine0 = Ok (main_mapping, e) \<and> reachable list_dpdk sample_setting e s \<and>
     (\<forall>l \<in> {0, 1, 2, 3, 4}. phase (threads s l) = Looping) \<and>
     engine_ok (eng s) \<and> balance list_view (eng s) = received list_view (eng s)"
proof -
  obtain e where e: "main_start list_dpdk 0 6 int engine0 = Ok (main_mapping, e)" using list_start by blast
  from all_started [OF sample_setup_works _ _ order_refl, of e] obtain s where
    s: "reachable list_dpdk sample_setting e s" "\<forall>l. phase (threads s l) = (if l < KNI_KTHREAD then Looping else Launched)"
    by (auto simp: sample_setting_def)
  have "rings_created list_dpdk" by (simp add: rings_created_def list_dpdk_def)
  with engine_run_safe [OF list_ring_spec list_kni_spec list_fresh_spec _ s(1)] e
  have "engine_ok (eng s) \<and> balance list_view (eng s) = received list_view (eng s)"
    by (auto simp: sample_setting_def)
  with e s show ?thesis by (intro exI [of _ e] exI [of _ s]) (simp add: KNI_KTHREAD_def)
qed

text \<open>
  C33: when the allocations, start-up and the reading of the rules succeed: once all five
  coprocessors run, at most one of them ever returns: the second one that
  stops releases the rule array again, so an orderly shutdown does not exist.
\<close>

theorem no_clean_shutdown:
  assumes "ring_spec D V" and "kni_spec D V" and "fresh_spec D V" and "lpm_spec D R" and "allocates D"
    and "setup_rules (renv S) (Some rule_file) = Some (Ok (Live (map Some rs), int (length rs)))"
    and "main_start D ret n_lcore lcore_index engine0 = Ok (rsrc S, e)" and "reachable D S e s"
    and "\<forall>l < KNI_KTHREAD. phase (threads s l) = Looping" and "(sys_step D S)\<^sup>*\<^sup>* s t"
  shows "card {l. l < KNI_KTHREAD \<and> phase (threads t l) = Returned} \<le> 1"
proof -
  have works: "setup_works D S" using assms(5) by (intro setup_worksI [OF assms(4) _ assms(6)]) (simp add: allocates_def)
  note start = allocated_start [OF assms(3,5,7)]
  have inv: "run_inv V s" by (rule reachable_inv [OF assms(1,2) works start assms(8)])
  moreover have "0 < KNI_KTHREAD" by (simp add: KNI_KTHREAD_def)
  ultimately have "table_ok (fw (eng s))" using assms(9) by (auto simp: run_inv_def)
  with assms(9) have "stop_inv s" by (simp add: stop_inv_def returned_def)
  from steps_stop_inv [OF assms(1,2) works start(1) inv this assms(10)] have "stop_inv t" by simp
  then have "returned t = {} \<or> (\<exists>l. returned t = {l})" by (auto simp: stop_inv_def)
  then have "card (returned t) \<le> 1" by auto
  then show ?thesis by (simp add: returned_def)
qed

theorem no_clean_shutdown_witness:
  "\<exists>e s. reachable list_dpdk sample_setting e s \<and> (\<forall>l \<in> {0, 1, 2, 3, 4}. phase (threads s l) = Looping) \<and>
     card {l. l < KNI_KTHREAD \<and> phase (threads s l) = Returned} \<le> 1"
proof -
  obtain e where e: "main_start list_dpdk 0 6 int engine0 = Ok (rsrc sample_setting, e)"
    using list_start by (auto simp: sample_setting_def)
  from all_started [OF sample_setup_works _ _ order_refl, of e] obtain s where s: "reachable list_dpdk sample_setting e s"
    "\<forall>l. phase (threads s l) = (if l < KNI_KTHREAD then Looping else Launched)"
    by (auto simp: sample_setting_def)
  have "card {l. l < KNI_KTHREAD \<and> phase (threads s l) = Returned} \<le> 1"
    by (rule no_clean_shutdown [OF list_ring_spec list_kni_spec list_fresh_spec list_lpm_spec list_allocates
          sample_setup_rules e s(1)]) (use s(2) in simp_all)
  with s show ?thesis by (intro exI [of _ e] exI [of _ s]) (simp add: KNI_KTHREAD_def)
qed

text \<open>
  C34: no rule of the rule file of the repository drops a packet: after set-up with this file,
  whether or not every rule could be added to the table, a packet with an IPv4 header whose source
  address matches a rule of the table is forwarded, and counted once.
\<close>

theorem shipped_rules_never_drop:
  assumes "lpm_spec D R" and "rte_lpm_create D (lpm_table_name lcore tsc) \<noteq> None"
    and "files env (cstr rule_file) = Some rules_json" and "buf_malloc env" and "json_hooks env = (\<lambda>_. True)"
    and "array_malloc env" and "\<forall>i. rule_malloc env i"
    and "coprocessor_setup D env lcore tsc s = Some (Ok (0, f))" and "fw_ready p"
    and "rd32_be p (ether_hdr_len + 12) = Ok src"
  shows "\<exists>t. lpm_tbl f = Some t \<and>
    (lpm_search (R t) src 32 \<noteq> None \<longrightarrow> process_packet D p f = Ok (0, bump_total f))"
proof -
  have "setup_rules env (Some rule_file) = Some (Ok (Live (map Some shipped_rules), int (length shipped_rules)))"
    using setup_rules_shipped [OF assms(3) _ assms(4-7)] by (simp add: rule_file_def cstr_def shipped_rules_def)
  from setup_hops [OF assms(1,2) this _ assms(8)] obtain t where t: "lpm_tbl f = Some t" "\<forall>k h. R t k = Some h \<longrightarrow> h = 0"
    by (auto simp: shipped_rules_def)
  from assms(9) have hdr: "fw_pkt_ipv4_hdr p = Ok (Some ether_hdr_len)"
    using fw_pkt_ipv4_hdr_cases [of p] by (simp add: fw_ready_def hdr_bytes_def ether_hdr_len_def)
  obtain ret nh where l: "rte_lpm_lookup D t src = (ret, nh)" by fastforce
  have "process_packet D p f = Ok (0, bump_total f)" if hit: "lpm_search (R t) src 32 = Some h" for h
  proof -
    from hit assms(1) l have "nh = Some h" unfolding lpm_spec_def by (auto dest!: spec)
    moreover from hit t(2) have "h = 0" by (auto elim: lpm_search_Some)
    ultimately show ?thesis using fw_packet_handler_Ok [OF hdr assms(10) t(1) l] by (simp add: process_packet_def)
  qed
  with t(1) show ?thesis by auto
qed

definition lan_packet :: rte_mbuf where
  "lan_packet = ip_packet 0x45 [192, 167, 10, 7] [192, 167, 10, 1]"

lemma lan_packet_facts: "fw_ready lan_packet" "rd32_be lan_packet (ether_hdr_len + 12) = Ok 0xC0A70A07"
  by (simp_all add: lan_packet_def ip_packet_src ether_hdr_len_def)
    (simp add: ip_packet_def fw_ready_def hdr_bytes_def ether_hdr_len_def nth_append)

theorem shipped_rules_never_drop_witness:
  "\<exists>f. coprocessor_setup list_dpdk sample_env 0 7 fw_state0 = Some (Ok (0, f)) \<and>
     process_packet list_dpdk lan_packet f = Ok (0, bump_total f)"
proof -
  let ?t = "[((0x0A0B0110, 32), 0), ((0xC0A70A00, 24), 0)] :: list_lpm"
  have rs: "setup_rules sample_env (Some rule_file) = Some (Ok (Live (map Some shipped_rules), int (length shipped_rules)))"
    using sample_setup_rules by (simp add: sample_setting_def)
  then obtain f where f: "coprocessor_setup list_dpdk sample_env 0 7 fw_state0 = Some (Ok (0, f))"
    and tbl: "lpm_tbl f = Some ?t"
    by (auto simp: coprocessor_setup_def lpm_setup_def list_dpdk_def list_lpm_add_def shipped_rules_def
        rule_at_def idx_def depth_mask_24 depth_mask_32 upt_rec)
  have "lpm_search (map_of ?t) 0xC0A70A07 32 \<noteq> None"
    by (auto simp: lpm_search_None depth_mask_24 intro!: exI [of _ 24])
  with shipped_rules_never_drop [OF list_lpm_spec _ _ _ _ _ _ f lan_packet_facts] tbl f
  show ?thesis by (auto simp: list_dpdk_def sample_env_def)
qed

end
