(* ===== verification/Agent_Monad.thy ===== *)
theory Agent_Monad
  imports Prelude
begin

text \<open>
  Stateful code that can fail, for the ghOSt agent: an operation maps a state to an error or to a
  result and a new state.  \<open>steps\<close> runs statements in sequence, \<open>CHECK\<close> is the macro of the
  sources, which ends the process when its condition is false.

  \<open>outcome E m Q s\<close> says what an operation does from the state \<open>s\<close>: it returns and \<open>Q\<close> holds, or
  it ends with one of the errors in \<open>E\<close>; no other error is possible.  \<open>wp C\<close> is the case where the
  errors are the failures of the checks in \<open>C\<close>.  With \<open>C = {}\<close> this is total
  correctness.  The collection \<open>wp_simps\<close> computes it for straight-line code.
\<close>

section \<open>Operations\<close>

type_synonym ('s, 'a) sm = "'s \<Rightarrow> ('a \<times> 's) res"

definition ret :: "'a \<Rightarrow> ('s, 'a) sm" where
  "ret x = (\<lambda>s. Ok (x, s))"

definition bnd :: "('s, 'a) sm \<Rightarrow> ('a \<Rightarrow> ('s, 'b) sm) \<Rightarrow> ('s, 'b) sm" where
  "bnd m f = (\<lambda>s. rbind (m s) (\<lambda>(x, t). f x t))"

definition gets :: "('s \<Rightarrow> 'a) \<Rightarrow> ('s, 'a) sm" where
  "gets f = (\<lambda>s. Ok (f s, s))"

definition modify :: "('s \<Rightarrow> 's) \<Rightarrow> ('s, unit) sm" where
  "modify f = (\<lambda>s. Ok ((), f s))"

definition fail :: "cerror \<Rightarrow> ('s, 'a) sm" where
  "fail e = (\<lambda>s. Err e)"

definition CHECK :: "string \<Rightarrow> bool \<Rightarrow> ('s, unit) sm" where
  "CHECK c b = (if b then ret () else fail (CheckFailed c))"

definition lift_res :: "'a res \<Rightarrow> ('s, 'a) sm" where
  "lift_res r = (\<lambda>s. rbind r (\<lambda>x. Ok (x, s)))"

text \<open>A call of the system, which returns an answer and changes the state of the host.\<close>

definition sys :: "('k \<Rightarrow> 'a \<times> 'k) \<Rightarrow> ('k, 'a) sm" where
  "sys f = (\<lambda>k. Ok (f k))"

fun steps :: "('s, unit) sm list \<Rightarrow> ('s, unit) sm" where
  "steps [] = ret ()"
| "steps (m # ms) = bnd m (\<lambda>_. steps ms)"

text \<open>A loop over a list with an accumulator.\<close>

fun fold_m :: "('a \<Rightarrow> 'b \<Rightarrow> ('s, 'b) sm) \<Rightarrow> 'a list \<Rightarrow> 'b \<Rightarrow> ('s, 'b) sm" where
  "fold_m f [] b = ret b"
| "fold_m f (x # xs) b = bnd (f x b) (fold_m f xs)"

definition each :: "('a \<Rightarrow> ('s, unit) sm) \<Rightarrow> 'a list \<Rightarrow> ('s, unit) sm" where
  "each f xs = fold_m (\<lambda>x _. f x) xs ()"

section \<open>What an operation does\<close>

named_theorems wp_simps \<open>computation of what an operation does\<close>

definition outcome :: "cerror set \<Rightarrow> ('s, 'a) sm \<Rightarrow> ('a \<Rightarrow> 's \<Rightarrow> bool) \<Rightarrow> 's \<Rightarrow> bool" where
  "outcome E m Q s = (case m s of Inl e \<Rightarrow> e \<in> E | Inr (x, t) \<Rightarrow> Q x t)"

lemma outcome_simps [simp]:
  "outcome E (ret x) Q s = Q x s"
  "outcome E (gets f) Q s = Q (f s) s"
  "outcome E (modify g) R s = R () (g s)"
  "outcome E (fail e) Q s \<longleftrightarrow> e \<in> E"
  "outcome E (CHECK c b) R s \<longleftrightarrow> (if b then R () s else CheckFailed c \<in> E)"
  "outcome E (lift_res (Ok x)) Q s = Q x s"
  "outcome E (lift_res (Err e)) Q s \<longleftrightarrow> e \<in> E"
  by (simp_all add: outcome_def ret_def gets_def modify_def fail_def CHECK_def lift_res_def)

lemma outcome_lift_res: "outcome E (lift_res r) Q s = (case r of Inl e \<Rightarrow> e \<in> E | Inr x \<Rightarrow> Q x s)"
  by (cases r) simp_all

lemma outcome_bnd [simp]: "outcome E (bnd m f) Q s = outcome E m (\<lambda>x. outcome E (f x) Q) s"
  by (cases "m s") (auto simp: outcome_def bnd_def)

lemma outcome_sys [simp]: "outcome E (sys f) Q k = Q (fst (f k)) (snd (f k))"
  by (simp add: outcome_def sys_def split: prod.split)

lemma outcome_steps [simp]:
  "outcome E (steps []) Q s = Q () s"
  "outcome E (steps (m # ms)) Q s = outcome E m (\<lambda>_. outcome E (steps ms) Q) s"
  by simp_all

lemma outcome_mono: "outcome E m P s \<Longrightarrow> (\<And>x t. P x t \<Longrightarrow> Q x t) \<Longrightarrow> outcome E m Q s"
  by (auto simp: outcome_def split: sum.splits)

lemma outcome_errors: "outcome E m Q s \<Longrightarrow> E \<subseteq> E' \<Longrightarrow> outcome E' m Q s"
  by (auto simp: outcome_def split: sum.splits)

lemma outcome_Ok: "outcome E m Q s \<Longrightarrow> m s = Ok (x, t) \<Longrightarrow> Q x t"
  by (simp add: outcome_def)

lemma outcome_iff:
  "outcome E m Q s \<longleftrightarrow> (\<exists>e \<in> E. m s = Err e) \<or> (\<exists>x t. m s = Ok (x, t) \<and> Q x t)"
  by (cases "m s") (auto simp: outcome_def)

text \<open>The rule for loops: an invariant indexed by the elements already done.\<close>

lemma outcome_fold_m:
  assumes "P [] b s"
    and "\<And>ys y zs b s. xs = ys @ y # zs \<Longrightarrow> P ys b s \<Longrightarrow> outcome E (f y b) (P (ys @ [y])) s"
  shows "outcome E (fold_m f xs b) (P xs) s"
proof -
  have "outcome E (fold_m f zs b) (P xs) s" if "xs = ys @ zs" "P ys b s" for ys zs b s
    using that
  proof (induction zs arbitrary: ys b s)
    case (Cons z zs)
    have "outcome E (fold_m f zs b') (P xs) t" if "P (ys @ [z]) b' t" for b' t
      using Cons.IH [OF _ that] Cons.prems(1) by simp
    with assms(2) [OF Cons.prems] show ?case by (auto elim: outcome_mono)
  qed simp
  from this [of "[]" xs b s] assms(1) show ?thesis by simp
qed

lemma outcome_fold_m_inv:
  assumes "I b s" and "\<And>x b s. x \<in> set xs \<Longrightarrow> I b s \<Longrightarrow> outcome E (f x b) I s"
  shows "outcome E (fold_m f xs b) I s"
  using assms by (intro outcome_fold_m [where P = "\<lambda>_. I"]) auto

text \<open>With failed checks as the only errors.\<close>

definition wp :: "string set \<Rightarrow> ('s, 'a) sm \<Rightarrow> ('a \<Rightarrow> 's \<Rightarrow> bool) \<Rightarrow> 's \<Rightarrow> bool" where
  "wp C = outcome (CheckFailed ` C)"

lemma wp_eq:
  "wp C m Q s =
     (case m s of
        Inl e \<Rightarrow> (\<exists>c \<in> C. e = CheckFailed c)
      | Inr (x, t) \<Rightarrow> Q x t)"
  by (auto simp: wp_def outcome_def image_iff split: sum.splits)

lemma wp_ret [wp_simps, simp]: "wp C (ret x) Q s = Q x s"
  by (simp add: wp_eq ret_def)

lemma wp_bnd [wp_simps, simp]: "wp C (bnd m f) Q s = wp C m (\<lambda>x. wp C (f x) Q) s"
  by (cases "m s") (auto simp: wp_eq bnd_def)

lemma wp_gets [wp_simps, simp]: "wp C (gets f) Q s = Q (f s) s"
  by (simp add: wp_eq gets_def)

lemma wp_modify [wp_simps, simp]: "wp C (modify f) Q s = Q () (f s)"
  by (simp add: wp_eq modify_def)

lemma wp_fail [wp_simps, simp]: "wp C (fail e) Q s \<longleftrightarrow> (\<exists>c \<in> C. e = CheckFailed c)"
  by (simp add: wp_eq fail_def)

lemma wp_CHECK [wp_simps, simp]: "wp C (CHECK c b) Q s \<longleftrightarrow> (if b then Q () s else c \<in> C)"
  by (simp add: CHECK_def)

lemma wp_steps [wp_simps, simp]:
  "wp C (steps []) Q s = Q () s"
  "wp C (steps (m # ms)) Q s = wp C m (\<lambda>_. wp C (steps ms) Q) s"
  by simp_all

lemma wp_lift_res [wp_simps]: "wp C (lift_res (Ok x)) Q s = Q x s"
  by (simp add: wp_eq lift_res_def)

text \<open>The same without the state, for operations under a binder.\<close>

lemma wp_eta [wp_simps, simp]:
  "wp C (ret x) Q = Q x" "wp C (bnd m f) Q = wp C m (\<lambda>x. wp C (f x) Q)"
  "wp C (modify g) R = (\<lambda>s. R () (g s))"
  by (simp_all add: fun_eq_iff)

lemma wp_mono: "wp C m P s \<Longrightarrow> (\<And>x t. P x t \<Longrightarrow> Q x t) \<Longrightarrow> wp C m Q s"
  by (auto simp: wp_eq split: sum.splits)

lemma wp_checks: "wp C m Q s \<Longrightarrow> C \<subseteq> C' \<Longrightarrow> wp C' m Q s"
  by (auto simp: wp_eq split: sum.splits)

lemma wp_conj: "wp C m P s \<Longrightarrow> wp C m Q s \<Longrightarrow> wp C m (\<lambda>x t. P x t \<and> Q x t) s"
  by (auto simp: wp_eq split: sum.splits)

lemma wp_Ok: "wp C m Q s \<Longrightarrow> m s = Ok (x, t) \<Longrightarrow> Q x t"
  by (simp add: wp_eq)

lemma wp_total: "wp {} m Q s \<longleftrightarrow> okp (\<lambda>(x, t). Q x t) (m s)"
  by (cases "m s") (auto simp: wp_eq)

lemma wp_iff: "wp C m Q s \<longleftrightarrow> (\<exists>c \<in> C. m s = Err (CheckFailed c)) \<or> (\<exists>x t. m s = Ok (x, t) \<and> Q x t)"
  by (cases "m s") (auto simp: wp_eq)

lemma wp_if: "(b \<Longrightarrow> wp C m Q s) \<Longrightarrow> (\<not> b \<Longrightarrow> wp C n Q s) \<Longrightarrow> wp C (if b then m else n) Q s"
  by simp

lemma wp_fold_m:
  assumes "P [] b s"
    and "\<And>ys y zs b s. xs = ys @ y # zs \<Longrightarrow> P ys b s \<Longrightarrow> wp C (f y b) (P (ys @ [y])) s"
  shows "wp C (fold_m f xs b) (P xs) s"
  using assms unfolding wp_def by (rule outcome_fold_m)

lemma wp_fold_m_inv:
  assumes "I b s" and "\<And>x b s. x \<in> set xs \<Longrightarrow> I b s \<Longrightarrow> wp C (f x b) I s"
  shows "wp C (fold_m f xs b) I s"
  using assms by (intro wp_fold_m [where P = "\<lambda>_. I"]) auto

lemma wp_each_inv:
  assumes "I s" and "\<And>x s. x \<in> set xs \<Longrightarrow> I s \<Longrightarrow> wp C (f x) (\<lambda>_. I) s"
  shows "wp C (each f xs) (\<lambda>_. I) s"
  unfolding each_def using assms by (intro wp_fold_m_inv) auto

section \<open>What an operation leaves alone\<close>

definition leaves :: "('s \<Rightarrow> 'b) \<Rightarrow> ('s, 'a) sm \<Rightarrow> bool" where
  "leaves f m \<longleftrightarrow> (\<forall>s x t. m s = Ok (x, t) \<longrightarrow> f t = f s)"

named_theorems leaves_rules \<open>operations that leave a part of the state alone\<close>

lemma leaves_basic [leaves_rules]:
  "leaves f (ret x)" "leaves f (gets g)" "leaves f (fail e)" "leaves f (CHECK c b)"
  by (simp_all add: leaves_def ret_def gets_def fail_def CHECK_def)

lemma leaves_modify [leaves_rules]: "(\<And>s. f (g s) = f s) \<Longrightarrow> leaves f (modify g)"
  by (simp add: leaves_def modify_def)

lemma leaves_bnd [leaves_rules]: "leaves f m \<Longrightarrow> (\<And>x. leaves f (k x)) \<Longrightarrow> leaves f (bnd m k)"
  unfolding leaves_def bnd_def by (auto simp: rbind_def split: sum.splits)

lemma leaves_steps [leaves_rules]:
  "leaves f (steps [])" "leaves f m \<Longrightarrow> leaves f (steps ms) \<Longrightarrow> leaves f (steps (m # ms))"
  by (auto intro: leaves_basic leaves_bnd)

lemma leaves_if [leaves_rules]: "leaves f m \<Longrightarrow> leaves f n \<Longrightarrow> leaves f (if b then m else n)"
  by simp

lemma leaves_option [leaves_rules]:
  "leaves f m \<Longrightarrow> (\<And>x. leaves f (k x)) \<Longrightarrow> leaves f (case r of None \<Rightarrow> m | Some x \<Rightarrow> k x)"
  by (cases r) simp_all

lemma leaves_fold_m [leaves_rules]: "(\<And>x b. leaves f (g x b)) \<Longrightarrow> leaves f (fold_m g xs b)"
  by (induction xs arbitrary: b) (auto intro: leaves_basic leaves_bnd)

lemma leaves_each [leaves_rules]: "(\<And>x. leaves f (g x)) \<Longrightarrow> leaves f (each g xs)"
  unfolding each_def by (rule leaves_fold_m)

lemma leaves_wp: "leaves f m \<Longrightarrow> wp C m Q s \<Longrightarrow> wp C m (\<lambda>x t. Q x t \<and> f t = f s) s"
  by (cases "m s") (auto simp: leaves_def wp_eq)

section \<open>Running an operation\<close>

text \<open>For concrete runs.\<close>

lemmas run_defs = ret_def bnd_def gets_def modify_def fail_def CHECK_def lift_res_def each_def sys_def

end
