(* ===== verification/Ghost_Env.thy ===== *)
theory Ghost_Env
  imports Agent_Monad
begin

text \<open>
  The interface of the agent to the ghOSt library and to the kernel, which are not part of the
  repository.  A record \<open>ghost\<close> holds the operations: lists of CPUs over an abstract type \<open>'c\<close>,
  the topology, and everything the kernel answers or is asked to do over an abstract state \<open>'k\<close>.
  Every call gets a new state of the kernel, so two reads of the same word may give different
  values: the model makes no assumption on what the kernel does between two calls.  A \<^verbatim>\<open>Cpu\<close> is
  its number; the uninitialised one is \<open>None\<close>.

  \<open>cpulist_spec\<close> states what the agent relies on: a list of CPUs is a set of numbers below
  \<^verbatim>\<open>MAX_CPUS\<close>, visited in ascending order.  At the end, \<open>list_ghost\<close> is one implementation of
  the interface; the witnesses of the properties run on it.
\<close>

section \<open>Operations\<close>

datatype txn = GHOST_TXN_COMPLETE | GHOST_TXN_CPU_UNAVAIL | GHOST_TXN_OTHER

text \<open>Threads, files and time, used by the whole agent process.\<close>

record 'k os =
  SCHED_GHOST :: int
  sched_getaffinity :: "int \<Rightarrow> 'k \<Rightarrow> nat list option \<times> 'k"
  sched_setscheduler :: "int \<Rightarrow> int \<Rightarrow> 'k \<Rightarrow> int \<times> 'k"
  sched_getscheduler :: "int \<Rightarrow> 'k \<Rightarrow> int \<times> 'k"
  SchedTaskEnterGhost :: "int \<Rightarrow> 'k \<Rightarrow> int \<times> 'k"
  read_file :: "string \<Rightarrow> 'k \<Rightarrow> string option \<times> 'k"
  append_file :: "string \<Rightarrow> string \<Rightarrow> 'k \<Rightarrow> unit \<times> 'k"
  fs_exists :: "string \<Rightarrow> 'k \<Rightarrow> bool option \<times> 'k"
  fs_is_directory :: "string \<Rightarrow> 'k \<Rightarrow> bool option \<times> 'k"
  directory_iterator :: "string \<Rightarrow> 'k \<Rightarrow> string list option \<times> 'k"
  nanosleep :: "int \<Rightarrow> 'k \<Rightarrow> (int \<times> int) \<times> 'k"
  MonotonicNow :: "'k \<Rightarrow> nat \<times> 'k"
  StrContains :: "string \<Rightarrow> string \<Rightarrow> bool"

text \<open>
  \<open>sched_getaffinity\<close> returns the CPUs of the mask, or \<open>None\<close> when the call fails; \<open>read_file\<close>
  returns \<open>None\<close> when the file cannot be opened; the three operations on the file system return
  \<open>None\<close> when they throw; \<open>nanosleep\<close> returns its result and \<^verbatim>\<open>errno\<close>; times are in nanoseconds.
\<close>

record ('c, 'k) ghost = "'k os" +
  MAX_CPUS :: nat
  \<comment> \<open>\<^verbatim>\<open>CpuList\<close>\<close>
  EmptyCpuList :: 'c
  cl_elems :: "'c \<Rightarrow> nat list"
  cl_Size :: "'c \<Rightarrow> nat"
  cl_GetNthCpu :: "'c \<Rightarrow> nat \<Rightarrow> nat"
  cl_IsSet :: "'c \<Rightarrow> nat \<Rightarrow> bool"
  cl_Empty :: "'c \<Rightarrow> bool"
  cl_Front :: "'c \<Rightarrow> nat option"
  cl_Set :: "'c \<Rightarrow> nat \<Rightarrow> 'c"
  cl_Clear :: "'c \<Rightarrow> nat \<Rightarrow> 'c"
  cl_Intersection :: "'c \<Rightarrow> 'c \<Rightarrow> 'c"
  \<comment> \<open>\<^verbatim>\<open>Topology\<close> and \<^verbatim>\<open>Cpu\<close>\<close>
  ParseCpuStr :: "string \<Rightarrow> 'c res"
  siblings :: "nat \<Rightarrow> 'c"
  l3_siblings :: "nat \<Rightarrow> 'c"
  numa_node :: "nat \<Rightarrow> nat"
  \<comment> \<open>\<^verbatim>\<open>Agent\<close> and \<^verbatim>\<open>Enclave\<close>\<close>
  enclave_cpus :: "'c \<Rightarrow> 'k \<Rightarrow> 'c \<times> 'k"
  StartAgentTasks :: "'k \<Rightarrow> unit \<times> 'k"
  TerminateAgentTasks :: "nat list \<Rightarrow> 'k \<Rightarrow> unit \<times> 'k"
  GetAgent :: "nat \<Rightarrow> 'k \<Rightarrow> nat option \<times> 'k"
  cpu_avail :: "nat \<Rightarrow> 'k \<Rightarrow> bool \<times> 'k"
  Ping :: "nat \<Rightarrow> 'k \<Rightarrow> unit \<times> 'k"
  \<comment> \<open>\<^verbatim>\<open>RunRequest\<close> of a CPU\<close>
  committed :: "nat \<Rightarrow> 'k \<Rightarrow> bool \<times> 'k"
  txn_state :: "nat \<Rightarrow> 'k \<Rightarrow> txn \<times> 'k"
  req_Open :: "nat \<Rightarrow> nat \<Rightarrow> nat \<Rightarrow> nat option \<Rightarrow> 'k \<Rightarrow> unit \<times> 'k"
  req_OpenUnschedule :: "nat \<Rightarrow> 'k \<Rightarrow> unit \<times> 'k"
  req_Commit :: "nat \<Rightarrow> 'k \<Rightarrow> bool \<times> 'k"
  req_LocalYield :: "nat \<Rightarrow> nat \<Rightarrow> 'k \<Rightarrow> unit \<times> 'k"
  SubmitRunRequests :: "'c \<Rightarrow> 'k \<Rightarrow> unit \<times> 'k"
  \<comment> \<open>status word of a task, thread numbers and chance\<close>
  sw_runtime :: "nat \<Rightarrow> 'k \<Rightarrow> nat \<times> 'k"
  sw_on_cpu :: "nat \<Rightarrow> 'k \<Rightarrow> bool \<times> 'k"
  sw_barrier :: "nat \<Rightarrow> 'k \<Rightarrow> nat \<times> 'k"
  tid :: "nat \<Rightarrow> int"
  Bernoulli_1_50 :: "'k \<Rightarrow> bool \<times> 'k"

text \<open>
  \<open>req_Open cpu target target_barrier agent_barrier\<close> opens a transaction; \<open>ParseCpuStr\<close> may end the
  process; \<open>enclave_cpus\<close> creates the enclave with the given CPUs and returns the CPUs that it has.
\<close>

section \<open>What the agent relies on\<close>

definition cpulist_spec :: "('c, 'k) ghost \<Rightarrow> bool" where
  "cpulist_spec G \<longleftrightarrow>
     (\<forall>l. sorted_wrt (<) (cl_elems G l) \<and> (\<forall>c \<in> set (cl_elems G l). c < MAX_CPUS G)) \<and>
     cl_elems G (EmptyCpuList G) = [] \<and>
     (\<forall>l c. cl_IsSet G l c \<longleftrightarrow> c \<in> set (cl_elems G l)) \<and>
     (\<forall>l. cl_Empty G l \<longleftrightarrow> cl_elems G l = []) \<and>
     (\<forall>l. cl_Front G l = (case cl_elems G l of [] \<Rightarrow> None | c # _ \<Rightarrow> Some c)) \<and>
     (\<forall>l c. c < MAX_CPUS G \<longrightarrow> set (cl_elems G (cl_Set G l c)) = insert c (set (cl_elems G l))) \<and>
     (\<forall>l c. set (cl_elems G (cl_Clear G l c)) = set (cl_elems G l) - {c}) \<and>
     (\<forall>l m. set (cl_elems G (cl_Intersection G l m)) = set (cl_elems G l) \<inter> set (cl_elems G m)) \<and>
     (\<forall>l. cl_Size G l = length (cl_elems G l)) \<and>
     (\<forall>l n. n < length (cl_elems G l) \<longrightarrow> cl_GetNthCpu G l n = cl_elems G l ! n)"

lemma cpulist_elems:
  assumes "cpulist_spec G"
  shows "sorted_wrt (<) (cl_elems G l)" and "c \<in> set (cl_elems G l) \<Longrightarrow> c < MAX_CPUS G"
  using assms by (simp_all add: cpulist_spec_def)

lemma cpulist_simps:
  assumes "cpulist_spec G"
  shows "cl_elems G (EmptyCpuList G) = []"
    and "cl_IsSet G l c \<longleftrightarrow> c \<in> set (cl_elems G l)"
    and "cl_Empty G l \<longleftrightarrow> cl_elems G l = []"
    and "cl_Front G l = (case cl_elems G l of [] \<Rightarrow> None | c # _ \<Rightarrow> Some c)"
    and "c < MAX_CPUS G \<Longrightarrow> set (cl_elems G (cl_Set G l c)) = insert c (set (cl_elems G l))"
    and "set (cl_elems G (cl_Clear G l c)) = set (cl_elems G l) - {c}"
    and "set (cl_elems G (cl_Intersection G l m)) = set (cl_elems G l) \<inter> set (cl_elems G m)"
    and "cl_Size G l = length (cl_elems G l)"
    and "n < length (cl_elems G l) \<Longrightarrow> cl_GetNthCpu G l n = cl_elems G l ! n"
  using assms by (simp_all add: cpulist_spec_def)

lemma sorted_eqI:
  "sorted_wrt (<) xs \<Longrightarrow> sorted_wrt (<) ys \<Longrightarrow> set xs = set ys \<Longrightarrow> xs = (ys :: nat list)"
  by (metis sorted_distinct_set_unique strict_sorted_iff)

text \<open>The intersection visits the common CPUs in the order of the first list.\<close>

lemma elems_Intersection:
  assumes "cpulist_spec G"
  shows "cl_elems G (cl_Intersection G l m) = filter (\<lambda>c. c \<in> set (cl_elems G m)) (cl_elems G l)"
  by (rule sorted_eqI)
    (auto simp: cpulist_simps(7) [OF assms] cpulist_elems(1) [OF assms] intro: sorted_wrt_filter)

lemma elems_Clear:
  assumes "cpulist_spec G"
  shows "cl_elems G (cl_Clear G l c) = filter (\<lambda>d. d \<noteq> c) (cl_elems G l)"
  by (rule sorted_eqI)
    (auto simp: cpulist_simps(6) [OF assms] cpulist_elems(1) [OF assms] intro: sorted_wrt_filter)

lemma length_Clear:
  assumes "cpulist_spec G" and "c \<in> set (cl_elems G l)"
  shows "length (cl_elems G (cl_Clear G l c)) < length (cl_elems G l)"
  using assms(2) by (auto simp: elems_Clear [OF assms(1)] intro: length_filter_less)

section \<open>An implementation with lists\<close>

text \<open>
  A machine with four CPUs, two and two siblings, all on one node.  The state of the kernel is a
  script: the answers to the next questions, after which every answer is the usual one.
\<close>

record script =
  sc_avail :: "bool list"
  sc_committed :: "bool list"
  sc_txn :: "txn list"
  sc_commit :: "bool list"
  sc_barrier :: "nat list"
  sc_runtime :: nat

definition usual :: script where
  "usual = \<lparr>sc_avail = [], sc_committed = [], sc_txn = [], sc_commit = [], sc_barrier = [], sc_runtime = 0\<rparr>"

definition answer :: "'a \<Rightarrow> 'a list \<Rightarrow> 'a \<times> 'a list" where
  "answer d xs = (case xs of [] \<Rightarrow> (d, []) | x # ys \<Rightarrow> (x, ys))"

definition four :: "nat list \<Rightarrow> nat list" where
  "four l = filter (\<lambda>c. c \<in> set l) [0, 1, 2, 3]"

definition list_ghost :: "(nat list, script) ghost" where
  "list_ghost =
     \<lparr>SCHED_GHOST = 18,
      sched_getaffinity = (\<lambda>t k. (Some [0, 1, 2, 3], k)),
      sched_setscheduler = (\<lambda>t p k. (0, k)),
      sched_getscheduler = (\<lambda>t k. (0, k)),
      SchedTaskEnterGhost = (\<lambda>t k. (0, k)),
      read_file = (\<lambda>f k. (Some ''EngineThread'', k)),
      append_file = (\<lambda>f x k. ((), k)),
      fs_exists = (\<lambda>f k. (Some False, k)),
      fs_is_directory = (\<lambda>f k. (Some False, k)),
      directory_iterator = (\<lambda>f k. (Some [], k)),
      nanosleep = (\<lambda>d k. ((0, 0), k)),
      MonotonicNow = (\<lambda>k. (1000, k)),
      StrContains = (\<lambda>h n. sublist n h),
      MAX_CPUS = 4,
      EmptyCpuList = [],
      cl_elems = four,
      cl_Size = (\<lambda>l. length (four l)),
      cl_GetNthCpu = (\<lambda>l n. four l ! n),
      cl_IsSet = (\<lambda>l c. c \<in> set (four l)),
      cl_Empty = (\<lambda>l. four l = []),
      cl_Front = (\<lambda>l. case four l of [] \<Rightarrow> None | c # _ \<Rightarrow> Some c),
      cl_Set = (\<lambda>l c. c # l),
      cl_Clear = (\<lambda>l c. removeAll c l),
      cl_Intersection = (\<lambda>l m. filter (\<lambda>c. c \<in> set m) l),
      ParseCpuStr = (\<lambda>s. Ok (if s = ''1-3'' then [1, 2, 3] else [0, 1, 2, 3])),
      siblings = (\<lambda>c. if c < 2 then [0, 1] else [2, 3]),
      l3_siblings = (\<lambda>c. [0, 1, 2, 3]),
      numa_node = (\<lambda>c. 0),
      enclave_cpus = (\<lambda>l k. (l, k)),
      StartAgentTasks = (\<lambda>k. ((), k)),
      TerminateAgentTasks = (\<lambda>as k. ((), k)),
      GetAgent = (\<lambda>c k. (Some c, k)),
      cpu_avail = (\<lambda>a k. case answer True (sc_avail k) of (x, xs) \<Rightarrow> (x, k\<lparr>sc_avail := xs\<rparr>)),
      Ping = (\<lambda>a k. ((), k)),
      committed = (\<lambda>c k. case answer True (sc_committed k) of (x, xs) \<Rightarrow> (x, k\<lparr>sc_committed := xs\<rparr>)),
      txn_state = (\<lambda>c k. case answer GHOST_TXN_COMPLETE (sc_txn k) of (x, xs) \<Rightarrow> (x, k\<lparr>sc_txn := xs\<rparr>)),
      req_Open = (\<lambda>c t b a k. ((), k)),
      req_OpenUnschedule = (\<lambda>c k. ((), k)),
      req_Commit = (\<lambda>c k. case answer True (sc_commit k) of (x, xs) \<Rightarrow> (x, k\<lparr>sc_commit := xs\<rparr>)),
      req_LocalYield = (\<lambda>c b k. ((), k)),
      SubmitRunRequests = (\<lambda>l k. ((), k)),
      sw_runtime = (\<lambda>t k. (sc_runtime k, k)),
      sw_on_cpu = (\<lambda>t k. (False, k)),
      sw_barrier = (\<lambda>t k. case answer 0 (sc_barrier k) of (x, xs) \<Rightarrow> (x, k\<lparr>sc_barrier := xs\<rparr>)),
      tid = int,
      Bernoulli_1_50 = (\<lambda>k. (False, k))\<rparr>"

lemma set_four: "set (four l) = {c. c < 4 \<and> c \<in> set l}"
proof -
  have "c \<in> set [0, 1, 2, 3] \<longleftrightarrow> c < 4" for c :: nat by auto
  then show ?thesis unfolding four_def set_filter by blast
qed

lemma sorted_four: "sorted_wrt (<) (four l)"
  unfolding four_def by (rule sorted_wrt_filter) simp

lemma four_Nil: "four [] = []"
  by (simp add: four_def)

lemma list_cpulist_spec: "cpulist_spec list_ghost"
proof -
  have m: "MAX_CPUS list_ghost = 4" "cl_elems list_ghost = four" "EmptyCpuList list_ghost = []"
    "cl_IsSet list_ghost l c = (c \<in> set (four l))" "cl_Empty list_ghost l = (four l = [])"
    "cl_Front list_ghost l = (case four l of [] \<Rightarrow> None | c # _ \<Rightarrow> Some c)"
    "cl_Set list_ghost l c = c # l" "cl_Clear list_ghost l c = removeAll c l"
    "cl_Intersection list_ghost l m = filter (\<lambda>c. c \<in> set m) l"
    "cl_Size list_ghost l = length (four l)" "cl_GetNthCpu list_ghost l n = four l ! n" for l m c n
    by (simp_all add: list_ghost_def)
  show ?thesis
    unfolding cpulist_spec_def m set_four by (intro conjI allI impI ballI) (auto simp: sorted_four four_Nil)
qed

end
