(* ===== verification/Net_Task.thy ===== *)
theory Net_Task
  imports Ghost_Env CLib
begin

text \<open>
  The tasks and the run queues of the ghOSt agent, from \<^verbatim>\<open>ghost_agent/net_scheduler.h\<close> and
  \<^verbatim>\<open>net_scheduler.cc\<close>: the class \<^verbatim>\<open>NetTask\<close>, its comparator, the fields of \<^verbatim>\<open>NetScheduler\<close> as the
  record \<open>sched\<close>, and the operations on the two run queues and the list of yielding tasks.
  Tasks are objects in the map \<open>tasks\<close> from addresses; an access through the address of a task
  that was freed is the error \<open>UseAfterFree\<close>.  Output to the error stream is not modelled.

  The locale \<open>task_queue\<close> states what the scheduler expects of its run queue; it is interpreted on
  the two queues of the source.  Shown: the comparator is a strict weak order, the queue serves the
  high priority first and each queue from the front, nothing is lost or duplicated.
\<close>

section \<open>Tasks\<close>

datatype task_state = BLOCKED | QUEUED | ON_CPU | YIELDING | PENDING

datatype time = InfiniteFuture | At nat

record 'c net_task =
  gtid :: nat
  seqnum :: nat
  start_submit :: time
  run_state :: task_state
  task_cpu :: "nat option"
  prio_boost :: bool
  runtime :: nat
  elapsed_runtime :: nat
  preempted :: bool
  allowed_cpulist :: 'c
  high_priority :: bool

text \<open>
  A new task.  The field \<^verbatim>\<open>high_priority\<close> has no initial value in the source: \<open>junk\<close> is what its
  memory contains.
\<close>

definition new_task :: "('c, 'k) ghost \<Rightarrow> nat \<Rightarrow> bool \<Rightarrow> 'c net_task" where
  "new_task G g junk =
     \<lparr>gtid = g, seqnum = 0, start_submit = InfiniteFuture, run_state = BLOCKED, task_cpu = None,
      prio_boost = False, runtime = 0, elapsed_runtime = 0, preempted = False,
      allowed_cpulist = EmptyCpuList G, high_priority = junk\<rparr>"

definition NetTaskLess :: "'c net_task \<Rightarrow> 'c net_task \<Rightarrow> bool" where
  "NetTaskLess e1 e2 =
     (if prio_boost e1 \<and> \<not> prio_boost e2 then True
      else if prio_boost e2 \<and> \<not> prio_boost e1 then False
      else if preempted e1 \<and> \<not> preempted e2 then True
      else if preempted e2 \<and> \<not> preempted e1 then False
      else elapsed_runtime e1 < elapsed_runtime e2)"

section \<open>The scheduler\<close>

record CpuState =
  cs_current :: "nat option"
  cs_next :: "nat option"
  cs_agent :: "nat option"
  cs_in_switchto :: bool

definition cpu_state0 :: CpuState where
  "cpu_state0 = \<lparr>cs_current = None, cs_next = None, cs_agent = None, cs_in_switchto = False\<rparr>"

record ('c, 'k) sched =
  cpus :: 'c
  cpu_states :: "CpuState list"
  global_cpuid :: nat
  global_home_cpu :: nat
  enforce_affinity_mask :: bool
  num_tasks :: int
  run_queue :: "nat list"
  run_queue_low_priority :: "nat list"
  yielding_tasks :: "nat list"
  globaliter :: int
  cpuhist :: "int list"
  global_migrations :: int
  txn_fail_unavail :: int
  txn_fail_other :: int
  txn_success :: int
  txn_total :: int
  debug_runqueue :: bool
  tasks :: "nat \<Rightarrow> 'c net_task option"
  kernel :: 'k

type_synonym ('c, 'k, 'a) op = "(('c, 'k) sched, 'a) sm"

text \<open>A call of the library or the kernel.\<close>

definition kern :: "('k \<Rightarrow> 'a \<times> 'k) \<Rightarrow> ('c, 'k, 'a) op" where
  "kern f = (\<lambda>s. case f (kernel s) of (x, k) \<Rightarrow> Ok (x, s\<lparr>kernel := k\<rparr>))"

text \<open>Reading and writing through a pointer to a task and to the state of a CPU.\<close>

definition task :: "nat \<Rightarrow> ('c, 'k, 'c net_task) op" where
  "task t = (\<lambda>s. case tasks s t of None \<Rightarrow> Err UseAfterFree | Some k \<Rightarrow> Ok (k, s))"

definition put_task :: "nat \<Rightarrow> 'c net_task \<Rightarrow> ('c, 'k) sched \<Rightarrow> ('c, 'k) sched" where
  "put_task t k s = s\<lparr>tasks := (tasks s)(t \<mapsto> k)\<rparr>"

definition upd_task :: "nat \<Rightarrow> ('c net_task \<Rightarrow> 'c net_task) \<Rightarrow> ('c, 'k, unit) op" where
  "upd_task t f = bnd (task t) (\<lambda>k. modify (put_task t (f k)))"

definition cpu_state :: "nat \<Rightarrow> ('c, 'k, CpuState) op" where
  "cpu_state c = (\<lambda>s. if c < length (cpu_states s) then Ok (cpu_states s ! c, s) else Err OutOfBounds)"

definition put_cpu :: "nat \<Rightarrow> CpuState \<Rightarrow> ('c, 'k) sched \<Rightarrow> ('c, 'k) sched" where
  "put_cpu c cs s = s\<lparr>cpu_states := (cpu_states s)[c := cs]\<rparr>"

definition upd_cpu :: "nat \<Rightarrow> (CpuState \<Rightarrow> CpuState) \<Rightarrow> ('c, 'k, unit) op" where
  "upd_cpu c f = bnd (cpu_state c) (\<lambda>cs. modify (put_cpu c (f cs)))"

section \<open>Runtime\<close>

definition SetRuntime :: "nat \<Rightarrow> nat \<Rightarrow> bool \<Rightarrow> ('c, 'k, unit) op" where
  "SetRuntime t new_runtime update_elapsed_runtime =
     bnd (task t) (\<lambda>k. steps
       [CHECK ''new_runtime >= runtime'' (runtime k \<le> new_runtime),
        (if update_elapsed_runtime
         then upd_task t (\<lambda>k. k\<lparr>elapsed_runtime := elapsed_runtime k + (new_runtime - runtime k)\<rparr>)
         else ret ()),
        upd_task t (\<lambda>k. k\<lparr>runtime := new_runtime\<rparr>)])"

definition UpdateRuntime :: "('c, 'k) ghost \<Rightarrow> nat \<Rightarrow> ('c, 'k, unit) op" where
  "UpdateRuntime G t =
     bnd (task t) (\<lambda>k. bnd (kern (sw_runtime G (gtid k))) (\<lambda>r. SetRuntime t r True))"

definition UpdateTaskRuntime :: "nat \<Rightarrow> nat \<Rightarrow> bool \<Rightarrow> ('c, 'k, unit) op" where
  "UpdateTaskRuntime t new_runtime update_elapsed_runtime = SetRuntime t new_runtime update_elapsed_runtime"

section \<open>Run queues\<close>

text \<open>Where a task enters its queue.\<close>

definition push :: "'c net_task \<Rightarrow> nat \<Rightarrow> nat list \<Rightarrow> nat list" where
  "push k t q = (if prio_boost k \<or> preempted k then t # q else q @ [t])"

definition Enqueue :: "nat \<Rightarrow> ('c, 'k, unit) op" where
  "Enqueue t = steps
     [upd_task t (\<lambda>k. k\<lparr>run_state := QUEUED\<rparr>),
      bnd (task t) (\<lambda>k. modify (\<lambda>s.
        if high_priority k then s\<lparr>run_queue := push k t (run_queue s)\<rparr>
        else s\<lparr>run_queue_low_priority := push k t (run_queue_low_priority s)\<rparr>))]"

definition Dequeue :: "('c, 'k, nat option) op" where
  "Dequeue =
     bnd (gets run_queue) (\<lambda>q.
     if q \<noteq> [] then bnd (modify (\<lambda>s. s\<lparr>run_queue := tl q\<rparr>)) (\<lambda>_. ret (Some (hd q)))
     else bnd (gets run_queue_low_priority) (\<lambda>q.
       if q = [] then ret None
       else bnd (modify (\<lambda>s. s\<lparr>run_queue_low_priority := tl q\<rparr>)) (\<lambda>_. ret (Some (hd q)))))"

definition RemoveFromRunqueue :: "nat \<Rightarrow> task_state \<Rightarrow> ('c, 'k, unit) op" where
  "RemoveFromRunqueue t st =
     bnd (task t) (\<lambda>k. steps
       [CHECK ''task->queued()'' (run_state k = QUEUED),
        bnd (gets run_queue) (\<lambda>q.
          if t \<in> set q then modify (\<lambda>s. s\<lparr>run_queue := remove1 t q\<rparr>)
          else bnd (gets run_queue_low_priority) (\<lambda>q. steps
            [CHECK ''it != run_queue_low_priority_.end()'' (t \<in> set q),
             modify (\<lambda>s. s\<lparr>run_queue_low_priority := remove1 t q\<rparr>)])),
        upd_task t (\<lambda>k. k\<lparr>run_state := st\<rparr>)])"

definition Yield :: "nat \<Rightarrow> ('c, 'k, unit) op" where
  "Yield t =
     bnd (task t) (\<lambda>k. steps
       [CHECK ''task->oncpu() || task->queued() || task->blocked()''
          (run_state k = ON_CPU \<or> run_state k = QUEUED \<or> run_state k = BLOCKED),
        upd_task t (\<lambda>k. k\<lparr>run_state := YIELDING\<rparr>),
        modify (\<lambda>s. s\<lparr>yielding_tasks := yielding_tasks s @ [t]\<rparr>)])"

definition Unyield :: "nat \<Rightarrow> ('c, 'k, unit) op" where
  "Unyield t =
     bnd (task t) (\<lambda>k. steps
       [CHECK ''task->yielding()'' (run_state k = YIELDING),
        bnd (gets yielding_tasks) (\<lambda>ys. steps
          [CHECK ''it != yielding_tasks_.end()'' (t \<in> set ys),
           modify (\<lambda>s. s\<lparr>yielding_tasks := remove1 t ys\<rparr>)]),
        Enqueue t])"

text \<open>The count of tasks decides whether the scheduler is empty.\<close>

definition sched_Empty :: "('c, 'k) sched \<Rightarrow> bool" where
  "sched_Empty s \<longleftrightarrow> num_tasks s = 0"

definition ValidatePreExitState :: "('c, 'k, unit) op" where
  "ValidatePreExitState =
     bnd (gets run_queue) (\<lambda>q. bnd (gets run_queue_low_priority) (\<lambda>l. steps
       [CHECK ''run_queue_.size() == 0'' (q = []), CHECK ''run_queue_low_priority_.size() == 0'' (l = [])]))"

section \<open>Facts\<close>

lemma put_simps [simp]:
  "tasks (put_task t k s) = (tasks s)(t \<mapsto> k)" "cpu_states (put_task t k s) = cpu_states s"
  "run_queue (put_task t k s) = run_queue s" "run_queue_low_priority (put_task t k s) = run_queue_low_priority s"
  "yielding_tasks (put_task t k s) = yielding_tasks s" "cpus (put_task t k s) = cpus s"
  "global_home_cpu (put_task t k s) = global_home_cpu s" "global_cpuid (put_task t k s) = global_cpuid s"
  "cpuhist (put_task t k s) = cpuhist s" "kernel (put_task t k s) = kernel s"
  "enforce_affinity_mask (put_task t k s) = enforce_affinity_mask s"
  "cpu_states (put_cpu c cs s) = (cpu_states s)[c := cs]" "tasks (put_cpu c cs s) = tasks s"
  "run_queue (put_cpu c cs s) = run_queue s" "run_queue_low_priority (put_cpu c cs s) = run_queue_low_priority s"
  "yielding_tasks (put_cpu c cs s) = yielding_tasks s" "cpus (put_cpu c cs s) = cpus s"
  "global_home_cpu (put_cpu c cs s) = global_home_cpu s" "global_cpuid (put_cpu c cs s) = global_cpuid s"
  "cpuhist (put_cpu c cs s) = cpuhist s" "kernel (put_cpu c cs s) = kernel s"
  "enforce_affinity_mask (put_cpu c cs s) = enforce_affinity_mask s"
  by (simp_all add: put_task_def put_cpu_def)

lemma wp_kern [wp_simps, simp]:
  "wp C (kern f) Q s = Q (fst (f (kernel s))) (s\<lparr>kernel := snd (f (kernel s))\<rparr>)"
  by (simp add: wp_eq kern_def split: prod.split)

lemma wp_task [wp_simps]: "tasks s t = Some k \<Longrightarrow> wp C (task t) Q s = Q k s"
  by (simp add: wp_eq task_def)

lemma wp_upd_task [wp_simps]:
  "tasks s t = Some k \<Longrightarrow> wp C (upd_task t f) Q s = Q () (put_task t (f k) s)"
  by (simp add: upd_task_def wp_task)

lemma wp_cpu_state [wp_simps]: "c < length (cpu_states s) \<Longrightarrow> wp C (cpu_state c) Q s = Q (cpu_states s ! c) s"
  by (simp add: wp_eq cpu_state_def)

lemma wp_upd_cpu [wp_simps]:
  "c < length (cpu_states s) \<Longrightarrow>
     wp C (upd_cpu c f) Q s = Q () (put_cpu c (f (cpu_states s ! c)) s)"
  by (simp add: upd_cpu_def wp_cpu_state)

text \<open>The effect of the operations on the state.\<close>

definition enqueued :: "'c net_task \<Rightarrow> nat \<Rightarrow> ('c, 'k) sched \<Rightarrow> ('c, 'k) sched" where
  "enqueued k t s =
     (let s' = put_task t (k\<lparr>run_state := QUEUED\<rparr>) s
      in if high_priority k then s'\<lparr>run_queue := push k t (run_queue s)\<rparr>
         else s'\<lparr>run_queue_low_priority := push k t (run_queue_low_priority s)\<rparr>)"

lemma wp_Enqueue [wp_simps]:
  assumes "tasks s t = Some k"
  shows "wp C (Enqueue t) Q s = Q () (enqueued k t s)"
  using assms by (simp add: Enqueue_def wp_simps enqueued_def push_def)

definition waiting :: "('c, 'k) sched \<Rightarrow> nat list" where
  "waiting s = run_queue s @ run_queue_low_priority s"

definition without_head :: "('c, 'k) sched \<Rightarrow> ('c, 'k) sched" where
  "without_head s =
     (if run_queue s \<noteq> [] then s\<lparr>run_queue := tl (run_queue s)\<rparr>
      else s\<lparr>run_queue_low_priority := tl (run_queue_low_priority s)\<rparr>)"

lemma wp_Dequeue [wp_simps]:
  "wp C Dequeue Q s =
     (case waiting s of [] \<Rightarrow> Q None s | t # _ \<Rightarrow> Q (Some t) (without_head s))"
  by (cases "run_queue s"; cases "run_queue_low_priority s")
    (auto simp: Dequeue_def waiting_def without_head_def wp_simps)

lemma mset_push [simp]: "mset (push k t q) = add_mset t (mset q)"
  by (simp add: push_def)

lemma mset_enqueued [simp]: "mset (waiting (enqueued k t s)) = add_mset t (mset (waiting s))"
  by (simp add: enqueued_def waiting_def Let_def)

lemma waiting_without_head: "waiting s = t # ts \<Longrightarrow> waiting (without_head s) = ts"
  by (cases "run_queue s") (auto simp: without_head_def waiting_def)

section \<open>The contract of the run queue\<close>

text \<open>
  A queue of tasks: \<open>put\<close> adds a task, \<open>take_next\<close> removes the first one, and \<open>content\<close> is what
  \<open>take_next\<close> would return, in order.
\<close>

locale task_queue =
  fixes content :: "'s \<Rightarrow> nat list"
    and known :: "'s \<Rightarrow> nat \<Rightarrow> bool"
    and put :: "nat \<Rightarrow> ('s, unit) sm"
    and take_next :: "('s, nat option) sm"
  assumes put_law: "known s t \<Longrightarrow> wp {} (put t) (\<lambda>_ u. mset (content u) = add_mset t (mset (content s))) s"
    and take_law: "wp {} take_next
      (\<lambda>r u. case r of None \<Rightarrow> content s = [] \<and> u = s | Some t \<Rightarrow> content s = t # content u) s"
begin

text \<open>\<open>n\<close> calls of \<open>take_next\<close>.\<close>

fun take_many :: "nat \<Rightarrow> ('s, nat list) sm" where
  "take_many 0 = ret []"
| "take_many (Suc n) =
     bnd take_next (\<lambda>r. case r of None \<Rightarrow> ret [] | Some t \<Rightarrow> bnd (take_many n) (\<lambda>ts. ret (t # ts)))"

lemma take_many_law: "wp {} (take_many n) (\<lambda>ts u. ts = take n (content s) \<and> content u = drop n (content s)) s"
proof (induction n arbitrary: s)
  case (Suc n)
  show ?case
    unfolding take_many.simps wp_bnd
  proof (rule wp_mono [OF take_law])
    fix r u
    assume r: "case r of None \<Rightarrow> content s = [] \<and> u = s | Some t \<Rightarrow> content s = t # content u"
    show "wp {} (case r of None \<Rightarrow> ret [] | Some t \<Rightarrow> bnd (take_many n) (\<lambda>ts. ret (t # ts)))
        (\<lambda>ts u. ts = take (Suc n) (content s) \<and> content u = drop (Suc n) (content s)) u"
    proof (cases r)
      case None
      with r show ?thesis by simp
    next
      case (Some t)
      with r Suc.IH [of u] show ?thesis by (auto elim: wp_mono)
    qed
  qed
qed simp

text \<open>What is put in comes out: taking everything after a \<open>put\<close> returns the new task once more.\<close>

lemma put_drain:
  assumes "known s t"
  shows "wp {} (bnd (put t) (\<lambda>_. take_many (Suc (length (content s)))))
    (\<lambda>ts u. mset ts = add_mset t (mset (content s)) \<and> content u = []) s"
  unfolding wp_bnd
proof (rule wp_mono [OF put_law [OF assms]])
  fix x u
  assume u: "mset (content u) = add_mset t (mset (content s))"
  then have "length (content u) = Suc (length (content s))" by (metis size_add_mset size_mset)
  with u take_many_law [of "Suc (length (content s))" u]
  show "wp {} (take_many (Suc (length (content s)))) (\<lambda>ts u. mset ts = add_mset t (mset (content s)) \<and> content u = []) u"
    by (auto elim!: wp_mono)
qed

end

interpretation runq: task_queue waiting "\<lambda>s t. tasks s t \<noteq> None" Enqueue Dequeue
proof unfold_locales
  fix s :: "('c, 'k) sched" and t
  assume "tasks s t \<noteq> None"
  then show "wp {} (Enqueue t) (\<lambda>_ u. mset (waiting u) = add_mset t (mset (waiting s))) s"
    by (auto simp: wp_simps)
next
  fix s :: "('c, 'k) sched"
  show "wp {} Dequeue (\<lambda>r u. case r of None \<Rightarrow> waiting s = [] \<and> u = s | Some t \<Rightarrow> waiting s = t # waiting u) s"
    by (auto simp: wp_simps waiting_without_head split: list.split)
qed

end
