(* ===== verification/Net_Pick.thy ===== *)
theory Net_Pick
  imports Net_Task
begin

text \<open>
  The choice of a CPU for a task, \<^verbatim>\<open>PickNextCpu\<close> of \<^verbatim>\<open>ghost_agent/net_scheduler.cc\<close>.  The source
  tries the previous CPU, its siblings, the CPUs that share its last-level cache and those of its
  node, one intersection of CPU lists after the other, and remarks that one pass over the list
  should do.  \<open>nearest\<close> is that pass: the first CPU at the least distance.  Shown: both agree on
  every input, so the choice is an available CPU that the task allows, at the least distance from
  the previous one, and there is none only when no available CPU is allowed.
\<close>

section \<open>The choice\<close>

definition PickNextCpu :: "('c, 'k) ghost \<Rightarrow> 'c \<Rightarrow> 'c net_task \<Rightarrow> bool \<Rightarrow> nat option" where
  "PickNextCpu G avail_cpus k enforce_affinity =
     (let allowed_cpus =
            (if enforce_affinity then cl_Intersection G (allowed_cpulist k) avail_cpus else avail_cpus)
      in if cl_Empty G allowed_cpus then None
         else
           (case task_cpu k of
              None \<Rightarrow> cl_Front G allowed_cpus
            | Some previous_cpu \<Rightarrow>
                if cl_IsSet G allowed_cpus previous_cpu then Some previous_cpu
                else
                  (case cl_Front G (cl_Intersection G allowed_cpus (siblings G previous_cpu)) of
                     Some sibling_cpu \<Rightarrow> Some sibling_cpu
                   | None \<Rightarrow>
                       (case cl_Front G (cl_Intersection G allowed_cpus (l3_siblings G previous_cpu)) of
                          Some l3_sibling_cpu \<Rightarrow> Some l3_sibling_cpu
                        | None \<Rightarrow>
                            (case find (\<lambda>c. numa_node G previous_cpu = numa_node G c) (cl_elems G allowed_cpus) of
                               Some allowed_cpu \<Rightarrow> Some allowed_cpu
                             | None \<Rightarrow> cl_Front G allowed_cpus)))))"

section \<open>One pass\<close>

fun nearest :: "(nat \<Rightarrow> nat) \<Rightarrow> nat list \<Rightarrow> nat option" where
  "nearest d [] = None"
| "nearest d (c # cs) =
     (case nearest d cs of
        None \<Rightarrow> Some c
      | Some e \<Rightarrow> if d c \<le> d e then Some c else Some e)"

definition distance :: "('c, 'k) ghost \<Rightarrow> nat option \<Rightarrow> nat \<Rightarrow> nat" where
  "distance G previous c =
     (case previous of
        None \<Rightarrow> 0
      | Some p \<Rightarrow>
          if c = p then 0
          else if c \<in> set (cl_elems G (siblings G p)) then 1
          else if c \<in> set (cl_elems G (l3_siblings G p)) then 2
          else if numa_node G p = numa_node G c then 3
          else 4)"

definition candidates :: "('c, 'k) ghost \<Rightarrow> 'c \<Rightarrow> 'c net_task \<Rightarrow> bool \<Rightarrow> nat list" where
  "candidates G avail k enforce =
     filter (\<lambda>c. enforce \<longrightarrow> c \<in> set (cl_elems G (allowed_cpulist k))) (cl_elems G avail)"

section \<open>Facts\<close>

lemma nearest_None: "nearest d cs = None \<longleftrightarrow> cs = []"
  by (cases cs) (auto split: option.split)

lemma nearest_least:
  "nearest d cs = Some c \<Longrightarrow> c \<in> set cs \<and> (\<forall>e \<in> set cs. d c \<le> d e)"
proof (induction cs arbitrary: c)
  case (Cons x cs)
  then show ?case
    by (cases "nearest d cs") (fastforce simp: nearest_None split: if_splits)+
qed simp

text \<open>If no CPU is nearer than \<open>n\<close>, the first one at distance \<open>n\<close> is chosen.\<close>

lemma nearest_find:
  assumes "\<forall>c \<in> set cs. n \<le> d c" and "find (\<lambda>c. d c = n) cs = Some c"
  shows "nearest d cs = Some c"
  using assms
proof (induction cs)
  case (Cons x cs)
  show ?case
  proof (cases "d x = n")
    case True
    with Cons.prems show ?thesis
      by (auto dest!: nearest_least [THEN conjunct1] split: option.split)
  next
    case False
    with Cons.prems have c: "find (\<lambda>c. d c = n) cs = Some c" by simp
    then have "d c = n" by (auto simp: find_Some_iff)
    with False Cons.prems(1) Cons.IH c show ?thesis by auto
  qed
qed simp

lemma nearest_const: "nearest (\<lambda>_. n) cs = (case cs of [] \<Rightarrow> None | c # _ \<Rightarrow> Some c)"
  by (cases cs) (auto split: option.split)

lemma front_filter: "(case filter P cs of [] \<Rightarrow> None | c # _ \<Rightarrow> Some c) = find P cs"
  by (induction cs) auto

lemma elems_allowed:
  assumes "cpulist_spec G"
  shows "cl_elems G (if enforce then cl_Intersection G (allowed_cpulist k) avail else avail) =
    candidates G avail k enforce"
proof (cases enforce)
  case True
  have "cl_elems G (cl_Intersection G (allowed_cpulist k) avail) = candidates G avail k True"
    unfolding candidates_def
    by (rule sorted_eqI)
      (auto simp: cpulist_simps(7) [OF assms] cpulist_elems(1) [OF assms] intro: sorted_wrt_filter)
  with True show ?thesis by simp
qed (simp add: candidates_def)

text \<open>Trying one distance after the other finds the nearest.\<close>

lemma find_eq_None: "find P cs = None \<longleftrightarrow> (\<forall>c \<in> set cs. \<not> P c)"
  by (auto simp: find_None_iff)

lemma cascade:
  assumes "cs \<noteq> []" and "d = distance G (Some p)"
  shows "nearest d cs =
    (if p \<in> set cs then Some p
     else case find (\<lambda>c. c \<in> set (cl_elems G (siblings G p))) cs of
       Some c \<Rightarrow> Some c
     | None \<Rightarrow>
         (case find (\<lambda>c. c \<in> set (cl_elems G (l3_siblings G p))) cs of
            Some c \<Rightarrow> Some c
          | None \<Rightarrow>
              (case find (\<lambda>c. numa_node G p = numa_node G c) cs of
                 Some c \<Rightarrow> Some c
               | None \<Rightarrow> Some (hd cs))))" (is "_ = ?rhs")
proof -
  have first: "nearest d cs = find (\<lambda>c. d c = n) cs"
    if "\<forall>c \<in> set cs. n \<le> d c" "find (\<lambda>c. d c = n) cs \<noteq> None" for n
    using nearest_find [OF that(1)] that(2) by auto
  have same: "find P cs = find (\<lambda>c. d c = n) cs" if "\<forall>c \<in> set cs. P c \<longleftrightarrow> d c = n" for P n
    by (rule find_cong) (use that in auto)
  let ?s = "\<lambda>c. c \<in> set (cl_elems G (siblings G p))" and ?l = "\<lambda>c. c \<in> set (cl_elems G (l3_siblings G p))"
    and ?m = "\<lambda>c. numa_node G p = numa_node G c"
  show ?thesis
  proof (cases "p \<in> set cs")
    case True
    have "find (\<lambda>c. c = p) cs = Some p" using True by (induction cs) auto
    moreover have "\<forall>c \<in> set cs. c = p \<longleftrightarrow> d c = 0" by (auto simp: assms(2) distance_def)
    ultimately show ?thesis using True first [of 0] same [of "\<lambda>c. c = p" 0] by simp
  next
    case p: False
    show ?thesis
    proof (cases "find ?s cs")
      case (Some c)
      have "\<forall>c \<in> set cs. ?s c \<longleftrightarrow> d c = 1" "\<forall>c \<in> set cs. 1 \<le> d c"
        using p by (auto simp: assms(2) distance_def split: if_splits)
      with Some first [of 1] same [of ?s 1] p show ?thesis by simp
    next
      case s: None
      show ?thesis
      proof (cases "find ?l cs")
        case (Some c)
        have "\<forall>c \<in> set cs. ?l c \<longleftrightarrow> d c = 2" "\<forall>c \<in> set cs. 2 \<le> d c"
          using p s by (auto simp: assms(2) distance_def find_eq_None split: if_splits)
        with Some first [of 2] same [of ?l 2] p s show ?thesis by simp
      next
        case l: None
        show ?thesis
        proof (cases "find ?m cs")
          case (Some c)
          have "\<forall>c \<in> set cs. ?m c \<longleftrightarrow> d c = 3" "\<forall>c \<in> set cs. 3 \<le> d c"
            using p s l by (auto simp: assms(2) distance_def find_eq_None split: if_splits)
          with Some first [of 3] same [of ?m 3] p s l show ?thesis by simp
        next
          case m: None
          have far: "\<forall>c \<in> set cs. d c = 4"
            using p s l m by (auto simp: assms(2) distance_def find_eq_None)
          moreover obtain x xs where cs: "cs = x # xs" using assms(1) by (cases cs) auto
          ultimately have "find (\<lambda>c. d c = 4) cs = Some x" by simp
          with far first [of 4] p s l m cs show ?thesis by simp
        qed
      qed
    qed
  qed
qed

lemma PickNextCpu_nearest:
  assumes "cpulist_spec G"
  shows "PickNextCpu G avail k enforce = nearest (distance G (task_cpu k)) (candidates G avail k enforce)"
proof -
  let ?cs = "candidates G avail k enforce"
  define l where "l = (if enforce then cl_Intersection G (allowed_cpulist k) avail else avail)"
  have els: "cl_elems G l = ?cs" unfolding l_def by (rule elems_allowed [OF assms])
  note cl = cpulist_simps [OF assms] elems_Intersection [OF assms] els
  note pick = PickNextCpu_def [of G avail k enforce, folded l_def, unfolded Let_def]
  show ?thesis
  proof (cases "?cs = []")
    case True
    then show ?thesis by (simp add: pick cl)
  next
    case False
    then obtain x xs where cs: "?cs = x # xs" by (cases ?cs) auto
    show ?thesis
    proof (cases "task_cpu k")
      case None
      then have "distance G (task_cpu k) = (\<lambda>_. 0)" by (simp add: distance_def fun_eq_iff)
      with None cs show ?thesis by (simp add: pick cl nearest_const del: nearest.simps)
    next
      case (Some p)
      have 1: "cl_Front G (cl_Intersection G l m) = find (\<lambda>c. c \<in> set (cl_elems G m)) ?cs" for m
        by (simp add: cl front_filter)
      have 2: "cl_Front G l = Some (hd ?cs)" by (simp add: cl cs)
      have "cl_IsSet G l p \<longleftrightarrow> p \<in> set ?cs" "cl_Empty G l \<longleftrightarrow> False" using False by (simp_all add: cl)
      then show ?thesis unfolding pick Some cascade [OF False refl] els 1 2 by simp
    qed
  qed
qed

end
