(* ===== verification/Cgroup.thy ===== *)
theory Cgroup
  imports Ghost_Env CLib
begin

text \<open>
  The search for threads that ghOSt should schedule, \<^verbatim>\<open>ghost_agent/cgroup_watcher.cc\<close>: the tree of
  control groups is walked, and in every group that a rule names the threads whose name the rule
  matches are moved to the scheduling class of ghOSt.  Each function of the source is one
  definition; the body of a loop is a definition of its own.  An exception that leaves the
  function, of the file system or of \<^verbatim>\<open>std::stoi\<close>, is the error \<open>Uncaught\<close>: nothing catches it.

  The theory holds the definitions; that the walk returns, and what it does, is shown in
  \<open>Cgroup_Props\<close>.
\<close>

section \<open>The library\<close>

text \<open>An operation of \<^verbatim>\<open>std::filesystem\<close>, which may throw.\<close>

definition sys_throws :: "('k \<Rightarrow> 'a option \<times> 'k) \<Rightarrow> ('k, 'a) sm" where
  "sys_throws f = bnd (sys f) (\<lambda>r. case r of None \<Rightarrow> fail (Uncaught ''filesystem_error'') | Some x \<Rightarrow> ret x)"

text \<open>\<^verbatim>\<open>std::stoi\<close>, which reads an \<^verbatim>\<open>int\<close> of 32 bits.\<close>

definition strip_sign :: "string \<Rightarrow> bool \<times> string" where
  "strip_sign s =
     (case s of
        [] \<Rightarrow> (False, [])
      | c # cs \<Rightarrow> if c = CHR ''-'' then (True, cs) else if c = CHR ''+'' then (False, cs) else (False, s))"

definition stoi :: "string \<Rightarrow> int res" where
  "stoi s =
     (case strip_sign (dropWhile isspace_c s) of
        (neg, s') \<Rightarrow>
          let ds = takeWhile is_digit s'; n = int (digits_val 0 ds); v = (if neg then - n else n)
          in if ds = [] then Err (Uncaught ''invalid_argument'')
             else if v < - (2 ^ 31) \<or> 2 ^ 31 \<le> v then Err (Uncaught ''out_of_range'')
             else Ok v)"

text \<open>The lines that \<^verbatim>\<open>std::getline\<close> reads, one call after the other.\<close>

fun getlines :: "string \<Rightarrow> string list" where
  "getlines [] = []"
| "getlines (c # s) =
     (if c = CHR 0x0A then [] # getlines s
      else (case getlines s of [] \<Rightarrow> [[c]] | l # ls \<Rightarrow> (c # l) # ls))"

text \<open>The operator \<^verbatim>\<open>/\<close> on paths, with a relative path on the right.\<close>

definition path_append :: "string \<Rightarrow> string \<Rightarrow> string" where
  "path_append p q = (if p = [] \<or> last p = CHR ''/'' then p @ q else p @ CHR ''/'' # q)"

section \<open>Moving threads\<close>

definition GetTaskName :: "('k, 'z) os_scheme \<Rightarrow> int \<Rightarrow> 'k \<Rightarrow> string \<times> 'k" where
  "GetTaskName H t k =
     (case read_file H (''/proc/'' @ dec_int t @ ''/comm'') k of
        (r, k') \<Rightarrow> (case r of None \<Rightarrow> [] | Some contents \<Rightarrow> contents, k'))"

definition MoveToScheduler :: "('k, 'z) os_scheme \<Rightarrow> int \<Rightarrow> int \<Rightarrow> ('k, bool) sm" where
  "MoveToScheduler H t scheduler =
     bnd (sys (sched_getscheduler H t)) (\<lambda>p.
     if p = scheduler then ret False
     else
       bnd (sys (if scheduler = SCHED_GHOST H then SchedTaskEnterGhost H t
                 else sched_setscheduler H t scheduler)) (\<lambda>r.
       if r = 0 then
         bnd (sys (sched_getscheduler H t)) (\<lambda>p.
         bnd (CHECK ''sched_getscheduler(tid) == scheduler'' (p = scheduler)) (\<lambda>_. ret True))
       else ret False))"

definition moved_message :: "string \<Rightarrow> int \<Rightarrow> string \<Rightarrow> string" where
  "moved_message name t cg = ''Moved task '' @ name @ '' pid='' @ dec_int t @ '' under '' @ cg @ [CHR 0x0A]"

text \<open>One turn of the loop over the lines of the file of threads.\<close>

definition move_line :: "('k, 'z) os_scheme \<Rightarrow> string \<Rightarrow> string \<Rightarrow> string \<Rightarrow> int \<Rightarrow> ('k, int) sm" where
  "move_line H control_group_path name_pattern line moved =
     bnd (lift_res (stoi line)) (\<lambda>t.
     bnd (sys (GetTaskName H t)) (\<lambda>task_name.
     if name_pattern = ''*'' \<or> StrContains H task_name name_pattern then
       bnd (MoveToScheduler H t (SCHED_GHOST H)) (\<lambda>b.
       if b then
         bnd (sys (GetTaskName H t)) (\<lambda>task_name.
         bnd (sys (append_file H ''/tmp/logging'' (moved_message task_name t control_group_path))) (\<lambda>_.
           ret (moved + 1)))
       else ret moved)
     else ret moved))"

definition MoveTasksToGhost :: "('k, 'z) os_scheme \<Rightarrow> string \<Rightarrow> string \<Rightarrow> ('k, int) sm" where
  "MoveTasksToGhost H control_group_path name_pattern =
     (let tasks_path = path_append control_group_path ''tasks'' in
      bnd (sys_throws (fs_exists H tasks_path)) (\<lambda>e.
      if \<not> e then ret 0
      else
        bnd (sys (read_file H tasks_path)) (\<lambda>r.
          fold_m (move_line H control_group_path name_pattern)
            (case r of None \<Rightarrow> [] | Some contents \<Rightarrow> getlines contents) 0)))"

section \<open>The walk\<close>

definition kCgroupPathPrefix :: string where
  "kCgroupPathPrefix = ''/sys/fs/cgroup/cpu''"

text \<open>
  The rules, from patterns of control groups to patterns of threads, are listed in the order in
  which the hash map is iterated.
\<close>

type_synonym rules = "(string \<times> string) list"

definition apply_rule ::
  "('k, 'z) os_scheme \<Rightarrow> string \<Rightarrow> string \<Rightarrow> string \<times> string \<Rightarrow> int \<Rightarrow> ('k, int) sm" where
  "apply_rule H path cgroup_name = (\<lambda>(cgroup_pattern, task_name_pattern) moved.
     if StrContains H cgroup_name cgroup_pattern
     then bnd (MoveTasksToGhost H path task_name_pattern) (\<lambda>m. ret (moved + m))
     else ret moved)"

definition apply_rules :: "('k, 'z) os_scheme \<Rightarrow> string \<Rightarrow> rules \<Rightarrow> ('k, int) sm" where
  "apply_rules H path rules =
     (if length path < length kCgroupPathPrefix then fail (Uncaught ''out_of_range'')
      else
        (let cgroup_name = drop (length kCgroupPathPrefix) path in
         bnd (case map_of rules cgroup_name of
                None \<Rightarrow> ret 0
              | Some task_name_pattern \<Rightarrow> MoveTasksToGhost H path task_name_pattern)
           (fold_m (apply_rule H path cgroup_name) rules)))"

text \<open>One turn of the loop over the entries of a directory; \<open>scrape\<close> is the recursive call.\<close>

definition visit_entry ::
  "('k, 'z) os_scheme \<Rightarrow> (string \<Rightarrow> ('k, int) sm) \<Rightarrow> string \<Rightarrow> int \<Rightarrow> ('k, int) sm" where
  "visit_entry H scrape child_path moved =
     bnd (sys_throws (fs_is_directory H child_path)) (\<lambda>d.
     if d then bnd (scrape child_path) (\<lambda>m. ret (moved + m)) else ret moved)"

fun ScrapeDirectory ::
  "('k, 'z) os_scheme \<Rightarrow> nat \<Rightarrow> string \<Rightarrow> rules \<Rightarrow> string \<Rightarrow> ('k, int) sm" where
  "ScrapeDirectory H 0 skipdir rules path = fail OutOfFuel"
| "ScrapeDirectory H (Suc n) skipdir rules path =
     (if skipdir = path then ret 0
      else
        bnd (apply_rules H path rules) (\<lambda>moved.
        bnd (sys_throws (directory_iterator H path)) (\<lambda>files.
          fold_m (visit_entry H (ScrapeDirectory H n skipdir rules)) files moved)))"

text \<open>
  Linux refuses a path of \<^verbatim>\<open>PATH_MAX\<close> bytes, including the terminating one; every level of
  directories makes the path longer.
\<close>

definition PATH_MAX :: nat where
  "PATH_MAX = 4096"

definition walk_fuel :: nat where
  "walk_fuel = PATH_MAX + 1"

definition ScrapeCgroups :: "('k, 'z) os_scheme \<Rightarrow> string \<Rightarrow> rules \<Rightarrow> ('k, int) sm" where
  "ScrapeCgroups H skipdir rules = ScrapeDirectory H walk_fuel skipdir rules kCgroupPathPrefix"

end
