(* ===== verification/Net_Sched.thy ===== *)
theory Net_Sched
  imports Net_Pick Cgroup
begin

text \<open>
  The scheduler of the ghOSt agent, the rest of \<^verbatim>\<open>ghost_agent/net_scheduler.cc\<close>: the handlers of
  the kernel's messages, transactions and their completion, preemption, one round of scheduling,
  the migration of the global agent, and the loop of an agent thread.  Each member function of
  \<^verbatim>\<open>NetScheduler\<close> is one definition of the same name; a loop body or a passage that several
  functions share is a definition of its own.  Only definitions here; the invariant is in
  \<open>Net_Inv\<close>, the properties in \<open>Net_Props\<close>.
\<close>

section \<open>Set-up\<close>

text \<open>
  The constructor.  The histogram and the flag for the affinity are not initialised: \<open>junk\<close> and
  \<open>flag\<close> are what their memory contains.
\<close>

definition kCpuHistLen :: nat where
  "kCpuHistLen = 12"

definition NetScheduler ::
  "('c, 'k) ghost \<Rightarrow> 'c \<Rightarrow> nat \<Rightarrow> int list \<Rightarrow> bool \<Rightarrow> 'k \<Rightarrow> ('c, 'k) sched res" where
  "NetScheduler G cpulist global_cpu junk flag k =
     (let s =
        \<lparr>cpus = cpulist, cpu_states = replicate (MAX_CPUS G) cpu_state0, global_cpuid = global_cpu,
         global_home_cpu = global_cpu, enforce_affinity_mask = flag, num_tasks = 0, run_queue = [],
         run_queue_low_priority = [], yielding_tasks = [], globaliter = 0, cpuhist = junk,
         global_migrations = 0, txn_fail_unavail = 0, txn_fail_other = 0, txn_success = 0, txn_total = 0,
         debug_runqueue = False, tasks = (\<lambda>_. None), kernel = k\<rparr>
      in if \<not> cl_IsSet G cpulist global_cpu
         then (case cl_Front G cpulist of
                 None \<Rightarrow> Err (CheckFailed ''c.valid()'')
               | Some c \<Rightarrow> Ok (s\<lparr>global_home_cpu := c, global_cpuid := c\<rparr>))
         else Ok s)"

definition SetEnforceAffinityMask :: "bool \<Rightarrow> ('c, 'k, unit) op" where
  "SetEnforceAffinityMask b = modify (\<lambda>s. s\<lparr>enforce_affinity_mask := b\<rparr>)"

definition EnclaveReady :: "('c, 'k) ghost \<Rightarrow> ('c, 'k, unit) op" where
  "EnclaveReady G =
     bnd (gets cpus) (\<lambda>l. each (\<lambda>c.
       bnd (cpu_state c) (\<lambda>_.
       bnd (kern (GetAgent G c)) (\<lambda>a. steps
         [upd_cpu c (\<lambda>cs. cs\<lparr>cs_agent := a\<rparr>), CHECK ''cs->agent != nullptr'' (a \<noteq> None)]))) (cl_elems G l))"

definition Available :: "('c, 'k) ghost \<Rightarrow> nat \<Rightarrow> ('c, 'k, bool) op" where
  "Available G c =
     bnd (cpu_state c) (\<lambda>cs.
       case cs_agent cs of None \<Rightarrow> fail NullDeref | Some a \<Rightarrow> kern (cpu_avail G a))"

section \<open>Transactions\<close>

definition cpu_state_of :: "nat \<Rightarrow> ('c, 'k, nat) op" where
  "cpu_state_of t =
     bnd (task t) (\<lambda>k.
       case task_cpu k of
         None \<Rightarrow> fail (CheckFailed ''t->cpu.valid()'')
       | Some c \<Rightarrow>
           bnd (CHECK ''t->oncpu() || t->pending()'' (run_state k = ON_CPU \<or> run_state k = PENDING)) (\<lambda>_.
           bnd (cpu_state c) (\<lambda>cs.
           bnd (CHECK ''(cs->current == t) || (cs->next == t)''
             (cs_current cs = Some t \<or> cs_next cs = Some t)) (\<lambda>_. ret c))))"

definition SyncCpuState :: "('c, 'k) ghost \<Rightarrow> nat option \<Rightarrow> ('c, 'k, bool) op" where
  "SyncCpuState G cpu =
     (case cpu of
        None \<Rightarrow> fail (CheckFailed ''cpu.valid()'')
      | Some c \<Rightarrow>
          bnd (cpu_state c) (\<lambda>cs.
          case cs_next cs of
            None \<Rightarrow> ret True
          | Some nx \<Rightarrow>
              bnd (task nx) (\<lambda>k.
              bnd (CHECK ''!next->queued()'' (run_state k \<noteq> QUEUED)) (\<lambda>_.
              bnd (kern (committed G c)) (\<lambda>b.
              bnd (CHECK ''req->committed()'' b) (\<lambda>_.
              bnd (upd_cpu c (\<lambda>cs. cs\<lparr>cs_next := None\<rparr>)) (\<lambda>_.
              bnd (kern (txn_state G c)) (\<lambda>st.
                if st = GHOST_TXN_COMPLETE then
                  bnd (steps
                    [upd_cpu c (\<lambda>cs. cs\<lparr>cs_current := Some nx\<rparr>),
                     upd_task nx (\<lambda>k. k\<lparr>run_state := ON_CPU, prio_boost := False, task_cpu := Some c\<rparr>),
                     modify (\<lambda>s. s\<lparr>txn_success := txn_success s + 1\<rparr>)]) (\<lambda>_. ret True)
                else
                  bnd (steps
                    [upd_task nx (\<lambda>k. k\<lparr>task_cpu := None, start_submit := InfiniteFuture\<rparr>),
                     Enqueue nx,
                     bnd (kern (txn_state G c)) (\<lambda>st. modify (\<lambda>s.
                       if st = GHOST_TXN_CPU_UNAVAIL then s\<lparr>txn_fail_unavail := txn_fail_unavail s + 1\<rparr>
                       else s\<lparr>txn_fail_other := txn_fail_other s + 1\<rparr>))]) (\<lambda>_. ret False)))))))))"

section \<open>Messages\<close>

text \<open>The payload of the messages about a task that leaves a CPU.\<close>

record payload =
  pl_runtime :: nat
  pl_from_switchto :: bool
  pl_cpu :: int

definition CpuEnteringSwitchto :: "('c, 'k) ghost \<Rightarrow> int \<Rightarrow> ('c, 'k, unit) op" where
  "CpuEnteringSwitchto G c =
     bnd (steps [CHECK ''cpu >= 0'' (0 \<le> c), CHECK ''cpu < MAX_CPUS'' (c < int (MAX_CPUS G))]) (\<lambda>_.
     bnd (cpu_state (nat c)) (\<lambda>cs. steps
       [CHECK ''!cs->in_switchto'' (\<not> cs_in_switchto cs),
        upd_cpu (nat c) (\<lambda>cs. cs\<lparr>cs_in_switchto := True\<rparr>)]))"

definition CpuLeavingSwitchto :: "('c, 'k) ghost \<Rightarrow> int \<Rightarrow> ('c, 'k, unit) op" where
  "CpuLeavingSwitchto G c =
     bnd (steps [CHECK ''cpu >= 0'' (0 \<le> c), CHECK ''cpu < MAX_CPUS'' (c < int (MAX_CPUS G))]) (\<lambda>_.
     bnd (cpu_state (nat c)) (\<lambda>cs. steps
       [CHECK ''cs->in_switchto'' (cs_in_switchto cs),
        upd_cpu (nat c) (\<lambda>cs. cs\<lparr>cs_in_switchto := False\<rparr>)]))"

definition AdjustTaskPriority :: "('c, 'k) ghost \<Rightarrow> nat \<Rightarrow> ('c, 'k, unit) op" where
  "AdjustTaskPriority G t =
     bnd (task t) (\<lambda>k.
     bnd (kern (GetTaskName G (tid G (gtid k)))) (\<lambda>task_name.
       upd_task t (\<lambda>k. k\<lparr>high_priority := StrContains G task_name ''EngineThread''\<rparr>)))"

text \<open>The CPUs of the scheduler that the task may run on.\<close>

definition set_allowed_cpus :: "('c, 'k) ghost \<Rightarrow> nat \<Rightarrow> ('c, 'k, unit) op" where
  "set_allowed_cpus G t = steps
     [bnd (task t) (\<lambda>k.
      bnd (kern (sched_getaffinity G (tid G (gtid k)))) (\<lambda>mask.
        case mask of
          None \<Rightarrow> fail (CheckFailed ''!sched_getaffinity'')
        | Some allowed \<Rightarrow>
            bnd (CHECK ''CPU_COUNT <= MAX_CPUS'' (length (remdups allowed) \<le> MAX_CPUS G)) (\<lambda>_.
            bnd (gets cpus) (\<lambda>l.
              each (\<lambda>c. if c \<in> set allowed
                then upd_task t (\<lambda>k. k\<lparr>allowed_cpulist := cl_Set G (allowed_cpulist k) c\<rparr>) else ret ())
                (cl_elems G l))))),
      bnd (task t) (\<lambda>k. CHECK ''!task->allowed_cpulist.Empty()'' (\<not> cl_Empty G (allowed_cpulist k)))]"

definition TaskNew ::
  "('c, 'k) ghost \<Rightarrow> nat \<Rightarrow> nat \<Rightarrow> nat \<Rightarrow> bool \<Rightarrow> ('c, 'k, unit) op" where
  "TaskNew G t msg_seqnum new_runtime runnable = steps
     [UpdateTaskRuntime t new_runtime False,
      upd_task t (\<lambda>k. k\<lparr>seqnum := msg_seqnum, run_state := BLOCKED\<rparr>),
      (if runnable then Enqueue t else ret ()),
      set_allowed_cpus G t,
      AdjustTaskPriority G t,
      modify (\<lambda>s. s\<lparr>num_tasks := num_tasks s + 1\<rparr>)]"

definition TaskRunnable :: "nat \<Rightarrow> bool \<Rightarrow> ('c, 'k, unit) op" where
  "TaskRunnable t deferrable =
     bnd (task t) (\<lambda>k. steps
       [CHECK ''task->blocked()'' (run_state k = BLOCKED),
        CHECK ''!task->pending()'' (run_state k \<noteq> PENDING),
        upd_task t (\<lambda>k. k\<lparr>prio_boost := \<not> deferrable\<rparr>),
        Enqueue t])"

definition FreeTask :: "nat \<Rightarrow> ('c, 'k, unit) op" where
  "FreeTask t = bnd (task t) (\<lambda>_. modify (\<lambda>s. s\<lparr>tasks := (tasks s)(t := None)\<rparr>))"

definition TaskDeparted :: "('c, 'k) ghost \<Rightarrow> nat \<Rightarrow> payload \<Rightarrow> ('c, 'k, unit) op" where
  "TaskDeparted G t p = steps
     [(if pl_from_switchto p then CpuLeavingSwitchto G (pl_cpu p) else ret ()),
      FreeTask t,
      modify (\<lambda>s. s\<lparr>num_tasks := num_tasks s - 1\<rparr>)]"

definition TaskDead :: "nat \<Rightarrow> ('c, 'k, unit) op" where
  "TaskDead t =
     bnd (task t) (\<lambda>k. steps
       [CHECK ''task->blocked()'' (run_state k = BLOCKED),
        FreeTask t,
        modify (\<lambda>s. s\<lparr>num_tasks := num_tasks s - 1\<rparr>)])"

text \<open>What four handlers do with a task that was on a CPU or about to be.\<close>

definition clear_cpu :: "('c, 'k) ghost \<Rightarrow> nat \<Rightarrow> ('c, 'k, unit) op" where
  "clear_cpu G t =
     bnd (cpu_state_of t) (\<lambda>c. steps
       [bnd (task t) (\<lambda>k.
          if run_state k = PENDING then
            bnd (cpu_state c) (\<lambda>cs. steps
              [CHECK ''cs->next == task'' (cs_next cs = Some t),
               CHECK ''cs->current == nullptr'' (cs_current cs = None),
               bnd (SyncCpuState G (task_cpu k)) (CHECK ''SyncCpuState(task->cpu)'')])
          else ret ()),
        upd_cpu c (\<lambda>cs. cs\<lparr>cs_current := None\<rparr>)])"

definition leave_cpu :: "('c, 'k) ghost \<Rightarrow> nat \<Rightarrow> payload \<Rightarrow> ('c, 'k, unit) op" where
  "leave_cpu G t p = steps [UpdateTaskRuntime t (pl_runtime p) True, clear_cpu G t]"

text \<open>And with a task that was switched to.\<close>

definition leave_switchto :: "('c, 'k) ghost \<Rightarrow> nat \<Rightarrow> payload \<Rightarrow> ('c, 'k, unit) op" where
  "leave_switchto G t p =
     bnd (task t) (\<lambda>k. steps
       [CHECK ''task->run_state == BLOCKED'' (run_state k = BLOCKED),
        UpdateTaskRuntime t (pl_runtime p) True,
        CpuLeavingSwitchto G (pl_cpu p)])"

definition end_submit :: "nat \<Rightarrow> payload \<Rightarrow> ('c, 'k, unit) op" where
  "end_submit t p =
     (if \<not> pl_from_switchto p then upd_task t (\<lambda>k. k\<lparr>start_submit := InfiniteFuture\<rparr>) else ret ())"

definition oncpu_or_pending :: "'c net_task \<Rightarrow> bool" where
  "oncpu_or_pending k \<longleftrightarrow> run_state k = ON_CPU \<or> run_state k = PENDING"

definition TaskBlocked :: "('c, 'k) ghost \<Rightarrow> nat \<Rightarrow> payload \<Rightarrow> ('c, 'k, unit) op" where
  "TaskBlocked G t p = steps
     [upd_task t (\<lambda>k. k\<lparr>prio_boost := False\<rparr>),
      bnd (task t) (\<lambda>k.
        if oncpu_or_pending k then steps [leave_cpu G t p, upd_task t (\<lambda>k. k\<lparr>run_state := BLOCKED\<rparr>)]
        else if pl_from_switchto p then leave_switchto G t p
        else steps [CHECK ''task->queued()'' (run_state k = QUEUED), RemoveFromRunqueue t BLOCKED]),
      end_submit t p]"

definition TaskPreempted :: "('c, 'k) ghost \<Rightarrow> nat \<Rightarrow> payload \<Rightarrow> ('c, 'k, unit) op" where
  "TaskPreempted G t p = steps
     [upd_task t (\<lambda>k. k\<lparr>preempted := True, prio_boost := False\<rparr>),
      bnd (task t) (\<lambda>k.
        if oncpu_or_pending k then steps [leave_cpu G t p, Enqueue t]
        else if pl_from_switchto p then steps [leave_switchto G t p, Enqueue t]
        else CHECK ''task->queued()'' (run_state k = QUEUED)),
      end_submit t p]"

definition TaskYield :: "('c, 'k) ghost \<Rightarrow> nat \<Rightarrow> payload \<Rightarrow> ('c, 'k, unit) op" where
  "TaskYield G t p = steps
     [upd_task t (\<lambda>k. k\<lparr>prio_boost := False\<rparr>),
      bnd (task t) (\<lambda>k.
        if oncpu_or_pending k then steps [leave_cpu G t p, Yield t]
        else if pl_from_switchto p then steps [leave_switchto G t p, Yield t]
        else CHECK ''task->queued()'' (run_state k = QUEUED)),
      end_submit t p]"

definition TaskSwitchto :: "('c, 'k) ghost \<Rightarrow> nat \<Rightarrow> payload \<Rightarrow> ('c, 'k, unit) op" where
  "TaskSwitchto G t p = steps
     [CpuEnteringSwitchto G (pl_cpu p),
      upd_task t (\<lambda>k. k\<lparr>prio_boost := False\<rparr>),
      bnd (task t) (\<lambda>k.
        if oncpu_or_pending k then steps [leave_cpu G t p, upd_task t (\<lambda>k. k\<lparr>run_state := BLOCKED\<rparr>)]
        else steps [CHECK ''task->queued()'' (run_state k = QUEUED), RemoveFromRunqueue t BLOCKED])]"

section \<open>Preemption\<close>

text \<open>The CPU of a task that is on one.\<close>

definition cpu_of :: "'c net_task \<Rightarrow> ('c, 'k, nat) op" where
  "cpu_of k = (case task_cpu k of None \<Rightarrow> fail OutOfBounds | Some c \<Rightarrow> ret c)"

text \<open>The request for the CPU: run \<open>nxt\<close>, or nothing.  The result is the result of the commit.\<close>

definition preempt_request ::
  "('c, 'k) ghost \<Rightarrow> nat \<Rightarrow> nat option \<Rightarrow> nat \<Rightarrow> ('c, 'k, bool) op" where
  "preempt_request G c nxt agent_barrier =
     (case nxt of
        Some n \<Rightarrow>
          bnd (task n) (\<lambda>k.
          bnd (kern (req_Open G c (gtid k) (seqnum k) (Some agent_barrier))) (\<lambda>_. kern (req_Commit G c)))
      | None \<Rightarrow>
          bnd (kern (req_OpenUnschedule G c)) (\<lambda>_.
          bnd (kern (req_Commit G c)) (\<lambda>b.
          bnd (CHECK ''req->Commit()'' b) (\<lambda>_. ret True))))"

definition PreemptTask ::
  "('c, 'k) ghost \<Rightarrow> nat option \<Rightarrow> nat option \<Rightarrow> nat \<Rightarrow> ('c, 'k, bool) op" where
  "PreemptTask G prev nxt agent_barrier =
     (case prev of
        None \<Rightarrow> fail (CheckFailed ''prev != nullptr'')
      | Some p \<Rightarrow>
          bnd (task p) (\<lambda>k.
          bnd (steps [CHECK ''!prev->pending()'' (run_state k \<noteq> PENDING), CHECK ''prev->oncpu()'' (run_state k = ON_CPU)]) (\<lambda>_.
          if nxt = Some p then ret True
          else
            bnd (case nxt of
                   None \<Rightarrow> ret ()
                 | Some n \<Rightarrow> bnd (task n) (\<lambda>kn. CHECK ''!next || !next->oncpu()'' (run_state kn \<noteq> ON_CPU))) (\<lambda>_.
            bnd (cpu_of k) (\<lambda>c.
            bnd (preempt_request G c nxt agent_barrier) (\<lambda>b.
              if \<not> b then ret False
              else
                bnd (steps
                  [upd_cpu c (\<lambda>cs. cs\<lparr>cs_current := nxt\<rparr>),
                   (case nxt of
                      None \<Rightarrow> ret ()
                    | Some n \<Rightarrow> steps
                        [upd_task n (\<lambda>kn. kn\<lparr>run_state := ON_CPU, task_cpu := Some c\<rparr>),
                         UpdateRuntime G p])]) (\<lambda>_. ret True)))))))"

definition ReplaceExistingTask :: "('c, 'k) ghost \<Rightarrow> nat \<Rightarrow> nat \<Rightarrow> ('c, 'k, unit) op" where
  "ReplaceExistingTask G c nx =
     bnd (cpu_state c) (\<lambda>cs.
     bnd (PreemptTask G (cs_current cs) (Some nx) 0) (\<lambda>in_sync.
       case cs_current cs of
         None \<Rightarrow> fail NullDeref
       | Some prev \<Rightarrow> steps
           [upd_task prev (\<lambda>k. k\<lparr>preempted := False, prio_boost := True\<rparr>),
            Enqueue prev,
            (if in_sync
             then steps
               [upd_task nx (\<lambda>k. k\<lparr>prio_boost := False, preempted := False\<rparr>),
                upd_cpu c (\<lambda>cs. cs\<lparr>cs_next := None\<rparr>)]
             else steps
               [upd_cpu c (\<lambda>cs. cs\<lparr>cs_current := None\<rparr>),
                Yield nx]),
            bnd (kern (MonotonicNow G)) (\<lambda>n. upd_task nx (\<lambda>k. k\<lparr>start_submit := At n\<rparr>)),
            modify (\<lambda>s. s\<lparr>txn_total := txn_total s + 1\<rparr>)]))"

section \<open>A round of scheduling\<close>

record 'c round =
  avail_cpus :: 'c
  avail_cpus_low_priority :: 'c
  assigned_cpus :: 'c
  unavail :: nat

definition round0 :: "('c, 'k) ghost \<Rightarrow> 'c round" where
  "round0 G =
     \<lparr>avail_cpus = EmptyCpuList G, avail_cpus_low_priority = EmptyCpuList G, assigned_cpus = EmptyCpuList G, unavail = 0\<rparr>"

text \<open>\<^verbatim>\<open>(MonotonicNow() - start_submit) > absl::Microseconds(300)\<close>\<close>

definition long_submitted :: "nat \<Rightarrow> time \<Rightarrow> bool" where
  "long_submitted now st = (case st of InfiniteFuture \<Rightarrow> False | At n \<Rightarrow> n + 300000 < now)"

text \<open>Whether the task \<open>cur\<close> that runs on a CPU may be replaced.\<close>

definition replaceable :: "('c, 'k) ghost \<Rightarrow> nat \<Rightarrow> ('c, 'k, bool) op" where
  "replaceable G cur =
     bnd (task cur) (\<lambda>k.
     bnd (kern (GetTaskName G (tid G (gtid k)))) (\<lambda>name.
     bnd (if StrContains G name ''memcached'' then kern (Bernoulli_1_50 G) else ret False) (\<lambda>coin.
     bnd (if coin then bnd (kern (MonotonicNow G)) (\<lambda>now. ret (long_submitted now (start_submit k))) else ret False) (\<lambda>old.
       if old then ret True
       else bnd (kern (GetTaskName G (tid G (gtid k)))) (\<lambda>name. ret (\<not> StrContains G name ''memcached''))))))"

text \<open>The list that a CPU goes to once its state is up to date.\<close>

definition classify_cpu :: "('c, 'k) ghost \<Rightarrow> nat \<Rightarrow> 'c round \<Rightarrow> ('c, 'k, 'c round) op" where
  "classify_cpu G c r =
     bnd (cpu_state c) (\<lambda>cs.
       case cs_current cs of
         None \<Rightarrow> if \<not> cs_in_switchto cs then ret (r\<lparr>avail_cpus := cl_Set G (avail_cpus r) c\<rparr>) else ret r
       | Some cur \<Rightarrow>
           bnd (replaceable G cur) (\<lambda>low.
             if low then ret (r\<lparr>avail_cpus_low_priority := cl_Set G (avail_cpus_low_priority r) c\<rparr>)
             else ret r))"

text \<open>The body of the loop that collects the available CPUs.\<close>

definition scan_cpu :: "('c, 'k) ghost \<Rightarrow> nat \<Rightarrow> 'c round \<Rightarrow> ('c, 'k, 'c round) op" where
  "scan_cpu G c r =
     bnd (cpu_state c) (\<lambda>cs.
     bnd (Available G c) (\<lambda>available.
     if \<not> available then
       bnd (if cs_next cs \<noteq> None then kern (committed G c) else ret False) (\<lambda>b.
       bnd (if b then SyncCpuState G (Some c) else ret True) (\<lambda>_.
         ret (r\<lparr>unavail := unavail r + 1\<rparr>)))
     else
       bnd (gets global_cpuid) (\<lambda>g.
       if c = g \<or> cs_current cs \<noteq> None then ret r
       else
         bnd (kern (committed G c)) (\<lambda>b.
         if \<not> b then ret r
         else
           bnd (SyncCpuState G (Some c)) (\<lambda>_.
           classify_cpu G c r)))))"

text \<open>The task \<open>nx\<close> is assigned to the CPU \<open>c\<close>; the transaction is submitted later.\<close>

definition assign :: "('c, 'k) ghost \<Rightarrow> nat \<Rightarrow> nat \<Rightarrow> 'c round \<Rightarrow> ('c, 'k, 'c round) op" where
  "assign G nx c r =
     bnd (cpu_state c) (\<lambda>cs.
     bnd (steps
       [CHECK ''cs->next == nullptr'' (cs_next cs = None),
        CHECK ''cs->current == nullptr'' (cs_current cs = None),
        upd_cpu c (\<lambda>cs. cs\<lparr>cs_next := Some nx\<rparr>),
        bnd (task nx) (\<lambda>k. kern (req_Open G c (gtid k) (seqnum k) None)),
        upd_task nx (\<lambda>k. k\<lparr>run_state := PENDING, task_cpu := Some c\<rparr>),
        bnd (task nx) (\<lambda>k.
          if preempted k then upd_task nx (\<lambda>k. k\<lparr>prio_boost := True, preempted := False\<rparr>) else ret ()),
        bnd (kern (MonotonicNow G)) (\<lambda>n. upd_task nx (\<lambda>k. k\<lparr>start_submit := At n\<rparr>)),
        modify (\<lambda>s. s\<lparr>txn_total := txn_total s + 1\<rparr>)]) (\<lambda>_.
       ret (r\<lparr>avail_cpus := cl_Clear G (avail_cpus r) c, assigned_cpus := cl_Set G (assigned_cpus r) c\<rparr>)))"

text \<open>The body of the loop that assigns tasks, for the task \<open>nx\<close> taken from the queue.\<close>

definition place :: "('c, 'k) ghost \<Rightarrow> nat \<Rightarrow> 'c round \<Rightarrow> ('c, 'k, 'c round) op" where
  "place G nx r =
     bnd (task nx) (\<lambda>k.
     bnd (CHECK ''!next->pending()'' (run_state k \<noteq> PENDING)) (\<lambda>_.
     bnd (kern (sw_on_cpu G (gtid k))) (\<lambda>on.
     bnd (if on then ret True else bnd (kern (sw_barrier G (gtid k))) (\<lambda>b. ret (seqnum k \<noteq> b))) (\<lambda>stale.
     if stale then bnd (Yield nx) (\<lambda>_. ret r)
     else
       bnd (gets enforce_affinity_mask) (\<lambda>aff.
       let cpu = (if \<not> cl_Empty G (avail_cpus r) then PickNextCpu G (avail_cpus r) k aff else None);
           low = (if cpu = None \<and> \<not> cl_Empty G (avail_cpus_low_priority r)
                  then PickNextCpu G (avail_cpus_low_priority r) k aff else None)
       in case low of
            Some c \<Rightarrow>
              bnd (ReplaceExistingTask G c nx) (\<lambda>_.
                ret (r\<lparr>avail_cpus_low_priority := cl_Clear G (avail_cpus_low_priority r) c\<rparr>))
          | None \<Rightarrow>
              (case cpu of
                 None \<Rightarrow> bnd (Yield nx) (\<lambda>_. ret r)
               | Some c \<Rightarrow> assign G nx c r))))))"

text \<open>
  The loop.  Every turn takes a task from the queue, and a turn that puts one back uses up a CPU;
  the fuel is the number of both.
\<close>

fun assign_loop :: "('c, 'k) ghost \<Rightarrow> nat \<Rightarrow> 'c round \<Rightarrow> ('c, 'k, 'c round) op" where
  "assign_loop G 0 r = fail OutOfFuel"
| "assign_loop G (Suc n) r =
     (if cl_Empty G (avail_cpus r) \<and> cl_Empty G (avail_cpus_low_priority r) then ret r
      else
        bnd Dequeue (\<lambda>nxt.
          case nxt of
            None \<Rightarrow> ret r
          | Some nx \<Rightarrow> bnd (place G nx r) (assign_loop G n)))"

definition loop_fuel :: "('c, 'k) ghost \<Rightarrow> 'c round \<Rightarrow> ('c, 'k) sched \<Rightarrow> nat" where
  "loop_fuel G r s = Suc (length (waiting s) + length (cl_elems G (avail_cpus_low_priority r)))"

text \<open>The yielding tasks go back to their queues.\<close>

definition requeue_yielding :: "('c, 'k, unit) op" where
  "requeue_yielding =
     bnd (gets yielding_tasks) (\<lambda>ys.
       if ys \<noteq> [] then steps
         [each (\<lambda>t. bnd (task t) (\<lambda>k. steps
            [CHECK ''t->run_state == YIELDING'' (run_state k = YIELDING), Enqueue t])) ys,
          modify (\<lambda>s. s\<lparr>yielding_tasks := []\<rparr>)]
       else ret ())"

text \<open>\<^verbatim>\<open>cpuhist_[i]++\<close>\<close>

definition count_unavail :: "nat \<Rightarrow> ('c, 'k, unit) op" where
  "count_unavail n =
     (let i = (if kCpuHistLen - 1 < n then kCpuHistLen - 1 else n)
      in bnd (gets cpuhist) (\<lambda>h.
           if i < length h then modify (\<lambda>s. s\<lparr>cpuhist := h[i := h ! i + 1]\<rparr>) else fail OutOfBounds))"

text \<open>What follows the loop.\<close>

definition finish_round :: "('c, 'k) ghost \<Rightarrow> 'c round \<Rightarrow> ('c, 'k, unit) op" where
  "finish_round G r = steps
     [(if \<not> cl_Empty G (assigned_cpus r) then kern (SubmitRunRequests G (assigned_cpus r)) else ret ()),
      requeue_yielding,
      count_unavail (unavail r),
      modify (\<lambda>s. s\<lparr>globaliter := globaliter s + 1\<rparr>)]"

definition GlobalSchedule :: "('c, 'k) ghost \<Rightarrow> ('c, 'k, unit) op" where
  "GlobalSchedule G =
     bnd (gets cpus) (\<lambda>l.
     bnd (fold_m (scan_cpu G) (cl_elems G l) (round0 G)) (\<lambda>r.
     bnd (gets (loop_fuel G r)) (\<lambda>n.
     bnd (assign_loop G n r) (finish_round G))))"

section \<open>The global agent\<close>

text \<open>Whether the global agent, now on \<open>g\<close>, may go to the CPU \<open>c\<close>.\<close>

definition may_land :: "('c, 'k) ghost \<Rightarrow> nat \<Rightarrow> nat \<Rightarrow> ('c, 'k, bool) op" where
  "may_land G g c =
     bnd (if c \<noteq> g then Available G c else ret False) (\<lambda>av. if av then kern (committed G c) else ret False)"

text \<open>The loop that looks for a CPU; \<open>g\<close> is the CPU of the global agent, \<open>h\<close> its home.\<close>

fun find_target :: "('c, 'k) ghost \<Rightarrow> nat \<Rightarrow> nat \<Rightarrow> nat list \<Rightarrow> ('c, 'k, nat option) op" where
  "find_target G g h [] = ret None"
| "find_target G g h (c # cs) =
     bnd (may_land G g h) (\<lambda>home.
     if home then bnd (SyncCpuState G (Some h)) (\<lambda>_. ret (Some h))
     else
       bnd (cpu_state c) (\<lambda>st.
       if cs_in_switchto st \<or> numa_node G c \<noteq> numa_node G h then find_target G g h cs
       else bnd (may_land G g c) (\<lambda>b. if b then ret (Some c) else find_target G g h cs)))"

text \<open>The task that runs on the CPU \<open>c\<close> is preempted to make room.\<close>

definition vacate :: "('c, 'k) ghost \<Rightarrow> nat \<Rightarrow> ('c, 'k, unit) op" where
  "vacate G c =
     bnd (cpu_state c) (\<lambda>cs.
       case cs_current cs of
         None \<Rightarrow> ret ()
       | Some prev \<Rightarrow> steps
           [bnd (task prev) (\<lambda>k. CHECK ''prev->oncpu()'' (run_state k = ON_CPU)),
            bnd (PreemptTask G (Some prev) None 0) (CHECK ''in_sync''),
            upd_task prev (\<lambda>k. k\<lparr>prio_boost := True\<rparr>),
            Enqueue prev,
            upd_cpu c (\<lambda>cs. cs\<lparr>cs_current := None\<rparr>)])"

text \<open>The global agent moves to the CPU \<open>c\<close>.\<close>

definition sync_pending :: "('c, 'k) ghost \<Rightarrow> nat \<Rightarrow> ('c, 'k, unit) op" where
  "sync_pending G c =
     bnd (cpu_state c) (\<lambda>cs.
       if cs_next cs \<noteq> None then bnd (SyncCpuState G (Some c)) (\<lambda>_. ret ()) else ret ())"

definition ping_agent :: "('c, 'k) ghost \<Rightarrow> nat \<Rightarrow> ('c, 'k, unit) op" where
  "ping_agent G c =
     bnd (kern (GetAgent G c)) (\<lambda>a. case a of None \<Rightarrow> fail NullDeref | Some a \<Rightarrow> kern (Ping G a))"

definition move_global :: "('c, 'k) ghost \<Rightarrow> nat \<Rightarrow> ('c, 'k, unit) op" where
  "move_global G c = steps
     [bnd (kern (committed G c)) (CHECK ''req->committed()''),
      sync_pending G c,
      vacate G c,
      modify (\<lambda>s. s\<lparr>global_cpuid := c\<rparr>),
      ping_agent G c,
      modify (\<lambda>s. s\<lparr>global_migrations := global_migrations s + 1\<rparr>)]"

definition PickNextGlobalCPU :: "('c, 'k) ghost \<Rightarrow> ('c, 'k, unit) op" where
  "PickNextGlobalCPU G =
     bnd (gets global_cpuid) (\<lambda>g.
     bnd (gets global_home_cpu) (\<lambda>h.
     bnd (gets cpus) (\<lambda>l.
     bnd (find_target G g h (cl_elems G l)) (\<lambda>target.
       case target of None \<Rightarrow> ret () | Some c \<Rightarrow> move_global G c))))"

definition SetSchedCFS :: "('c, 'k) ghost \<Rightarrow> int \<Rightarrow> nat \<Rightarrow> ('c, 'k, unit) op" where
  "SetSchedCFS G sched_other t =
     bnd (task t) (\<lambda>k.
     bnd (kern (sched_setscheduler G (tid G (gtid k)) sched_other)) (\<lambda>r.
       if r = 0 then
         bnd (kern (sched_getscheduler G (tid G (gtid k)))) (\<lambda>p.
           CHECK ''sched_getscheduler(tid) == policy'' (p = sched_other))
       else ret ()))"

section \<open>Agents\<close>

text \<open>
  One turn of the loop of an agent thread on the CPU \<open>c\<close>: \<open>barrier\<close> is its barrier, \<open>boosted\<close> whether
  the kernel wants it to vacate the CPU, and \<open>msgs\<close> the messages in the channel, each handled by
  \<open>dispatch\<close>, the function \<^verbatim>\<open>DispatchMessage\<close> of the library.
\<close>

definition agent_turn ::
  "('c, 'k) ghost \<Rightarrow> ('m \<Rightarrow> ('c, 'k, unit) op) \<Rightarrow> nat \<Rightarrow> nat \<Rightarrow> bool \<Rightarrow> 'm list \<Rightarrow> ('c, 'k, unit) op" where
  "agent_turn G dispatch c barrier boosted msgs =
     bnd (gets global_cpuid) (\<lambda>g.
     if c \<noteq> g then kern (req_LocalYield G c barrier)
     else if boosted then PickNextGlobalCPU G
     else steps [each dispatch msgs, GlobalSchedule G])"

text \<open>
  The destructor brings the agent of the global CPU to the front of the list of agents, here the
  list of their CPUs.
\<close>

definition swap_front :: "nat list \<Rightarrow> nat \<Rightarrow> nat list" where
  "swap_front as i = as[0 := as ! i, i := hd as]"

fun index_of :: "nat \<Rightarrow> nat list \<Rightarrow> nat \<Rightarrow> nat option" where
  "index_of g [] i = None"
| "index_of g (a # as) i = (if a = g then Some i else index_of g as (i + 1))"

definition bring_front :: "nat \<Rightarrow> nat list \<Rightarrow> nat list res" where
  "bring_front g as =
     (case as of
        [] \<Rightarrow> Err OutOfBounds
      | a # _ \<Rightarrow>
          let as' = (if a \<noteq> g
                     then (case index_of g as 0 of None \<Rightarrow> as | Some i \<Rightarrow> swap_front as i) else as)
          in if hd as' = g then Ok as' else Err (CheckFailed ''front()->cpu().id() == global_cpuid''))"

definition kDebugRunqueue :: int where
  "kDebugRunqueue = 1"

definition RpcHandler :: "int \<Rightarrow> ('c, 'k, int) op" where
  "RpcHandler req =
     (if req = kDebugRunqueue then bnd (modify (\<lambda>s. s\<lparr>debug_runqueue := True\<rparr>)) (\<lambda>_. ret 0)
      else ret (- 1))"

text \<open>The figures that are printed, and the counters set back; \<open>empty_rq\<close> is the flag \<^verbatim>\<open>kDumpStateEmptyRQ\<close>.\<close>

definition DumpState :: "bool \<Rightarrow> ('c, 'k, (int list \<times> nat \<times> int list) option) op" where
  "DumpState empty_rq =
     bnd (gets run_queue) (\<lambda>q.
     if \<not> empty_rq \<and> q = [] then ret None
     else
       bnd (gets (\<lambda>s. (drop 1 (cpuhist s), length q,
         [globaliter s, global_migrations s, txn_fail_unavail s, txn_success s, txn_fail_other s, txn_total s]))) (\<lambda>out.
       bnd (modify (\<lambda>s. s\<lparr>cpuhist := take 1 (cpuhist s) @ replicate (length (cpuhist s) - 1) 0, globaliter := 0,
         global_migrations := 0, txn_fail_unavail := 0, txn_fail_other := 0, txn_success := 0, txn_total := 0\<rparr>)) (\<lambda>_.
         ret (Some out))))"

end
