(* ===== verification/Net_Inv.thy ===== *)
theory Net_Inv
  imports Net_Sched
begin

text \<open>
  The invariant of the scheduler: every task is where its run state says.  A queued task is exactly
  once in one of the two run queues, a yielding task exactly once in the list of yielding tasks, a
  task on a CPU is the current task of its CPU, a pending task is the next task of its CPU, and
  these are the only references to tasks.  \<open>sched_ok G X s\<close> says this for all tasks but those of
  \<open>X\<close>, which are referred to from nowhere: a handler takes a task out of one place, changes its
  state, and puts it in another place.

  The lemmas give what each operation does to the invariant, in terms of \<open>wp\<close>: from a consistent
  state an operation returns in a consistent state or ends in a failed CHECK of a named set;
  it never follows a dangling pointer and never leaves an array.
\<close>

section \<open>The invariant\<close>

definition st :: "('c, 'k) sched \<Rightarrow> nat \<Rightarrow> task_state option" where
  "st s t = map_option run_state (tasks s t)"

definition tc :: "('c, 'k) sched \<Rightarrow> nat \<Rightarrow> nat option" where
  "tc s t = Option.bind (tasks s t) task_cpu"

text \<open>The field \<open>f\<close> of the states of the CPUs holds exactly the tasks in the state \<open>x\<close>, each on its CPU.\<close>

definition holds_at ::
  "nat \<Rightarrow> nat set \<Rightarrow> ('c, 'k) sched \<Rightarrow> (CpuState \<Rightarrow> nat option) \<Rightarrow> task_state \<Rightarrow> bool" where
  "holds_at M X s f x \<longleftrightarrow>
     (\<forall>c < M. \<forall>t. f (cpu_states s ! c) = Some t \<longleftrightarrow> t \<notin> X \<and> st s t = Some x \<and> tc s t = Some c)"

definition places_ok :: "nat \<Rightarrow> nat set \<Rightarrow> ('c, 'k) sched \<Rightarrow> bool" where
  "places_ok M X s \<longleftrightarrow>
     distinct (waiting s) \<and> distinct (yielding_tasks s) \<and>
     (\<forall>t. t \<in> set (waiting s) \<longleftrightarrow> t \<notin> X \<and> st s t = Some QUEUED) \<and>
     (\<forall>t. t \<in> set (yielding_tasks s) \<longleftrightarrow> t \<notin> X \<and> st s t = Some YIELDING) \<and>
     holds_at M X s cs_current ON_CPU \<and> holds_at M X s cs_next PENDING \<and>
     (\<forall>t. t \<notin> X \<and> (st s t = Some ON_CPU \<or> st s t = Some PENDING) \<longrightarrow> (\<exists>c < M. tc s t = Some c)) \<and>
     (\<forall>c < M. cs_current (cpu_states s ! c) = None \<or> cs_next (cpu_states s ! c) = None)"

definition frame_ok :: "('c, 'k) ghost \<Rightarrow> ('c, 'k) sched \<Rightarrow> bool" where
  "frame_ok G s \<longleftrightarrow>
     cpulist_spec G \<and> length (cpu_states s) = MAX_CPUS G \<and> length (cpuhist s) = kCpuHistLen \<and>
     (\<forall>c \<in> set (cl_elems G (cpus s)). cs_agent (cpu_states s ! c) \<noteq> None) \<and>
     global_home_cpu s \<in> set (cl_elems G (cpus s)) \<and>
     (\<forall>t k. tasks s t = Some k \<longrightarrow> elapsed_runtime k \<le> runtime k)"

definition sched_ok :: "('c, 'k) ghost \<Rightarrow> nat set \<Rightarrow> ('c, 'k) sched \<Rightarrow> bool" where
  "sched_ok G X s \<longleftrightarrow> frame_ok G s \<and> places_ok (MAX_CPUS G) X s"

lemmas ok_parts = sched_ok_def frame_ok_def places_ok_def
lemmas ok_defs = ok_parts holds_at_def

section \<open>Projections\<close>

lemma st_simps [simp]:
  "tasks s t = Some k \<Longrightarrow> st s t = Some (run_state k)" "tasks s t = None \<Longrightarrow> st s t = None"
  "st (put_task t k s) u = (if u = t then Some (run_state k) else st s u)" "st (put_cpu c cs s) u = st s u"
  "tasks s t = Some k \<Longrightarrow> tc s t = task_cpu k"
  "tc (put_task t k s) u = (if u = t then task_cpu k else tc s u)" "tc (put_cpu c cs s) u = tc s u"
  by (simp_all add: st_def tc_def)

lemma st_Some: "st s t = Some x \<longleftrightarrow> (\<exists>k. tasks s t = Some k \<and> run_state k = x)"
  by (auto simp: st_def)

lemma waiting_simps [simp]:
  "waiting (put_task t k s) = waiting s" "waiting (put_cpu c cs s) = waiting s"
  "waiting (s\<lparr>kernel := x\<rparr>) = waiting s" "waiting (s\<lparr>yielding_tasks := ys\<rparr>) = waiting s"
  "waiting (s\<lparr>txn_total := n\<rparr>) = waiting s"
  by (simp_all add: waiting_def)

lemma enqueued_simps [simp]:
  "tasks (enqueued k t s) = (tasks s)(t \<mapsto> k\<lparr>run_state := QUEUED\<rparr>)"
  "cpu_states (enqueued k t s) = cpu_states s" "yielding_tasks (enqueued k t s) = yielding_tasks s"
  "cpus (enqueued k t s) = cpus s" "cpuhist (enqueued k t s) = cpuhist s"
  "global_home_cpu (enqueued k t s) = global_home_cpu s" "kernel (enqueued k t s) = kernel s"
  by (simp_all add: enqueued_def Let_def)

lemma set_enqueued [simp]: "set (waiting (enqueued k t s)) = insert t (set (waiting s))"
  by (metis mset_enqueued set_mset_add_mset_insert set_mset_mset)

lemma distinct_enqueued: "distinct (waiting (enqueued k t s)) \<longleftrightarrow> t \<notin> set (waiting s) \<and> distinct (waiting s)"
  by (metis distinct.simps(2) mset.simps(2) mset_enqueued mset_eq_imp_distinct_iff)

lemma length_enqueued [simp]: "length (waiting (enqueued k t s)) = Suc (length (waiting s))"
  by (metis mset_enqueued size_add_mset size_mset)

lemma st_enqueued [simp]:
  "st (enqueued k t s) u = (if u = t then Some QUEUED else st s u)"
  "tc (enqueued k t s) u = (if u = t then task_cpu k else tc s u)"
  by (simp_all add: st_def tc_def)

lemma without_head_simps [simp]:
  "tasks (without_head s) = tasks s" "cpu_states (without_head s) = cpu_states s"
  "yielding_tasks (without_head s) = yielding_tasks s" "cpus (without_head s) = cpus s"
  "cpuhist (without_head s) = cpuhist s" "global_home_cpu (without_head s) = global_home_cpu s"
  "kernel (without_head s) = kernel s" "st (without_head s) t = st s t" "tc (without_head s) t = tc s t"
  by (simp_all add: without_head_def st_def tc_def)

text \<open>Calls of the kernel commute with the other updates.\<close>

lemma kernel_out [simp]:
  "put_task t k (s\<lparr>kernel := x\<rparr>) = (put_task t k s)\<lparr>kernel := x\<rparr>"
  "put_cpu c cs (s\<lparr>kernel := x\<rparr>) = (put_cpu c cs s)\<lparr>kernel := x\<rparr>"
  "enqueued k t (s\<lparr>kernel := x\<rparr>) = (enqueued k t s)\<lparr>kernel := x\<rparr>"
  "without_head (s\<lparr>kernel := x\<rparr>) = (without_head s)\<lparr>kernel := x\<rparr>"
  by (simp_all add: put_task_def put_cpu_def enqueued_def without_head_def Let_def)

text \<open>And the other updates have a normal form: CPUs first, the list of yielding tasks last.\<close>

lemma update_order [simp]:
  "put_task t k (s\<lparr>yielding_tasks := ys\<rparr>) = (put_task t k s)\<lparr>yielding_tasks := ys\<rparr>"
  "put_cpu c cs (s\<lparr>yielding_tasks := ys\<rparr>) = (put_cpu c cs s)\<lparr>yielding_tasks := ys\<rparr>"
  "enqueued k t (s\<lparr>yielding_tasks := ys\<rparr>) = (enqueued k t s)\<lparr>yielding_tasks := ys\<rparr>"
  "put_cpu c cs (put_task t k s) = put_task t k (put_cpu c cs s)"
  "put_cpu c cs (enqueued k t s) = enqueued k t (put_cpu c cs s)"
  "enqueued k t (put_task t k' s) = enqueued k t s"
  "u \<noteq> t \<Longrightarrow> put_task u l (enqueued k t (put_task u l' s)) = put_task u l (enqueued k t s)"
  by (simp_all add: put_task_def put_cpu_def enqueued_def Let_def fun_upd_twist)

text \<open>The fields that the invariant does not mention.\<close>

lemma sched_ok_frame [simp]:
  "sched_ok G X (s\<lparr>kernel := k\<rparr>) = sched_ok G X s"
  "sched_ok G X (s\<lparr>num_tasks := n\<rparr>) = sched_ok G X s"
  "sched_ok G X (s\<lparr>enforce_affinity_mask := b\<rparr>) = sched_ok G X s"
  "sched_ok G X (s\<lparr>globaliter := n\<rparr>) = sched_ok G X s"
  "sched_ok G X (s\<lparr>global_cpuid := c\<rparr>) = sched_ok G X s"
  "sched_ok G X (s\<lparr>global_migrations := n\<rparr>) = sched_ok G X s"
  "sched_ok G X (s\<lparr>txn_total := n\<rparr>) = sched_ok G X s"
  "sched_ok G X (s\<lparr>txn_success := n\<rparr>) = sched_ok G X s"
  "sched_ok G X (s\<lparr>txn_fail_unavail := n\<rparr>) = sched_ok G X s"
  "sched_ok G X (s\<lparr>txn_fail_other := n\<rparr>) = sched_ok G X s"
  "sched_ok G X (s\<lparr>debug_runqueue := b\<rparr>) = sched_ok G X s"
  "length h = length (cpuhist s) \<Longrightarrow> sched_ok G X (s\<lparr>cpuhist := h\<rparr>) = sched_ok G X s"
  by (simp_all add: ok_defs waiting_def st_def tc_def)

lemma sched_ok_lengths:
  assumes "sched_ok G X s"
  shows "length (cpu_states s) = MAX_CPUS G" and "length (cpuhist s) = kCpuHistLen" and "cpulist_spec G"
  using assms by (simp_all add: ok_defs)

section \<open>Taking a task out and putting it back\<close>

lemma out_of_head:
  assumes "sched_ok G X s" and "waiting s = t # ts"
  shows "sched_ok G (insert t X) (without_head s)"
proof -
  from assms have "st s t = Some QUEUED" "t \<notin> X" by (auto simp: ok_defs)
  with assms waiting_without_head [OF assms(2)] show ?thesis by (auto simp: ok_defs)
qed

lemma into_queue:
  assumes "sched_ok G X s" and "t \<in> X" and "tasks s t = Some k"
  shows "sched_ok G (X - {t}) (enqueued k t s)"
  using assms by (auto simp: ok_defs distinct_enqueued)

lemma into_yielding:
  assumes "sched_ok G X s" and "t \<in> X" and "tasks s t = Some k" and "run_state k' = YIELDING"
    and "elapsed_runtime k' \<le> runtime k'"
  shows "sched_ok G (X - {t}) (put_task t k' s\<lparr>yielding_tasks := yielding_tasks s @ [t]\<rparr>)"
  using assms by (auto simp: ok_defs waiting_def st_def tc_def)

lemma into_blocked:
  assumes "sched_ok G X s" and "st s t = Some BLOCKED \<or> st s t = None"
  shows "sched_ok G (X - {t}) s"
  using assms by (auto simp: ok_defs)

lemma out_of_blocked:
  assumes "sched_ok G X s" and "st s t = Some BLOCKED \<or> st s t = None"
  shows "sched_ok G (insert t X) s"
  using assms by (auto simp: ok_defs)

lemma put_loose:
  assumes "sched_ok G X s" and "t \<in> X" and "elapsed_runtime k \<le> runtime k"
  shows "sched_ok G X (put_task t k s)"
  using assms by (auto simp: ok_defs)

lemma put_same:
  assumes "sched_ok G X s" and "tasks s t = Some k" and "run_state k' = run_state k" and "task_cpu k' = task_cpu k"
    and "elapsed_runtime k' \<le> runtime k'"
  shows "sched_ok G X (put_task t k' s)"
proof -
  have "st (put_task t k' s) = st s" "tc (put_task t k' s) = tc s"
    using assms(2-4) by (auto simp: fun_eq_iff)
  with assms show ?thesis by (simp add: ok_defs)
qed

lemma yielding_iff:
  "sched_ok G X s \<Longrightarrow> t \<in> set (yielding_tasks s) \<longleftrightarrow> t \<notin> X \<and> st s t = Some YIELDING"
  by (simp add: ok_parts)

lemma out_of_yielding:
  assumes "sched_ok G X s" and "yielding_tasks s = t # ys"
  shows "sched_ok G (insert t X) (s\<lparr>yielding_tasks := ys\<rparr>)"
proof -
  have "st (s\<lparr>yielding_tasks := ys\<rparr>) = st s" "tc (s\<lparr>yielding_tasks := ys\<rparr>) = tc s"
    by (simp_all add: fun_eq_iff st_def tc_def)
  moreover have "st s t = Some YIELDING" "t \<notin> X" using yielding_iff [OF assms(1), of t] assms(2) by auto
  ultimately show ?thesis using assms by (auto simp: ok_defs)
qed

lemma waiting_iff:
  "sched_ok G X s \<Longrightarrow> t \<in> set (waiting s) \<longleftrightarrow> t \<notin> X \<and> st s t = Some QUEUED"
  by (simp add: ok_parts)

text \<open>Who is on a CPU.\<close>

lemma current_iff:
  "sched_ok G X s \<Longrightarrow> c < MAX_CPUS G \<Longrightarrow>
     cs_current (cpu_states s ! c) = Some t \<longleftrightarrow> t \<notin> X \<and> st s t = Some ON_CPU \<and> tc s t = Some c"
  by (simp add: ok_defs)

lemma next_iff:
  "sched_ok G X s \<Longrightarrow> c < MAX_CPUS G \<Longrightarrow>
     cs_next (cpu_states s ! c) = Some t \<longleftrightarrow> t \<notin> X \<and> st s t = Some PENDING \<and> tc s t = Some c"
  by (simp add: ok_defs)

lemma one_task:
  assumes "sched_ok G X s" and "c < MAX_CPUS G"
  shows "cs_current (cpu_states s ! c) = None \<or> cs_next (cpu_states s ! c) = None"
proof -
  from assms(1) have "\<forall>c < MAX_CPUS G. cs_current (cpu_states s ! c) = None \<or> cs_next (cpu_states s ! c) = None"
    unfolding sched_ok_def places_ok_def by (elim conjE)
  with assms(2) show ?thesis by simp
qed

lemma on_some_cpu:
  assumes "sched_ok G X s" and "t \<notin> X" and "tasks s t = Some k" and "run_state k = ON_CPU \<or> run_state k = PENDING"
  obtains c where "c < MAX_CPUS G" "task_cpu k = Some c"
proof -
  from assms(1) have "\<forall>t. t \<notin> X \<and> (st s t = Some ON_CPU \<or> st s t = Some PENDING) \<longrightarrow> (\<exists>c < MAX_CPUS G. tc s t = Some c)"
    unfolding sched_ok_def places_ok_def by (elim conjE)
  then have "t \<notin> X \<and> (st s t = Some ON_CPU \<or> st s t = Some PENDING) \<longrightarrow> (\<exists>c < MAX_CPUS G. tc s t = Some c)" ..
  with assms(2-4) that show thesis by auto
qed

lemma holds_at_iff:
  "holds_at M X s f x \<Longrightarrow> c < M \<Longrightarrow> f (cpu_states s ! c) = Some t \<longleftrightarrow> t \<notin> X \<and> st s t = Some x \<and> tc s t = Some c"
  by (simp add: holds_at_def)

text \<open>The field of one CPU is written, and the task that was there is loose.\<close>

lemma holds_at_out:
  assumes "holds_at M X s f x" and "c < M" and "length (cpu_states s) = M"
    and "f (cpu_states s ! c) = Some t" and "f cs = None"
  shows "holds_at M (insert t X) (put_cpu c cs s) f x"
  unfolding holds_at_def
proof (intro allI impI)
  fix d u
  assume d: "d < M"
  note iff = holds_at_iff [OF assms(1) d, of u] holds_at_iff [OF assms(1,2), of u] holds_at_iff [OF assms(1,2), of t]
  show "f (cpu_states (put_cpu c cs s) ! d) = Some u \<longleftrightarrow>
      u \<notin> insert t X \<and> st (put_cpu c cs s) u = Some x \<and> tc (put_cpu c cs s) u = Some d"
  proof (cases "d = c")
    case True
    with iff assms show ?thesis by auto
  next
    case False
    with iff assms show ?thesis by auto
  qed
qed

lemma holds_at_in:
  assumes "holds_at M X s f x" and "c < M" and "length (cpu_states s) = M" and "t \<in> X"
    and "f (cpu_states s ! c) = None" and "f cs = Some t" and "run_state k = x" and "task_cpu k = Some c"
  shows "holds_at M (X - {t}) (put_task t k (put_cpu c cs s)) f x"
  unfolding holds_at_def
proof (intro allI impI)
  fix d u
  assume d: "d < M"
  note iff = holds_at_iff [OF assms(1) d, of u] holds_at_iff [OF assms(1,2), of u]
  show "f (cpu_states (put_task t k (put_cpu c cs s)) ! d) = Some u \<longleftrightarrow> u \<notin> X - {t} \<and>
      st (put_task t k (put_cpu c cs s)) u = Some x \<and> tc (put_task t k (put_cpu c cs s)) u = Some d"
  proof (cases "d = c")
    case True
    with iff assms show ?thesis by auto
  next
    case False
    with iff assms show ?thesis by auto
  qed
qed

text \<open>The other field is as it was.\<close>

lemma holds_at_same:
  assumes "holds_at M X s f x" and "f cs = f (cpu_states s ! c)"
  shows "holds_at M X (put_cpu c cs s) f x"
  using assms by (cases "c < length (cpu_states s)") (auto simp: holds_at_def nth_list_update not_less list_update_beyond)

lemma holds_at_drop:
  assumes "holds_at M X s f x" and "st s t \<noteq> Some x"
  shows "holds_at M (insert t X) s f x"
  using assms by (auto simp: holds_at_def)

lemma holds_at_add:
  assumes "holds_at M X s f x" and "t \<in> X" and "run_state k \<noteq> x"
  shows "holds_at M (X - {t}) (put_task t k s) f x"
  using assms by (auto simp: holds_at_def)

lemma out_of_current:
  assumes "sched_ok G X s" and "c < MAX_CPUS G" and "cs_current (cpu_states s ! c) = Some t"
  shows "sched_ok G (insert t X) (put_cpu c ((cpu_states s ! c)\<lparr>cs_current := None\<rparr>) s)" (is "sched_ok G _ ?u")
proof -
  from assms have t: "st s t = Some ON_CPU" by (auto simp: current_iff)
  have "holds_at (MAX_CPUS G) (insert t X) ?u cs_current ON_CPU"
    using assms by (intro holds_at_out) (simp_all add: ok_parts)
  moreover have "holds_at (MAX_CPUS G) (insert t X) ?u cs_next PENDING"
    using assms t by (intro holds_at_drop holds_at_same) (simp_all add: ok_parts)
  ultimately show ?thesis using assms t by (auto simp: ok_parts nth_list_update)
qed

lemma out_of_next:
  assumes "sched_ok G X s" and "c < MAX_CPUS G" and "cs_next (cpu_states s ! c) = Some t"
  shows "sched_ok G (insert t X) (put_cpu c ((cpu_states s ! c)\<lparr>cs_next := None\<rparr>) s)" (is "sched_ok G _ ?u")
proof -
  from assms have t: "st s t = Some PENDING" by (auto simp: next_iff)
  have "holds_at (MAX_CPUS G) (insert t X) ?u cs_next PENDING"
    using assms by (intro holds_at_out) (simp_all add: ok_parts)
  moreover have "holds_at (MAX_CPUS G) (insert t X) ?u cs_current ON_CPU"
    using assms t by (intro holds_at_drop holds_at_same) (simp_all add: ok_parts)
  ultimately show ?thesis using assms t by (auto simp: ok_parts nth_list_update)
qed

lemma into_current:
  assumes "sched_ok G X s" and "c < MAX_CPUS G" and "t \<in> X" and "cs_current (cpu_states s ! c) = None"
    and "cs_next (cpu_states s ! c) = None" and "run_state k = ON_CPU" and "task_cpu k = Some c"
    and "elapsed_runtime k \<le> runtime k"
  shows "sched_ok G (X - {t}) (put_task t k (put_cpu c ((cpu_states s ! c)\<lparr>cs_current := Some t\<rparr>) s))"
    (is "sched_ok G _ ?u")
proof -
  have "holds_at (MAX_CPUS G) (X - {t}) ?u cs_current ON_CPU"
    using assms by (intro holds_at_in) (simp_all add: ok_parts)
  moreover have "holds_at (MAX_CPUS G) (X - {t}) ?u cs_next PENDING"
    using assms by (intro holds_at_add holds_at_same) (simp_all add: ok_parts)
  ultimately show ?thesis using assms by (auto simp: ok_parts nth_list_update)
qed

lemma into_next:
  assumes "sched_ok G X s" and "c < MAX_CPUS G" and "t \<in> X" and "cs_current (cpu_states s ! c) = None"
    and "cs_next (cpu_states s ! c) = None" and "run_state k = PENDING" and "task_cpu k = Some c"
    and "elapsed_runtime k \<le> runtime k"
  shows "sched_ok G (X - {t}) (put_task t k (put_cpu c ((cpu_states s ! c)\<lparr>cs_next := Some t\<rparr>) s))"
    (is "sched_ok G _ ?u")
proof -
  have "holds_at (MAX_CPUS G) (X - {t}) ?u cs_next PENDING"
    using assms by (intro holds_at_in) (simp_all add: ok_parts)
  moreover have "holds_at (MAX_CPUS G) (X - {t}) ?u cs_current ON_CPU"
    using assms by (intro holds_at_add holds_at_same) (simp_all add: ok_parts)
  ultimately show ?thesis using assms by (auto simp: ok_parts nth_list_update)
qed

lemma put_switchto:
  assumes "sched_ok G X s" and "c < MAX_CPUS G"
  shows "sched_ok G X (put_cpu c ((cpu_states s ! c)\<lparr>cs_in_switchto := b\<rparr>) s)"
  using assms by (auto simp: ok_defs nth_list_update)

section \<open>Operations\<close>

lemma put_twice [simp]:
  "put_task t k (put_task t k' s) = put_task t k s" "put_cpu c cs (put_cpu c cs' s) = put_cpu c cs s"
  by (simp_all add: put_task_def put_cpu_def)

lemma wp_SetRuntime [wp_simps]:
  assumes "tasks s t = Some k"
  shows "wp C (SetRuntime t r b) Q s \<longleftrightarrow>
    (if runtime k \<le> r
     then Q () (put_task t (k\<lparr>elapsed_runtime := elapsed_runtime k + (if b then r - runtime k else 0), runtime := r\<rparr>) s)
     else ''new_runtime >= runtime'' \<in> C)"
  using assms by (cases b) (simp_all add: SetRuntime_def wp_simps)

lemma sched_ok_runtime:
  assumes "sched_ok G X s" and "tasks s t = Some k"
  shows "elapsed_runtime k \<le> runtime k"
  using assms by (auto simp: ok_defs)

lemma runtime_ok:
  assumes "sched_ok G X s" and "tasks s t = Some k" and "runtime k \<le> r"
  shows "sched_ok G X
    (put_task t (k\<lparr>elapsed_runtime := elapsed_runtime k + (if b then r - runtime k else 0), runtime := r\<rparr>) s)"
  using assms(3) sched_ok_runtime [OF assms(1,2)] by (intro put_same [OF assms(1,2)]) auto

text \<open>What an operation on the CPU \<open>c\<close> keeps.\<close>

definition kept_cpu :: "nat \<Rightarrow> ('c, 'k) sched \<Rightarrow> ('c, 'k) sched \<Rightarrow> bool" where
  "kept_cpu c s u \<longleftrightarrow>
     cpus u = cpus s \<and> dom (tasks u) = dom (tasks s) \<and>
     (\<forall>d. d \<noteq> c \<longrightarrow> cpu_states u ! d = cpu_states s ! d)"

lemma kept_cpu_refl [simp]: "kept_cpu c s s"
  by (simp add: kept_cpu_def)

lemma kept_cpu_trans: "kept_cpu c s t \<Longrightarrow> kept_cpu c t u \<Longrightarrow> kept_cpu c s u"
  by (simp add: kept_cpu_def)

lemma SyncCpuState_ok:
  assumes ok: "sched_ok G X s" and c: "c < MAX_CPUS G" and C: "''req->committed()'' \<in> C"
  shows "wp C (SyncCpuState G (Some c)) (\<lambda>b u. sched_ok G X u \<and> kept_cpu c s u \<and> cs_next (cpu_states u ! c) = None \<and>
      (\<forall>v. cs_next (cpu_states s ! c) \<noteq> Some v \<longrightarrow> tasks u v = tasks s v) \<and>
      (b \<longrightarrow> cs_next (cpu_states s ! c) \<noteq> None \<longrightarrow> cs_current (cpu_states u ! c) = cs_next (cpu_states s ! c))) s"
proof (cases "cs_next (cpu_states s ! c)")
  case None
  with c sched_ok_lengths [OF ok] ok show ?thesis by (simp add: SyncCpuState_def wp_simps)
next
  case (Some t)
  note len = sched_ok_lengths(1) [OF ok]
  from Some next_iff [OF ok c] have t: "t \<notin> X" "st s t = Some PENDING" "tc s t = Some c" by auto
  then obtain k where k: "tasks s t = Some k" "run_state k = PENDING" by (auto simp: st_Some)
  let ?u = "put_cpu c ((cpu_states s ! c)\<lparr>cs_next := None\<rparr>) s"
  have u: "sched_ok G (insert t X) ?u" by (rule out_of_next [OF ok c Some])
  have cur: "cs_current (cpu_states s ! c) = None" using Some one_task [OF ok c] by simp
  let ?k = "k\<lparr>run_state := ON_CPU, prio_boost := False, task_cpu := Some c\<rparr>"
  have run: "elapsed_runtime k \<le> runtime k" by (rule sched_ok_runtime [OF ok k(1)])
  have compl: "sched_ok G X (put_task t ?k (put_cpu c ((cpu_states s ! c)\<lparr>cs_next := None, cs_current := Some t\<rparr>) s))"
    using into_current [OF u c, of t ?k] cur run t(1) len c by simp
  let ?l = "k\<lparr>task_cpu := None, start_submit := InfiniteFuture\<rparr>"
  have "sched_ok G (insert t X) (put_task t ?l ?u)" using run by (intro put_loose [OF u]) auto
  from into_queue [OF this, of t ?l] t(1) have failed: "sched_ok G X (enqueued ?l t (put_task t ?l ?u))" by simp
  have dom: "insert t (dom (tasks s)) = dom (tasks s)" using k by (auto simp: insert_absorb)
  let ?kern = "snd (committed G c (kernel s))"
  show ?thesis
  proof (cases "fst (txn_state G c ?kern) = GHOST_TXN_COMPLETE")
    case True
    with Some k len c C compl dom show ?thesis
      by (simp add: SyncCpuState_def wp_simps kept_cpu_def)
  next
    case False
    with Some k len c C failed dom show ?thesis
      by (simp add: SyncCpuState_def wp_simps kept_cpu_def)
  qed
qed

end
