(* ===== verification/Net_Handlers.thy ===== *)
theory Net_Handlers
  imports Net_Inv
begin

text \<open>
  The message handlers keep the invariant of \<open>Net_Inv\<close>.  \<open>kernel_checks\<close> collects the CHECKs that can
  fail because of what the kernel reports; all others, which compare the agent's own data, never
  do.  A rule \<open>f_ok\<close> says that \<open>f\<close> takes a consistent state to a consistent state or fails one of
  these checks.
\<close>

definition kernel_checks :: "string set" where
  "kernel_checks =
     {''new_runtime >= runtime'', ''req->committed()'', ''SyncCpuState(task->cpu)'', ''req->Commit()'',
      ''cs->in_switchto'', ''!cs->in_switchto'', ''cpu >= 0'', ''cpu < MAX_CPUS'',
      ''task->run_state == BLOCKED'', ''task->queued()'', ''task->blocked()'',
      ''!sched_getaffinity'', ''CPU_COUNT <= MAX_CPUS'', ''!task->allowed_cpulist.Empty()''}"

section \<open>Placing a loose task\<close>

text \<open>The task \<open>t\<close> is now in the state \<open>x\<close>, the state is consistent and the other tasks are as they were.\<close>

abbreviation moved :: "('c, 'k) ghost \<Rightarrow> nat \<Rightarrow> task_state \<Rightarrow> ('c, 'k) sched \<Rightarrow> 'a \<Rightarrow> ('c, 'k) sched \<Rightarrow> bool" where
  "moved G t x s \<equiv> \<lambda>_ u. sched_ok G {} u \<and> (\<forall>v. v \<noteq> t \<longrightarrow> tasks u v = tasks s v) \<and> st u t = Some x"

lemma moved_dom:
  assumes "moved G t x s y u" and "t \<in> dom (tasks s)"
  shows "dom (tasks u) = dom (tasks s)"
proof -
  from assms obtain k l where "tasks u t = Some k" "tasks s t = Some l" by (auto simp: st_Some)
  with assms(1) have "v \<in> dom (tasks u) \<longleftrightarrow> v \<in> dom (tasks s)" for v by (cases "v = t") auto
  then show ?thesis by blast
qed

lemma enqueue_loose:
  assumes "sched_ok G {t} s" and "tasks s t = Some k"
  shows "wp C (Enqueue t) (moved G t QUEUED s) s"
  using into_queue [OF assms(1) _ assms(2)] assms by (simp add: wp_simps)

lemma yield_loose:
  assumes "sched_ok G {t} s" and "tasks s t = Some k"
    and "run_state k = ON_CPU \<or> run_state k = QUEUED \<or> run_state k = BLOCKED"
  shows "wp C (Yield t) (moved G t YIELDING s) s"
proof -
  have "elapsed_runtime k \<le> runtime k" by (rule sched_ok_runtime [OF assms(1,2)])
  with into_yielding [OF assms(1) _ assms(2), of "k\<lparr>run_state := YIELDING\<rparr>"]
  have "sched_ok G {} (put_task t (k\<lparr>run_state := YIELDING\<rparr>) s\<lparr>yielding_tasks := yielding_tasks s @ [t]\<rparr>)"
    by simp
  with assms(2,3) show ?thesis by (simp add: Yield_def wp_simps)
qed

lemma block_loose:
  assumes "sched_ok G {t} s" and "tasks s t = Some k"
  shows "wp C (upd_task t (\<lambda>k. k\<lparr>run_state := BLOCKED\<rparr>)) (moved G t BLOCKED s) s"
proof -
  let ?u = "put_task t (k\<lparr>run_state := BLOCKED\<rparr>) s"
  have "sched_ok G {t} ?u"
    using sched_ok_runtime [OF assms] by (intro put_loose [OF assms(1)]) auto
  from into_blocked [OF this, of t] have "sched_ok G {} ?u" by simp
  with assms(2) show ?thesis by (simp add: wp_simps)
qed

lemma remove_ok:
  assumes "sched_ok G {} s" and "tasks s t = Some k" and "run_state k = QUEUED"
  shows "wp C (RemoveFromRunqueue t BLOCKED) (moved G t BLOCKED s) s"
proof -
  let ?k = "k\<lparr>run_state := BLOCKED\<rparr>"
  have w: "t \<in> set (waiting s)" "distinct (waiting s)" "elapsed_runtime k \<le> runtime k"
    using assms by (auto simp: ok_parts)
  have ok: "sched_ok G {} (put_task t ?k u)"
    if "tasks u = tasks s" "cpu_states u = cpu_states s" "cpus u = cpus s" "cpuhist u = cpuhist s"
      "global_home_cpu u = global_home_cpu s" "yielding_tasks u = yielding_tasks s"
      "set (waiting u) = set (waiting s) - {t}" "distinct (waiting u)" for u
  proof -
    have "st u = st s" "tc u = tc s" using that by (simp_all add: fun_eq_iff st_def tc_def)
    with that w assms show ?thesis by (auto simp: ok_defs)
  qed
  have "sched_ok G {} (put_task t ?k (s\<lparr>run_queue := remove1 t (run_queue s)\<rparr>))" if "t \<in> set (run_queue s)"
    using that w(2) by (intro ok) (auto simp: waiting_def)
  moreover have "sched_ok G {} (put_task t ?k (s\<lparr>run_queue_low_priority := remove1 t (run_queue_low_priority s)\<rparr>))"
    if "t \<notin> set (run_queue s)"
    using that w(2) by (intro ok) (auto simp: waiting_def)
  ultimately show ?thesis
    using assms(2,3) w(1) by (auto simp: RemoveFromRunqueue_def wp_simps waiting_def)
qed

text \<open>The end of three handlers.\<close>

lemma end_submit_ok:
  assumes "moved G t x s y u"
  shows "wp C (end_submit t p) (moved G t x s) u"
proof -
  from assms obtain k where k: "tasks u t = Some k" and ok: "sched_ok G {} u" by (auto simp: st_Some)
  have "sched_ok G {} (put_task t (k\<lparr>start_submit := InfiniteFuture\<rparr>) u)"
    using sched_ok_runtime [OF ok k] by (intro put_same [OF ok k]) auto
  with k assms show ?thesis by (simp add: end_submit_def wp_simps)
qed

section \<open>Leaving a CPU\<close>

lemma switchto_ok:
  assumes "sched_ok G X s" and "kernel_checks \<subseteq> C"
  shows "wp C (CpuEnteringSwitchto G i) (\<lambda>_ u. sched_ok G X u \<and> tasks u = tasks s) s"
    and "wp C (CpuLeavingSwitchto G i) (\<lambda>_ u. sched_ok G X u \<and> tasks u = tasks s) s"
  using assms put_switchto [OF assms(1)] sched_ok_lengths [OF assms(1)]
  by (auto simp: CpuEnteringSwitchto_def CpuLeavingSwitchto_def wp_simps kernel_checks_def)

text \<open>The task \<open>t\<close> is off its CPU and referred to from nowhere; its state is \<open>x\<close>.\<close>

abbreviation loose :: "('c, 'k) ghost \<Rightarrow> nat \<Rightarrow> task_state \<Rightarrow> ('c, 'k) sched \<Rightarrow> 'a \<Rightarrow> ('c, 'k) sched \<Rightarrow> bool" where
  "loose G t x s \<equiv> \<lambda>_ u. sched_ok G {t} u \<and> (\<forall>v. v \<noteq> t \<longrightarrow> tasks u v = tasks s v) \<and> st u t = Some x"

lemma clear_current:
  assumes "sched_ok G {} u" and "c < MAX_CPUS G" and "cs_current (cpu_states u ! c) = Some t"
    and "\<forall>v. v \<noteq> t \<longrightarrow> tasks u v = tasks s v"
  shows "wp C (upd_cpu c (\<lambda>cs. cs\<lparr>cs_current := None\<rparr>)) (loose G t ON_CPU s) u"
  using out_of_current [OF assms(1-3)] sched_ok_lengths(1) [OF assms(1)] current_iff [OF assms(1,2), of t] assms
  by (simp add: wp_simps)

lemma clear_cpu_ok:
  assumes ok: "sched_ok G {} s" and k: "tasks s t = Some k" and run: "oncpu_or_pending k" and C: "kernel_checks \<subseteq> C"
  shows "wp C (clear_cpu G t) (loose G t ON_CPU s) s"
proof -
  from run obtain c where c: "c < MAX_CPUS G" "task_cpu k = Some c"
    unfolding oncpu_or_pending_def by (rule on_some_cpu [OF ok _ k, simplified])
  note len = sched_ok_lengths(1) [OF ok]
  note iff = current_iff [OF ok c(1), of t] next_iff [OF ok c(1), of t]
  have C1: "''req->committed()'' \<in> C" "''SyncCpuState(task->cpu)'' \<in> C" using C by (auto simp: kernel_checks_def)
  show ?thesis
  proof (cases "run_state k = PENDING")
    case pend: True
    have nx: "cs_next (cpu_states s ! c) = Some t" "cs_current (cpu_states s ! c) = None"
      using iff one_task [OF ok c(1)] k pend c(2) by auto
    have "wp C (SyncCpuState G (Some c)) (\<lambda>b. wp C (CHECK ''SyncCpuState(task->cpu)'' b)
        (\<lambda>_. wp C (upd_cpu c (\<lambda>cs. cs\<lparr>cs_current := None\<rparr>)) (loose G t ON_CPU s))) s"
      by (rule wp_mono [OF SyncCpuState_ok [OF ok c(1) C1(1)]])
        (use C1(2) nx in \<open>auto intro!: clear_current [OF _ c(1)]\<close>)
    with nx k c len pend show ?thesis by (simp add: clear_cpu_def cpu_state_of_def wp_simps)
  next
    case False
    with run have on: "run_state k = ON_CPU" by (simp add: oncpu_or_pending_def)
    with iff k c(2) have "cs_current (cpu_states s ! c) = Some t" by simp
    with clear_current [OF ok c(1), of t s C] k c len on show ?thesis
      by (simp add: clear_cpu_def cpu_state_of_def wp_task wp_cpu_state)
  qed
qed

lemma leave_cpu_ok:
  assumes ok: "sched_ok G {} s" and k: "tasks s t = Some k" and run: "oncpu_or_pending k" and C: "kernel_checks \<subseteq> C"
  shows "wp C (leave_cpu G t p) (loose G t ON_CPU s) s"
proof (cases "runtime k \<le> pl_runtime p")
  case True
  let ?k = "k\<lparr>elapsed_runtime := elapsed_runtime k + (pl_runtime p - runtime k), runtime := pl_runtime p\<rparr>"
  let ?u = "put_task t ?k s"
  have u: "sched_ok G {} ?u" "tasks ?u t = Some ?k" "oncpu_or_pending ?k"
    using runtime_ok [OF ok k True, of True] run by (simp_all add: oncpu_or_pending_def)
  have "wp C (clear_cpu G t) (loose G t ON_CPU s) ?u" by (rule wp_mono [OF clear_cpu_ok [OF u C]]) simp
  then show ?thesis using k True by (simp add: leave_cpu_def UpdateTaskRuntime_def wp_SetRuntime)
next
  case False
  with k C show ?thesis by (auto simp: leave_cpu_def UpdateTaskRuntime_def wp_SetRuntime kernel_checks_def)
qed

lemma leave_switchto_ok:
  assumes "sched_ok G {} s" and "tasks s t = Some k" and "kernel_checks \<subseteq> C"
  shows "wp C (leave_switchto G t p) (\<lambda>y u. moved G t BLOCKED s y u \<and> loose G t BLOCKED s y u) s"
proof (cases "run_state k = BLOCKED \<and> runtime k \<le> pl_runtime p")
  case True
  let ?k = "k\<lparr>elapsed_runtime := elapsed_runtime k + (pl_runtime p - runtime k), runtime := pl_runtime p\<rparr>"
  have 1: "sched_ok G {} (put_task t ?k s)"
    using runtime_ok [OF assms(1,2), of "pl_runtime p" True] True by simp
  have "wp C (CpuLeavingSwitchto G (pl_cpu p)) (\<lambda>y u. moved G t BLOCKED s y u \<and> loose G t BLOCKED s y u) (put_task t ?k s)"
    by (rule wp_mono [OF switchto_ok(2) [OF 1 assms(3)]])
      (use True in \<open>auto intro!: out_of_blocked [where X = "{}", simplified]\<close>)
  with True assms(2) show ?thesis by (simp add: leave_switchto_def UpdateTaskRuntime_def wp_simps)
next
  case False
  with assms(2,3) show ?thesis
    by (auto simp: leave_switchto_def UpdateTaskRuntime_def wp_simps kernel_checks_def)
qed

section \<open>The handlers\<close>

text \<open>A task leaves its CPU, or the end of a chain of switches, and is placed elsewhere.\<close>

lemma then_place:
  assumes "wp C leave (loose G t y s) s"
    and place: "\<And>u k. sched_ok G {t} u \<Longrightarrow> tasks u t = Some k \<Longrightarrow> run_state k = y \<Longrightarrow> wp C m (moved G t x u) u"
  shows "wp C (steps [leave, m]) (moved G t x s) s"
proof -
  have "wp C leave (\<lambda>_. wp C m (moved G t x s)) s"
  proof (rule wp_mono [OF assms(1)])
    fix z u
    assume u: "loose G t y s z u"
    then obtain k where k: "tasks u t = Some k" "run_state k = y" by (auto simp: st_Some)
    have "wp C m (moved G t x u) u" using u k by (intro place) auto
    then show "wp C m (moved G t x s) u" by (rule wp_mono) (use u in auto)
  qed
  then show ?thesis by simp
qed

lemma leave_and_place:
  assumes "sched_ok G {} s" and "tasks s t = Some k" and "oncpu_or_pending k" and "kernel_checks \<subseteq> C"
    and "\<And>u k. sched_ok G {t} u \<Longrightarrow> tasks u t = Some k \<Longrightarrow> run_state k = ON_CPU \<Longrightarrow> wp C m (moved G t x u) u"
  shows "wp C (steps [leave_cpu G t p, m]) (moved G t x s) s"
  by (rule then_place [OF leave_cpu_ok [OF assms(1-4)] assms(5)])

lemma switchto_and_place:
  assumes "sched_ok G {} s" and "tasks s t = Some k" and "kernel_checks \<subseteq> C"
    and "\<And>u k. sched_ok G {t} u \<Longrightarrow> tasks u t = Some k \<Longrightarrow> run_state k = BLOCKED \<Longrightarrow> wp C m (moved G t x u) u"
  shows "wp C (steps [leave_switchto G t p, m]) (moved G t x s) s"
proof (rule then_place [OF _ assms(4)])
  show "wp C (leave_switchto G t p) (loose G t BLOCKED s) s"
    by (rule wp_mono [OF leave_switchto_ok [OF assms(1-3)]]) simp
qed

text \<open>The common shape of four handlers: a flag, then the case analysis on the state.\<close>

lemma flag_then:
  assumes ok: "sched_ok G {} s" and k: "tasks s t = Some k"
    and f: "\<And>k. run_state (f k) = run_state k \<and> task_cpu (f k) = task_cpu k \<and>
        elapsed_runtime (f k) = elapsed_runtime k \<and> runtime (f k) = runtime k"
    and body: "\<And>u k'. sched_ok G {} u \<Longrightarrow> tasks u t = Some k' \<Longrightarrow> run_state k' = run_state k \<Longrightarrow>
        wp C (body k') (moved G t x u) u"
  shows "wp C (bnd (upd_task t f) (\<lambda>_. bnd (task t) body)) (moved G t x s) s"
proof -
  let ?u = "put_task t (f k) s"
  have u: "sched_ok G {} ?u" "tasks ?u t = Some (f k)" "run_state (f k) = run_state k"
    using sched_ok_runtime [OF ok k] f [of k] by (auto intro!: put_same [OF ok k])
  have "wp C (body (f k)) (moved G t x s) ?u" by (rule wp_mono [OF body [OF u]]) simp
  with k show ?thesis by (simp add: wp_simps)
qed

lemma handler_ok:
  assumes "sched_ok G {} s" and "tasks s t = Some k"
    and "\<And>k. run_state (f k) = run_state k \<and> task_cpu (f k) = task_cpu k \<and>
        elapsed_runtime (f k) = elapsed_runtime k \<and> runtime (f k) = runtime k"
    and "\<And>u k'. sched_ok G {} u \<Longrightarrow> tasks u t = Some k' \<Longrightarrow> run_state k' = run_state k \<Longrightarrow>
        wp C (body k') (moved G t x u) u"
  shows "wp C (steps [upd_task t f, bnd (task t) body, end_submit t p]) (moved G t x s) s"
proof -
  have "wp C (bnd (upd_task t f) (\<lambda>_. bnd (task t) body)) (moved G t x s) s"
    by (rule flag_then [OF assms(1-3)]) (rule assms(4))
  then have "wp C (bnd (upd_task t f) (\<lambda>_. bnd (task t) body)) (\<lambda>_. wp C (end_submit t p) (moved G t x s)) s"
    by (rule wp_mono) (rule end_submit_ok)
  then show ?thesis by simp
qed

lemma TaskBlocked_ok:
  assumes "sched_ok G {} s" and "tasks s t = Some k" and C: "kernel_checks \<subseteq> C"
  shows "wp C (TaskBlocked G t p) (moved G t BLOCKED s) s"
  unfolding TaskBlocked_def
proof (rule handler_ok [OF assms(1,2)])
  fix u k'
  assume u: "sched_ok G {} u" "tasks u t = Some k'"
  show "wp C (if oncpu_or_pending k' then steps [leave_cpu G t p, upd_task t (\<lambda>k. k\<lparr>run_state := BLOCKED\<rparr>)]
        else if pl_from_switchto p then leave_switchto G t p
        else steps [CHECK ''task->queued()'' (run_state k' = QUEUED), RemoveFromRunqueue t BLOCKED]) (moved G t BLOCKED u) u"
  proof (intro wp_if)
    show "wp C (steps [leave_cpu G t p, upd_task t (\<lambda>k. k\<lparr>run_state := BLOCKED\<rparr>)]) (moved G t BLOCKED u) u" if "oncpu_or_pending k'"
      by (rule leave_and_place [OF u that C]) (rule block_loose)
    show "wp C (leave_switchto G t p) (moved G t BLOCKED u) u"
      by (rule wp_mono [OF leave_switchto_ok [OF u C]]) simp
    show "wp C (steps [CHECK ''task->queued()'' (run_state k' = QUEUED), RemoveFromRunqueue t BLOCKED]) (moved G t BLOCKED u) u"
      using remove_ok [OF u, of C] C by (auto simp: kernel_checks_def)
  qed
qed simp

lemma TaskPreempted_ok:
  assumes "sched_ok G {} s" and "tasks s t = Some k" and C: "kernel_checks \<subseteq> C"
  shows "wp C (TaskPreempted G t p) (moved G t QUEUED s) s"
  unfolding TaskPreempted_def
proof (rule handler_ok [OF assms(1,2)])
  fix u k'
  assume u: "sched_ok G {} u" "tasks u t = Some k'"
  show "wp C (if oncpu_or_pending k' then steps [leave_cpu G t p, Enqueue t]
        else if pl_from_switchto p then steps [leave_switchto G t p, Enqueue t]
        else CHECK ''task->queued()'' (run_state k' = QUEUED)) (moved G t QUEUED u) u"
  proof (intro wp_if)
    show "wp C (steps [leave_cpu G t p, Enqueue t]) (moved G t QUEUED u) u" if "oncpu_or_pending k'"
      by (rule leave_and_place [OF u that C]) (rule enqueue_loose)
    show "wp C (steps [leave_switchto G t p, Enqueue t]) (moved G t QUEUED u) u"
      by (rule switchto_and_place [OF u C]) (rule enqueue_loose)
    show "wp C (CHECK ''task->queued()'' (run_state k' = QUEUED)) (moved G t QUEUED u) u"
      using C u by (auto simp: kernel_checks_def)
  qed
qed simp

text \<open>A task that yields while it is queued, because of a race, stays queued.\<close>

definition yield_target :: "task_state \<Rightarrow> bool \<Rightarrow> task_state" where
  "yield_target x from_switchto = (if x = QUEUED \<and> \<not> from_switchto then QUEUED else YIELDING)"

lemma TaskYield_ok:
  assumes "sched_ok G {} s" and "tasks s t = Some k" and C: "kernel_checks \<subseteq> C"
  shows "wp C (TaskYield G t p) (moved G t (yield_target (run_state k) (pl_from_switchto p)) s) s"
  unfolding TaskYield_def
proof (rule handler_ok [OF assms(1,2)])
  fix u k'
  assume u: "sched_ok G {} u" "tasks u t = Some k'" and k': "run_state k' = run_state k"
  let ?x = "yield_target (run_state k) (pl_from_switchto p)"
  show "wp C (if oncpu_or_pending k' then steps [leave_cpu G t p, Yield t]
        else if pl_from_switchto p then steps [leave_switchto G t p, Yield t]
        else CHECK ''task->queued()'' (run_state k' = QUEUED)) (moved G t ?x u) u"
  proof (intro wp_if)
    show "wp C (steps [leave_cpu G t p, Yield t]) (moved G t ?x u) u" if run: "oncpu_or_pending k'"
    proof -
      have x: "?x = YIELDING" using run k' by (auto simp: yield_target_def oncpu_or_pending_def)
      show ?thesis unfolding x
        by (rule leave_and_place [OF u run C]) (rule yield_loose, assumption, assumption, simp)
    qed
    show "wp C (steps [leave_switchto G t p, Yield t]) (moved G t ?x u) u" if "pl_from_switchto p"
    proof -
      have x: "?x = YIELDING" using that by (simp add: yield_target_def)
      show ?thesis unfolding x
        by (rule switchto_and_place [OF u C]) (rule yield_loose, assumption, assumption, simp)
    qed
    show "wp C (CHECK ''task->queued()'' (run_state k' = QUEUED)) (moved G t ?x u) u" if "\<not> pl_from_switchto p"
      using C u k' that by (auto simp: kernel_checks_def yield_target_def)
  qed
qed simp

lemma TaskSwitchto_ok:
  assumes "sched_ok G {} s" and "tasks s t = Some k" and C: "kernel_checks \<subseteq> C"
  shows "wp C (TaskSwitchto G t p) (moved G t BLOCKED s) s"
proof -
  let ?body = "\<lambda>k. if oncpu_or_pending k then steps [leave_cpu G t p, upd_task t (\<lambda>k. k\<lparr>run_state := BLOCKED\<rparr>)]
        else steps [CHECK ''task->queued()'' (run_state k = QUEUED), RemoveFromRunqueue t BLOCKED]"
  have body: "wp C (?body k') (moved G t BLOCKED u) u" if u: "sched_ok G {} u" "tasks u t = Some k'" for u k'
  proof (rule wp_if)
    assume "oncpu_or_pending k'"
    then show "wp C (steps [leave_cpu G t p, upd_task t (\<lambda>k. k\<lparr>run_state := BLOCKED\<rparr>)]) (moved G t BLOCKED u) u"
      by (rule leave_and_place [OF u _ C]) (rule block_loose)
  next
    show "wp C (steps [CHECK ''task->queued()'' (run_state k' = QUEUED), RemoveFromRunqueue t BLOCKED]) (moved G t BLOCKED u) u"
      using remove_ok [OF u, of C] C by (auto simp: kernel_checks_def)
  qed
  have "wp C (CpuEnteringSwitchto G (pl_cpu p))
      (\<lambda>_. wp C (bnd (upd_task t (\<lambda>k. k\<lparr>prio_boost := False\<rparr>)) (\<lambda>_. bnd (task t) ?body)) (moved G t BLOCKED s)) s"
  proof (rule wp_mono [OF switchto_ok(1) [OF assms(1) C]])
    fix x u
    assume u: "sched_ok G {} u \<and> tasks u = tasks s"
    then have k: "sched_ok G {} u" "tasks u t = Some k" using assms(2) by simp_all
    have "wp C (bnd (upd_task t (\<lambda>k. k\<lparr>prio_boost := False\<rparr>)) (\<lambda>_. bnd (task t) ?body)) (moved G t BLOCKED u) u"
      by (rule flag_then [OF k]) (simp, rule body)
    with u show "wp C (bnd (upd_task t (\<lambda>k. k\<lparr>prio_boost := False\<rparr>)) (\<lambda>_. bnd (task t) ?body)) (moved G t BLOCKED s) u"
      by simp
  qed
  then show ?thesis by (simp add: TaskSwitchto_def)
qed

lemma TaskRunnable_ok:
  assumes ok: "sched_ok G {} s" and k: "tasks s t = Some k" and C: "kernel_checks \<subseteq> C"
  shows "wp C (TaskRunnable t d) (moved G t QUEUED s) s"
proof (cases "run_state k = BLOCKED")
  case True
  let ?k = "k\<lparr>prio_boost := \<not> d\<rparr>"
  have "sched_ok G {t} (put_task t ?k s)"
    using sched_ok_runtime [OF ok k] out_of_blocked [OF ok, of t] True k by (intro put_loose) auto
  then have "wp C (Enqueue t) (moved G t QUEUED (put_task t ?k s)) (put_task t ?k s)"
    by (rule enqueue_loose) simp_all
  with True k show ?thesis by (simp add: TaskRunnable_def wp_simps)
next
  case False
  with k C show ?thesis by (auto simp: TaskRunnable_def wp_simps kernel_checks_def)
qed

text \<open>A new task: the fields other than the state are set after the task was queued.\<close>

lemma set_field_ok:
  assumes "moved G t x s y u"
    and "\<And>k. run_state (f k) = run_state k \<and> task_cpu (f k) = task_cpu k \<and>
        elapsed_runtime (f k) = elapsed_runtime k \<and> runtime (f k) = runtime k"
  shows "wp C (upd_task t f) (moved G t x s) u"
proof -
  from assms(1) obtain k where k: "tasks u t = Some k" "run_state k = x" and u: "sched_ok G {} u"
    by (auto simp: st_Some)
  have "sched_ok G {} (put_task t (f k) u)"
    using sched_ok_runtime [OF u k(1)] assms(2) [of k] by (intro put_same [OF u k(1)]) auto
  with k assms show ?thesis by (simp add: wp_simps)
qed

lemma set_allowed_cpus_ok:
  assumes u: "moved G t x s y u" and C: "kernel_checks \<subseteq> C"
  shows "wp C (set_allowed_cpus G t) (moved G t x s) u"
proof -
  let ?check = "bnd (task t) (\<lambda>k. CHECK ''!task->allowed_cpulist.Empty()'' (\<not> cl_Empty G (allowed_cpulist k)))"
  have mask: "wp C (each (\<lambda>c. if c \<in> set allowed
      then upd_task t (\<lambda>k. k\<lparr>allowed_cpulist := cl_Set G (allowed_cpulist k) c\<rparr>) else ret ()) cs) (moved G t x s) v"
    if "moved G t x s y v" for allowed cs y v
    using that by (intro wp_each_inv) (auto intro!: set_field_ok)
  have last: "wp C ?check (moved G t x s) v" if v: "moved G t x s y v" for y v
    using v C by (cases "tasks v t") (auto simp: wp_simps kernel_checks_def)
  from u obtain k where k: "tasks u t = Some k" by (auto simp: st_Some)
  define a where "a = sched_getaffinity G (tid G (gtid k)) (kernel u)"
  show ?thesis
  proof (cases "fst a")
    case None
    with k C show ?thesis by (simp add: set_allowed_cpus_def wp_simps kernel_checks_def a_def)
  next
    case (Some allowed)
    have "st (u\<lparr>kernel := snd a\<rparr>) t = st u t" by (simp add: st_def)
    with u have "moved G t x s y (u\<lparr>kernel := snd a\<rparr>)" by simp
    note wp_mono [OF mask [OF this, of allowed "cl_elems G (cpus u)"] last]
    with Some k C show ?thesis by (auto simp: set_allowed_cpus_def wp_simps kernel_checks_def a_def)
  qed
qed

lemma AdjustTaskPriority_ok:
  assumes u: "moved G t x s y u"
  shows "wp C (AdjustTaskPriority G t) (moved G t x s) u"
proof -
  from u obtain k where k: "tasks u t = Some k" by (auto simp: st_Some)
  have "st (u\<lparr>kernel := w\<rparr>) t = st u t" for w by (simp add: st_def)
  with u have "wp C (upd_task t (\<lambda>k. k\<lparr>high_priority := b\<rparr>)) (moved G t x s) (u\<lparr>kernel := w\<rparr>)" for b w
    by (intro set_field_ok) auto
  with k show ?thesis by (simp add: AdjustTaskPriority_def wp_simps)
qed

lemma TaskNew_ok:
  fixes s :: "('c, 'k) sched"
  assumes ok: "sched_ok G {} s" and k: "tasks s t = Some k" and "run_state k = BLOCKED" and C: "kernel_checks \<subseteq> C"
  shows "wp C (TaskNew G t q r b) (moved G t (if b then QUEUED else BLOCKED) s) s"
proof (cases "runtime k \<le> r")
  case True
  let ?k = "k\<lparr>runtime := r, seqnum := q, run_state := BLOCKED\<rparr>"
  let ?u = "put_task t ?k s"
  have run: "elapsed_runtime k \<le> r" using sched_ok_runtime [OF ok k] True by simp
  have loose: "sched_ok G {t} ?u"
    using out_of_blocked [OF ok, of t] assms(3) k run by (intro put_loose) auto
  then have u: "moved G t BLOCKED s x ?u" for x :: unit
    using into_blocked [of G "{t}" ?u t] by simp
  have q: "moved G t QUEUED s x (enqueued ?k t ?u)" for x :: unit
    using into_queue [OF loose, of t ?k] by simp
  have rest: "wp C (set_allowed_cpus G t) (\<lambda>_. wp C (AdjustTaskPriority G t) (moved G t x s)) v"
    if v: "moved G t x s y v" for x and y :: unit and v
    by (rule wp_mono [OF set_allowed_cpus_ok [OF v C] AdjustTaskPriority_ok])
  have "st (v\<lparr>num_tasks := n\<rparr>) t = st v t" for v :: "('c, 'k) sched" and n by (simp add: st_def)
  with rest [OF u] rest [OF q] True k show ?thesis
    by (simp add: TaskNew_def UpdateTaskRuntime_def wp_simps)
next
  case False
  with k C show ?thesis by (auto simp: TaskNew_def UpdateTaskRuntime_def wp_simps kernel_checks_def)
qed

text \<open>A blocked task is referred to from nowhere, so it can be freed.\<close>

lemma free_blocked:
  assumes "sched_ok G {} s" and "st s t = Some BLOCKED"
  shows "sched_ok G {} (s\<lparr>tasks := (tasks s)(t := None)\<rparr>)" (is "sched_ok G {} ?u")
proof -
  have "st ?u u = (if u = t then None else st s u)" "tc ?u u = (if u = t then None else tc s u)" "waiting ?u = waiting s" for u
    by (simp_all add: st_def tc_def waiting_def)
  with assms show ?thesis by (auto simp: ok_defs)
qed

lemma TaskDead_ok:
  assumes ok: "sched_ok G {} s" and k: "tasks s t = Some k" and C: "kernel_checks \<subseteq> C"
  shows "wp C (TaskDead t) (\<lambda>_ u. sched_ok G {} u \<and> tasks u = (tasks s)(t := None)) s"
  using free_blocked [OF ok, of t] k C by (auto simp: TaskDead_def FreeTask_def wp_simps kernel_checks_def)

text \<open>A freed task is gone from the map of tasks; only a blocked one is referred to from nowhere.\<close>

lemma free_iff:
  assumes ok: "sched_ok G {} s" and t: "tasks s t = Some k"
  shows "sched_ok G {} (s\<lparr>tasks := (tasks s)(t := None), num_tasks := n\<rparr>) \<longleftrightarrow> run_state k = BLOCKED"
proof
  assume "run_state k = BLOCKED"
  with free_blocked [OF ok, of t] t show "sched_ok G {} (s\<lparr>tasks := (tasks s)(t := None), num_tasks := n\<rparr>)" by simp
next
  let ?u = "s\<lparr>tasks := (tasks s)(t := None), num_tasks := n\<rparr>"
  assume u: "sched_ok G {} ?u"
  have gone: "st ?u t = None" and same: "waiting ?u = waiting s" by (simp_all add: st_def waiting_def)
  show "run_state k = BLOCKED"
  proof (cases "run_state k = ON_CPU \<or> run_state k = PENDING")
    case True
    then obtain c where c: "c < MAX_CPUS G" "task_cpu k = Some c" using on_some_cpu [OF ok _ t] by auto
    with True t current_iff [OF ok c(1), of t] next_iff [OF ok c(1), of t]
    have "cs_current (cpu_states s ! c) = Some t \<or> cs_next (cpu_states s ! c) = Some t" by auto
    with current_iff [OF u c(1), of t] next_iff [OF u c(1), of t] gone show ?thesis by simp
  next
    case False
    have "t \<notin> set (waiting s)" "t \<notin> set (yielding_tasks s)"
      using gone same waiting_iff [OF u, of t] yielding_iff [OF u, of t] by simp_all
    with t False show ?thesis using waiting_iff [OF ok, of t] yielding_iff [OF ok, of t] by (cases "run_state k") simp_all
  qed
qed

lemma TaskDeparted_ok:
  assumes ok: "sched_ok G {} s" and t: "tasks s t = Some k" and C: "kernel_checks \<subseteq> C"
  shows "wp C (TaskDeparted G t p)
    (\<lambda>_ u. (sched_ok G {} u \<longleftrightarrow> run_state k = BLOCKED) \<and> tasks u = (tasks s)(t := None)) s"
proof -
  let ?Q = "\<lambda>_ u. (sched_ok G {} u \<longleftrightarrow> run_state k = BLOCKED) \<and> tasks u = (tasks s)(t := None)"
  have free: "wp C (FreeTask t) ?Q u" if "sched_ok G {} u" "tasks u = tasks s" for u
    using that t free_iff [OF that(1)] by (auto simp: FreeTask_def wp_simps)
  have "wp C (if pl_from_switchto p then CpuLeavingSwitchto G (pl_cpu p) else ret ())
      (\<lambda>_. wp C (FreeTask t) ?Q) s"
    by (intro wp_if) (auto intro!: free ok wp_mono [OF switchto_ok(2) [OF ok C]])
  then show ?thesis by (simp add: TaskDeparted_def)
qed

end
