(* ===== verification/Net_Round.thy ===== *)
theory Net_Round
  imports Net_Handlers
begin

text \<open>
  A round of scheduling and the migration of the global agent keep the invariant.  The collected
  CPUs are really free, or run a task that can be replaced (\<open>round_ok\<close>); the loop that assigns tasks
  ends, because each turn takes a task off the queues and a turn that puts one back uses up a CPU;
  when it ends, no CPU is left or no task is waiting.  If every task can be placed, it fills the free
  CPUs from the front of the queue (\<open>assign_loop_fills\<close>).
\<close>

text \<open>A consistent state with the same tasks.\<close>

abbreviation consistent :: "('c, 'k) ghost \<Rightarrow> ('c, 'k) sched \<Rightarrow> 'a \<Rightarrow> ('c, 'k) sched \<Rightarrow> bool" where
  "consistent G s \<equiv> \<lambda>_ u. sched_ok G {} u \<and> dom (tasks u) = dom (tasks s)"

definition round_checks :: "string set" where
  "round_checks = {''req->committed()'', ''new_runtime >= runtime''}"

definition round_ok :: "('c, 'k) ghost \<Rightarrow> 'c round \<Rightarrow> ('c, 'k) sched \<Rightarrow> bool" where
  "round_ok G r s \<longleftrightarrow>
     (\<forall>c \<in> set (cl_elems G (avail_cpus r)). cs_current (cpu_states s ! c) = None \<and> cs_next (cpu_states s ! c) = None) \<and>
     (\<forall>c \<in> set (cl_elems G (avail_cpus_low_priority r)). cs_current (cpu_states s ! c) \<noteq> None)"

definition free_cpus :: "('c, 'k) ghost \<Rightarrow> 'c round \<Rightarrow> nat set" where
  "free_cpus G r = set (cl_elems G (avail_cpus r)) \<union> set (cl_elems G (avail_cpus_low_priority r))"

lemma kernel_kept [simp]:
  "kept_cpu c s (u\<lparr>yielding_tasks := ys\<rparr>) = kept_cpu c s u" "kept_cpu c s (u\<lparr>txn_total := i\<rparr>) = kept_cpu c s u"
  "kept_cpu c s (u\<lparr>kernel := w\<rparr>) = kept_cpu c s u" "kept_cpu c (s\<lparr>kernel := w\<rparr>) u = kept_cpu c s u"
  "round_ok G r (u\<lparr>kernel := w\<rparr>) = round_ok G r u"
  by (simp_all add: kept_cpu_def round_ok_def)

lemma round_ok_kept:
  assumes "round_ok G r s" and "kept_cpu c s u" and "c \<notin> free_cpus G r"
  shows "round_ok G r u"
  using assms by (auto simp: round_ok_def kept_cpu_def free_cpus_def)

section \<open>Collecting the CPUs\<close>

lemma replaceable_ok:
  assumes "tasks s t \<noteq> None"
  shows "wp C (replaceable G t) (\<lambda>_ u. \<exists>w. u = s\<lparr>kernel := w\<rparr>) s"
  using assms by (auto simp: replaceable_def wp_simps)

lemma current_live:
  assumes "sched_ok G X s" and "c < MAX_CPUS G" and "cs_current (cpu_states s ! c) = Some t"
  obtains k where "tasks s t = Some k" "run_state k = ON_CPU" "task_cpu k = Some c" "t \<notin> X"
proof -
  from current_iff [OF assms(1,2), of t] assms(3) have t: "t \<notin> X" "st s t = Some ON_CPU" "tc s t = Some c" by auto
  then obtain k where "tasks s t = Some k" "run_state k = ON_CPU" by (auto simp: st_Some)
  with t that show thesis by auto
qed

text \<open>The end of the body, after the state of the CPU is up to date.\<close>

lemma classify_cpu_ok:
  assumes ok: "sched_ok G {} u" and c: "c < MAX_CPUS G" and r: "round_ok G r u" and nx: "cs_next (cpu_states u ! c) = None"
  shows "wp C (classify_cpu G c r)
    (\<lambda>r' v. (\<exists>w. v = u\<lparr>kernel := w\<rparr>) \<and> round_ok G r' u \<and> free_cpus G r' \<subseteq> insert c (free_cpus G r) \<and>
      assigned_cpus r' = assigned_cpus r) u"
proof -
  note len = sched_ok_lengths [OF ok]
  note cl = cpulist_simps(5) [OF len(3) c]
  show ?thesis
  proof (cases "cs_current (cpu_states u ! c)")
    case None
    have "u = u\<lparr>kernel := kernel u\<rparr>" by simp
    then have "\<exists>w. u = u\<lparr>kernel := w\<rparr>" by blast
    with None c r nx len show ?thesis by (auto simp: classify_cpu_def wp_simps cl round_ok_def free_cpus_def)
  next
    case (Some t)
    from current_live [OF ok c Some] obtain k where "tasks u t = Some k" by auto
    then have "wp C (replaceable G t) (\<lambda>_ v. \<exists>w. v = u\<lparr>kernel := w\<rparr>) u" by (intro replaceable_ok) simp
    with Some c r nx len show ?thesis
      by (auto simp: classify_cpu_def wp_simps cl round_ok_def free_cpus_def elim!: wp_mono)
  qed
qed

lemma scan_cpu_ok:
  assumes ok: "sched_ok G {} s" and cpu: "c \<in> set (cl_elems G (cpus s))" and C: "round_checks \<subseteq> C"
    and r: "round_ok G r s" "c \<notin> free_cpus G r"
  shows "wp C (scan_cpu G c r) (\<lambda>r' u. sched_ok G {} u \<and> kept_cpu c s u \<and> round_ok G r' u \<and>
    free_cpus G r' \<subseteq> insert c (free_cpus G r) \<and> assigned_cpus r' = assigned_cpus r) s" (is "wp C _ ?Q s")
proof -
  note len = sched_ok_lengths [OF ok]
  have c: "c < MAX_CPUS G" by (rule cpulist_elems(2) [OF len(3) cpu])
  from ok cpu obtain a where a: "cs_agent (cpu_states s ! c) = Some a" by (auto simp: ok_parts)
  have C1: "''req->committed()'' \<in> C" using C by (simp add: round_checks_def)
  have sync: "wp C (SyncCpuState G (Some c)) (\<lambda>b u. sched_ok G {} u \<and> kept_cpu c s u \<and> round_ok G r u \<and>
      cs_next (cpu_states u ! c) = None) (s\<lparr>kernel := w\<rparr>)" for w
    using ok by (intro wp_mono [OF SyncCpuState_ok [OF _ c C1]]) (auto intro: round_ok_kept [OF r(1) _ r(2)])
  have lost: "wp C (SyncCpuState G (Some c)) (\<lambda>_. ?Q (r\<lparr>unavail := unavail r + 1\<rparr>)) (s\<lparr>kernel := w\<rparr>)" for w
    by (rule wp_mono [OF sync]) (auto simp: round_ok_def free_cpus_def)
  have "wp C (classify_cpu G c r) ?Q u"
    if "sched_ok G {} u \<and> kept_cpu c s u \<and> round_ok G r u \<and> cs_next (cpu_states u ! c) = None" for u
    using that by (intro wp_mono [OF classify_cpu_ok [of G u c r]]) (auto simp: c)
  then have found: "wp C (SyncCpuState G (Some c)) (\<lambda>_. wp C (classify_cpu G c r) ?Q) (s\<lparr>kernel := w\<rparr>)" for w
    by (rule wp_mono [OF sync])
  have same: "?Q r (s\<lparr>kernel := w\<rparr>)" "?Q (r\<lparr>unavail := unavail r + 1\<rparr>) (s\<lparr>kernel := w\<rparr>)" for w
    using ok r by (auto simp: round_ok_def free_cpus_def)
  show ?thesis
    using len c a lost found same by (auto simp: scan_cpu_def Available_def wp_simps)
qed

lemma scan_all_ok:
  assumes ok: "sched_ok G {} s" and C: "round_checks \<subseteq> C"
  shows "wp C (fold_m (scan_cpu G) (cl_elems G (cpus s)) (round0 G))
    (\<lambda>r u. sched_ok G {} u \<and> dom (tasks u) = dom (tasks s) \<and> cpus u = cpus s \<and> round_ok G r u \<and>
      assigned_cpus r = EmptyCpuList G) s"
proof -
  note spec = sched_ok_lengths(3) [OF ok]
  let ?P = "\<lambda>ys r u. sched_ok G {} u \<and> dom (tasks u) = dom (tasks s) \<and> cpus u = cpus s \<and> round_ok G r u \<and>
    assigned_cpus r = EmptyCpuList G \<and> free_cpus G r \<subseteq> set ys"
  have "wp C (fold_m (scan_cpu G) (cl_elems G (cpus s)) (round0 G)) (?P (cl_elems G (cpus s))) s"
  proof (rule wp_fold_m [where P = ?P])
    show "?P [] (round0 G) s"
      using ok by (simp add: round_ok_def free_cpus_def round0_def cpulist_simps(1) [OF spec])
  next
    fix ys y zs r u
    assume l: "cl_elems G (cpus s) = ys @ y # zs" and u: "?P ys r u"
    then have y: "y \<notin> set ys" "y \<in> set (cl_elems G (cpus u))"
      using cpulist_elems(1) [OF spec, of "cpus s"] by (auto simp: strict_sorted_iff)
    from u y have "wp C (scan_cpu G y r) (\<lambda>r' v. sched_ok G {} v \<and> kept_cpu y u v \<and> round_ok G r' v \<and>
        free_cpus G r' \<subseteq> insert y (free_cpus G r) \<and> assigned_cpus r' = assigned_cpus r) u"
      by (intro scan_cpu_ok [OF _ _ C]) auto
    then show "wp C (scan_cpu G y r) (?P (ys @ [y])) u"
      by (rule wp_mono) (use u in \<open>auto simp: kept_cpu_def\<close>)
  qed
  then show ?thesis by (rule wp_mono) simp
qed

section \<open>Replacing a task\<close>

lemma sched_ok_cong:
  assumes "tasks u = tasks v" and "cpu_states u = cpu_states v" and "waiting u = waiting v"
    and "yielding_tasks u = yielding_tasks v" and "cpus u = cpus v" and "cpuhist u = cpuhist v"
    and "global_home_cpu u = global_home_cpu v"
  shows "sched_ok G X u = sched_ok G X v"
proof -
  have "st u = st v" "tc u = tc v" using assms(1) by (simp_all add: fun_eq_iff st_def tc_def)
  with assms show ?thesis by (simp add: ok_defs)
qed

lemma PreemptTask_ok:
  assumes p: "tasks s p = Some k" "run_state k = ON_CPU" "task_cpu k = Some c" and c: "c < length (cpu_states s)"
    and n: "tasks s n = Some kn" "run_state kn \<noteq> ON_CPU" and C: "''new_runtime >= runtime'' \<in> C"
    and refused: "\<And>w. Q False (s\<lparr>kernel := w\<rparr>)"
    and swapped: "\<And>r w. runtime k \<le> r \<Longrightarrow>
      Q True ((put_task p (k\<lparr>elapsed_runtime := elapsed_runtime k + (r - runtime k), runtime := r\<rparr>)
        (put_task n (kn\<lparr>run_state := ON_CPU, task_cpu := Some c\<rparr>)
          (put_cpu c ((cpu_states s ! c)\<lparr>cs_current := Some n\<rparr>) s)))\<lparr>kernel := w\<rparr>)"
  shows "wp C (PreemptTask G (Some p) (Some n) b) Q s"
proof -
  have "p \<noteq> n" using p n by auto
  with p c n C refused swapped show ?thesis
    by (simp add: PreemptTask_def preempt_request_def cpu_of_def UpdateRuntime_def wp_simps)
qed

text \<open>
  The two ways in which the replacement ends: the task \<open>p\<close> on the CPU goes to the queue, and the task
  \<open>n\<close> runs or yields.
\<close>

lemma replaced_ok:
  assumes ok: "sched_ok G {n} s" and c: "c < MAX_CPUS G" and cur: "cs_current (cpu_states s ! c) = Some p"
    and kp: "elapsed_runtime kp \<le> runtime kp" and kn: "elapsed_runtime kn \<le> runtime kn"
    and on: "run_state kn = ON_CPU" "task_cpu kn = Some c"
  shows "sched_ok G {} (put_task n kn
      (enqueued kp p (put_cpu c ((cpu_states s ! c)\<lparr>cs_current := Some n, cs_next := None\<rparr>) s)))"
proof -
  have p: "p \<noteq> n" using current_live [OF ok c cur] by auto
  let ?v = "put_task p kp (put_cpu c ((cpu_states s ! c)\<lparr>cs_current := None\<rparr>) s)"
  have "sched_ok G {p, n} ?v" using out_of_current [OF ok c cur] kp by (intro put_loose) auto
  from into_queue [OF this, of p kp] p have q: "sched_ok G {n} (enqueued kp p ?v)" by (simp add: insert_Diff_if)
  note len = sched_ok_lengths(1) [OF ok]
  have nx: "cs_next (cpu_states s ! c) = None" using one_task [OF ok c] cur by simp
  have eq: "(cpu_states s ! c)\<lparr>cs_current := Some n, cs_next := None\<rparr> = (cpu_states s ! c)\<lparr>cs_current := Some n\<rparr>"
    using nx by (cases "cpu_states s ! c") simp
  from into_current [OF q c, of n kn] on kn len c nx show ?thesis unfolding eq by simp
qed

lemma refused_ok:
  assumes ok: "sched_ok G {n} s" and c: "c < MAX_CPUS G" and cur: "cs_current (cpu_states s ! c) = Some p"
    and kp: "elapsed_runtime kp \<le> runtime kp" and n: "tasks s n = Some k"
    and kn: "elapsed_runtime kn \<le> runtime kn" "run_state kn = YIELDING"
  shows "sched_ok G {} (put_task n kn
      (enqueued kp p (put_cpu c ((cpu_states s ! c)\<lparr>cs_current := None\<rparr>) s))
        \<lparr>yielding_tasks := yielding_tasks s @ [n]\<rparr>)"
proof -
  have p: "p \<noteq> n" using current_live [OF ok c cur] by auto
  let ?v = "put_task p kp (put_cpu c ((cpu_states s ! c)\<lparr>cs_current := None\<rparr>) s)"
  have "sched_ok G {p, n} ?v" using out_of_current [OF ok c cur] kp by (intro put_loose) auto
  from into_queue [OF this, of p kp] p have q: "sched_ok G {n} (enqueued kp p ?v)" by (simp add: insert_Diff_if)
  from into_yielding [OF q, of n k kn] kn n p show ?thesis by simp
qed

lemma ReplaceExistingTask_ok:
  assumes ok: "sched_ok G {n} s" and c: "c < MAX_CPUS G" and cur: "cs_current (cpu_states s ! c) = Some p"
    and n: "tasks s n = Some kn" "run_state kn = QUEUED" and C: "''new_runtime >= runtime'' \<in> C"
  shows "wp C (ReplaceExistingTask G c n)
    (\<lambda>_ u. sched_ok G {} u \<and> kept_cpu c s u \<and> length (waiting u) = Suc (length (waiting s))) s"
proof -
  from current_live [OF ok c cur] obtain k where
    k: "tasks s p = Some k" "run_state k = ON_CPU" "task_cpu k = Some c" and p: "p \<noteq> n" by auto
  note len = sched_ok_lengths(1) [OF ok]
  have nx: "cs_next (cpu_states s ! c) = None" using one_task [OF ok c] cur by simp
  have run: "elapsed_runtime k \<le> runtime k" "elapsed_runtime kn \<le> runtime kn"
    by (rule sched_ok_runtime [OF ok k(1)], rule sched_ok_runtime [OF ok n(1)])
  have dom: "insert n (insert p (dom (tasks s))) = dom (tasks s)" using n k by auto
  have kc: "kept_cpu c s (put_task n l (enqueued k' p (put_cpu c cs s)))" for l k' cs
    using dom by (auto simp: kept_cpu_def)
  have "wp C (PreemptTask G (Some p) (Some n) 0) (\<lambda>in_sync. wp C (steps
           [upd_task p (\<lambda>k. k\<lparr>preempted := False, prio_boost := True\<rparr>),
            Enqueue p,
            (if in_sync
             then steps
               [upd_task n (\<lambda>k. k\<lparr>prio_boost := False, preempted := False\<rparr>),
                upd_cpu c (\<lambda>cs. cs\<lparr>cs_next := None\<rparr>)]
             else steps
               [upd_cpu c (\<lambda>cs. cs\<lparr>cs_current := None\<rparr>),
                Yield n]),
            bnd (kern (MonotonicNow G)) (\<lambda>w. upd_task n (\<lambda>k. k\<lparr>start_submit := At w\<rparr>)),
            modify (\<lambda>s. s\<lparr>txn_total := txn_total s + 1\<rparr>)])
     (\<lambda>_ u. sched_ok G {} u \<and> kept_cpu c s u \<and> length (waiting u) = Suc (length (waiting s)))) s"
    using len c n k p run kc
    by (intro PreemptTask_ok [OF k _ n(1) _ C])
      (simp_all add: wp_simps Yield_def refused_ok [OF ok c cur _ n(1)] replaced_ok [OF ok c cur])
  then show ?thesis by (simp add: ReplaceExistingTask_def wp_cpu_state len c cur)
qed

section \<open>Assigning tasks\<close>

lemma assign_ok:
  assumes ok: "sched_ok G {n} s" and c: "c < MAX_CPUS G" and n: "tasks s n = Some k"
    and idle: "cs_current (cpu_states s ! c) = None" "cs_next (cpu_states s ! c) = None"
  shows "wp C (assign G n c r) (\<lambda>r' u. sched_ok G {} u \<and> kept_cpu c s u \<and> waiting u = waiting s \<and>
    r' = r\<lparr>avail_cpus := cl_Clear G (avail_cpus r) c, assigned_cpus := cl_Set G (assigned_cpus r) c\<rparr>) s"
proof -
  note len = sched_ok_lengths(1) [OF ok]
  have run: "elapsed_runtime k \<le> runtime k" by (rule sched_ok_runtime [OF ok n])
  have placed: "sched_ok G {} (put_task n l (put_cpu c ((cpu_states s ! c)\<lparr>cs_next := Some n\<rparr>) s))"
    if "run_state l = PENDING" "task_cpu l = Some c" "elapsed_runtime l \<le> runtime l" for l
    using into_next [OF ok c, of n l] that idle by simp
  have "kept_cpu c s (put_task n l (put_cpu c cs s))" for l cs
    using n by (auto simp: kept_cpu_def)
  with n len c idle run placed show ?thesis by (simp add: assign_def wp_simps)
qed

lemma pick_in:
  assumes "cpulist_spec G" and "PickNextCpu G l k b = Some c"
  shows "c \<in> set (cl_elems G l)"
  using assms nearest_least [of "distance G (task_cpu k)" "candidates G l k b" c]
  by (auto simp: PickNextCpu_nearest [OF assms(1)] candidates_def)

lemma round_ok_sub:
  assumes "round_ok G r s" and "kept_cpu c s u" and "c \<notin> free_cpus G r'"
    and "set (cl_elems G (avail_cpus r')) \<subseteq> set (cl_elems G (avail_cpus r))"
    and "set (cl_elems G (avail_cpus_low_priority r')) \<subseteq> set (cl_elems G (avail_cpus_low_priority r))"
  shows "round_ok G r' u"
  using assms unfolding round_ok_def kept_cpu_def free_cpus_def by (metis UnI1 UnI2 subsetD)

text \<open>One turn of the loop, for the task \<open>n\<close> that was taken from the queue.\<close>

abbreviation turn_ok :: "('c, 'k) ghost \<Rightarrow> 'c round \<Rightarrow> ('c, 'k) sched \<Rightarrow> 'c round \<Rightarrow> ('c, 'k) sched \<Rightarrow> bool" where
  "turn_ok G r s \<equiv> \<lambda>r' u. sched_ok G {} u \<and> dom (tasks u) = dom (tasks s) \<and> round_ok G r' u \<and>
     length (waiting u) + length (cl_elems G (avail_cpus_low_priority r'))
       \<le> length (waiting s) + length (cl_elems G (avail_cpus_low_priority r))"

lemma place_replace_ok:
  assumes ok: "sched_ok G {n} s" and n: "tasks s n = Some k" "run_state k = QUEUED" and r: "round_ok G r s"
    and c: "c \<in> set (cl_elems G (avail_cpus_low_priority r))" and C: "''new_runtime >= runtime'' \<in> C"
  shows "wp C (ReplaceExistingTask G c n)
    (\<lambda>_. turn_ok G r s (r\<lparr>avail_cpus_low_priority := cl_Clear G (avail_cpus_low_priority r) c\<rparr>)) s"
proof -
  note spec = sched_ok_lengths(3) [OF ok]
  have m: "c < MAX_CPUS G" by (rule cpulist_elems(2) [OF spec c])
  from r c obtain p where p: "cs_current (cpu_states s ! c) = Some p" by (auto simp: round_ok_def)
  with r have "c \<notin> set (cl_elems G (avail_cpus r))" by (auto simp: round_ok_def)
  then have take: "c \<notin> free_cpus G (r\<lparr>avail_cpus_low_priority := cl_Clear G (avail_cpus_low_priority r) c\<rparr>)"
    by (simp add: free_cpus_def cpulist_simps(6) [OF spec])
  show ?thesis
    by (rule wp_mono [OF ReplaceExistingTask_ok [OF ok m p n C]])
      (use length_Clear [OF spec c] round_ok_sub [OF r _ take] in
        \<open>auto simp: kept_cpu_def cpulist_simps(6) [OF spec]\<close>)
qed

lemma place_assign_ok:
  assumes ok: "sched_ok G {n} s" and n: "tasks s n = Some k" and r: "round_ok G r s"
    and c: "c \<in> set (cl_elems G (avail_cpus r))"
  shows "wp C (assign G n c r) (turn_ok G r s) s"
proof -
  note spec = sched_ok_lengths(3) [OF ok]
  have m: "c < MAX_CPUS G" by (rule cpulist_elems(2) [OF spec c])
  let ?r = "r\<lparr>avail_cpus := cl_Clear G (avail_cpus r) c, assigned_cpus := cl_Set G (assigned_cpus r) c\<rparr>"
  from r c have idle: "cs_current (cpu_states s ! c) = None" "cs_next (cpu_states s ! c) = None"
    by (auto simp: round_ok_def)
  with r have "c \<notin> set (cl_elems G (avail_cpus_low_priority r))" by (auto simp: round_ok_def)
  then have take: "c \<notin> free_cpus G ?r" by (simp add: free_cpus_def cpulist_simps(6) [OF spec])
  show ?thesis
    by (rule wp_mono [OF assign_ok [OF ok m n idle]])
      (use round_ok_sub [OF r _ take] in \<open>auto simp: kept_cpu_def cpulist_simps(6) [OF spec]\<close>)
qed

lemma place_yield_ok:
  assumes ok: "sched_ok G {n} s" and n: "tasks s n = Some k" "run_state k = QUEUED" and r: "round_ok G r s"
  shows "wp C (Yield n) (\<lambda>_. turn_ok G r s r) s"
proof -
  have "wp C (Yield n) (\<lambda>_ u. cpu_states u = cpu_states s \<and> waiting u = waiting s) s"
    using n by (simp add: Yield_def wp_simps)
  moreover have "wp C (Yield n) (\<lambda>_ u. sched_ok G {} u \<and> dom (tasks u) = dom (tasks s)) s"
    by (rule wp_mono [OF yield_loose [OF ok n(1)]]) (use n in \<open>simp_all add: moved_dom domI\<close>)
  ultimately show ?thesis
    by (rule wp_mono [OF wp_conj]) (use r in \<open>auto simp: round_ok_def\<close>)
qed

lemma place_ok:
  assumes ok: "sched_ok G {n} s" and n: "tasks s n = Some k" "run_state k = QUEUED" and r: "round_ok G r s"
    and C: "''new_runtime >= runtime'' \<in> C"
  shows "wp C (place G n r) (turn_ok G r s) s"
proof -
  note spec = sched_ok_lengths(3) [OF ok]
  have yields: "wp C (Yield n) (\<lambda>_. turn_ok G r s r) (s\<lparr>kernel := w\<rparr>)" for w
    using place_yield_ok [of G n "s\<lparr>kernel := w\<rparr>" k r C] ok n r by simp
  have replaces: "wp C (ReplaceExistingTask G c n)
      (\<lambda>_. turn_ok G r s (r\<lparr>avail_cpus_low_priority := cl_Clear G (avail_cpus_low_priority r) c\<rparr>)) (s\<lparr>kernel := w\<rparr>)"
    if "PickNextCpu G (avail_cpus_low_priority r) k b = Some c" for w b c
    using place_replace_ok [of G n "s\<lparr>kernel := w\<rparr>" k r c C] pick_in [OF spec that] ok n r C by simp
  have assigns: "wp C (assign G n c r) (turn_ok G r s) (s\<lparr>kernel := w\<rparr>)"
    if "PickNextCpu G (avail_cpus r) k b = Some c" for w b c
    using place_assign_ok [of G n "s\<lparr>kernel := w\<rparr>" k r c C] pick_in [OF spec that] ok n r by simp
  have decide: "wp C (case low of
            Some c \<Rightarrow>
              bnd (ReplaceExistingTask G c n) (\<lambda>_.
                ret (r\<lparr>avail_cpus_low_priority := cl_Clear G (avail_cpus_low_priority r) c\<rparr>))
          | None \<Rightarrow>
              (case cpu of
                 None \<Rightarrow> bnd (Yield n) (\<lambda>_. ret r)
               | Some c \<Rightarrow> assign G n c r)) (turn_ok G r s) (s\<lparr>kernel := w\<rparr>)"
    if "cpu = (if a then PickNextCpu G (avail_cpus r) k b else None)"
      "low = (if d then PickNextCpu G (avail_cpus_low_priority r) k b else None)" for cpu low a b d w
    using that yields replaces assigns by (auto split: option.split)
  show ?thesis
    using n yields decide [OF refl refl] by (simp add: place_def wp_simps Let_def del: option.case_eq_if)
qed

lemma waiting_live:
  assumes "sched_ok G X s" and "t \<in> set (waiting s)"
  obtains k where "tasks s t = Some k" "run_state k = QUEUED"
  using assms by (auto simp: waiting_iff st_Some)

text \<open>The loop ends with its fuel, and only when there is no CPU left or no task.\<close>

lemma assign_loop_ok:
  assumes "sched_ok G {} s" and "round_ok G r s" and "''new_runtime >= runtime'' \<in> C"
    and "length (waiting s) + length (cl_elems G (avail_cpus_low_priority r)) < n"
  shows "wp C (assign_loop G n r) (\<lambda>r' u. sched_ok G {} u \<and> dom (tasks u) = dom (tasks s) \<and>
    (free_cpus G r' = {} \<or> waiting u = [])) s"
  using assms
proof (induction n arbitrary: r s)
  case (Suc n)
  note spec = sched_ok_lengths(3) [OF Suc.prems(1)]
  show ?case
  proof (cases "free_cpus G r = {}")
    case True
    then show ?thesis using Suc.prems by (simp add: free_cpus_def cpulist_simps(3) [OF spec])
  next
    case False
    then have more: "\<not> (cl_Empty G (avail_cpus r) \<and> cl_Empty G (avail_cpus_low_priority r))"
      by (auto simp: free_cpus_def cpulist_simps(3) [OF spec])
    show ?thesis
    proof (cases "waiting s")
      case Nil
      with more Suc.prems show ?thesis by (simp add: wp_Dequeue)
    next
      case (Cons t ts)
      let ?u = "without_head s"
      from Cons Suc.prems(1) obtain k where k: "tasks ?u t = Some k" "run_state k = QUEUED"
        by (auto elim!: waiting_live)
      have u: "sched_ok G {t} ?u" "round_ok G r ?u" "length (waiting s) = Suc (length (waiting ?u))"
        using out_of_head [OF Suc.prems(1) Cons] Suc.prems(2) Cons waiting_without_head [OF Cons]
        by (simp_all add: round_ok_def)
      have "wp C (place G t r) (\<lambda>r'. wp C (assign_loop G n r') (\<lambda>r' u. sched_ok G {} u \<and>
          dom (tasks u) = dom (tasks s) \<and> (free_cpus G r' = {} \<or> waiting u = []))) ?u"
      proof (rule wp_mono [OF place_ok [OF u(1) k u(2) Suc.prems(3)]])
        fix r' v
        assume v: "turn_ok G r ?u r' v"
        then have "length (waiting v) + length (cl_elems G (avail_cpus_low_priority r')) < n"
          using u(3) Suc.prems(4) by simp
        from Suc.IH [OF _ _ Suc.prems(3) this] v
        show "wp C (assign_loop G n r') (\<lambda>r' u. sched_ok G {} u \<and> dom (tasks u) = dom (tasks s) \<and>
          (free_cpus G r' = {} \<or> waiting u = [])) v" by simp
      qed
      with more Cons show ?thesis by (auto simp: wp_Dequeue)
    qed
  qed
qed simp

section \<open>Free CPUs are filled\<close>

text \<open>
  The kernel says that the task \<open>t\<close> is off its CPU and that no message about it is under way, and its
  affinity, if it counts, allows the free CPUs.
\<close>

definition placeable :: "('c, 'k) ghost \<Rightarrow> 'c round \<Rightarrow> ('c, 'k) sched \<Rightarrow> nat \<Rightarrow> bool" where
  "placeable G r s t \<longleftrightarrow>
     (\<exists>k. tasks s t = Some k \<and>
       (\<forall>w. \<not> fst (sw_on_cpu G (gtid k) w) \<and> fst (sw_barrier G (gtid k) w) = seqnum k) \<and>
       (enforce_affinity_mask s \<longrightarrow> set (cl_elems G (avail_cpus r)) \<subseteq> set (cl_elems G (allowed_cpulist k))))"

text \<open>The task \<open>t\<close> is about to run on \<open>c\<close>, and nothing else is moved.\<close>

abbreviation assigned :: "nat \<Rightarrow> nat \<Rightarrow> ('c, 'k) sched \<Rightarrow> ('c, 'k) sched \<Rightarrow> bool" where
  "assigned t c s u \<equiv> st u t = Some PENDING \<and> tc u t = Some c \<and> (\<forall>v. v \<noteq> t \<longrightarrow> tasks u v = tasks s v) \<and>
     waiting u = waiting s \<and> yielding_tasks u = yielding_tasks s \<and> enforce_affinity_mask u = enforce_affinity_mask s"

lemma assign_effect:
  assumes ok: "sched_ok G {t} s" and t: "tasks s t = Some k" and r: "round_ok G r s"
    and c: "c \<in> set (cl_elems G (avail_cpus r))"
  shows "wp {} (assign G t c r) (\<lambda>r' u. assigned t c s u \<and>
    r' = r\<lparr>avail_cpus := cl_Clear G (avail_cpus r) c, assigned_cpus := cl_Set G (assigned_cpus r) c\<rparr>) s"
proof -
  have "c < MAX_CPUS G" by (rule cpulist_elems(2) [OF sched_ok_lengths(3) [OF ok] c])
  moreover from r c have "cs_current (cpu_states s ! c) = None" "cs_next (cpu_states s ! c) = None"
    by (auto simp: round_ok_def)
  ultimately show ?thesis using t sched_ok_lengths(1) [OF ok]
    by (auto simp: assign_def wp_simps st_def tc_def waiting_def put_task_def put_cpu_def)
qed

lemma length_Clear_in:
  assumes "cpulist_spec G" and "c \<in> set (cl_elems G l)"
  shows "Suc (length (cl_elems G (cl_Clear G l c))) = length (cl_elems G l)"
proof -
  have "distinct (cl_elems G l)" for l using cpulist_elems(1) [OF assms(1), of l] by (simp add: strict_sorted_iff)
  then have "length (cl_elems G l) = card (set (cl_elems G l))" for l by (simp add: distinct_card)
  with assms card.remove [of "set (cl_elems G l)" c] show ?thesis by (simp add: cpulist_simps(6))
qed

lemma place_fills:
  assumes ok: "sched_ok G {t} s" and t: "placeable G r s t" "st s t = Some QUEUED" and r: "round_ok G r s"
    and free: "cl_elems G (avail_cpus r) \<noteq> []"
  shows "wp {} (place G t r) (\<lambda>r' u. turn_ok G r s r' u \<and> (\<exists>c \<in> set (cl_elems G (avail_cpus r)). assigned t c s u \<and>
    r' = r\<lparr>avail_cpus := cl_Clear G (avail_cpus r) c, assigned_cpus := cl_Set G (assigned_cpus r) c\<rparr>)) s"
proof -
  from t obtain k where k: "tasks s t = Some k" "run_state k = QUEUED"
    and fresh: "\<And>w. \<not> fst (sw_on_cpu G (gtid k) w)" "\<And>w. fst (sw_barrier G (gtid k) w) = seqnum k"
    and aff: "enforce_affinity_mask s \<longrightarrow> set (cl_elems G (avail_cpus r)) \<subseteq> set (cl_elems G (allowed_cpulist k))"
    by (auto simp: placeable_def)
  note spec = sched_ok_lengths(3) [OF ok]
  from aff free have "candidates G (avail_cpus r) k (enforce_affinity_mask s) \<noteq> []"
    by (cases "cl_elems G (avail_cpus r)") (auto simp: candidates_def)
  then obtain c where c: "PickNextCpu G (avail_cpus r) k (enforce_affinity_mask s) = Some c"
    by (cases "PickNextCpu G (avail_cpus r) k (enforce_affinity_mask s)")
      (auto simp: PickNextCpu_nearest [OF spec] nearest_None)
  note c' = pick_in [OF spec c]
  have "wp {} (assign G t c r) (\<lambda>r' u. turn_ok G r s r' u \<and> (\<exists>c \<in> set (cl_elems G (avail_cpus r)). assigned t c s u \<and>
      r' = r\<lparr>avail_cpus := cl_Clear G (avail_cpus r) c, assigned_cpus := cl_Set G (assigned_cpus r) c\<rparr>)) (s\<lparr>kernel := w\<rparr>)" for w
    by (rule wp_mono [OF wp_conj [OF place_assign_ok assign_effect]]) (use ok k(1) r c' in auto)
  with k fresh c free show ?thesis
    by (simp add: place_def wp_simps Let_def cpulist_simps(3) [OF spec])
qed

text \<open>
  The loop takes as many tasks from the front of the queue as there are free CPUs, and gives each of
  them one.
\<close>

definition filled :: "('c, 'k) ghost \<Rightarrow> nat \<Rightarrow> 'c round \<Rightarrow> ('c, 'k) sched \<Rightarrow> 'c round \<Rightarrow> ('c, 'k) sched \<Rightarrow> bool" where
  "filled G m r s r' u \<longleftrightarrow>
     waiting u = drop m (waiting s) \<and> yielding_tasks u = yielding_tasks s \<and>
     length (cl_elems G (avail_cpus r')) = length (cl_elems G (avail_cpus r)) - m \<and>
     (\<forall>t \<in> set (take m (waiting s)). st u t = Some PENDING \<and>
        (\<exists>c \<in> set (cl_elems G (avail_cpus r)). tc u t = Some c)) \<and>
     (\<forall>t. t \<notin> set (take m (waiting s)) \<longrightarrow> tasks u t = tasks s t)"

lemma filled_step:
  assumes spec: "cpulist_spec G" and w: "waiting s = t # waiting v" and "t \<notin> set (waiting v)"
    and c: "c \<in> set (cl_elems G (avail_cpus r))" and a: "assigned t c (without_head s) v"
    and r': "avail_cpus r' = cl_Clear G (avail_cpus r) c" and f: "filled G m r' v r'' u"
  shows "filled G (Suc m) r s r'' u"
proof -
  from assms(3) have t: "tasks u t = tasks v t" using f by (auto simp: filled_def dest: in_set_takeD)
  then have "st u t = Some PENDING" "tc u t = Some c" using a by (simp_all add: st_def tc_def)
  moreover have "set (cl_elems G (avail_cpus r')) \<subseteq> set (cl_elems G (avail_cpus r))"
    by (auto simp: r' cpulist_simps(6) [OF spec])
  ultimately show ?thesis
    using f w a c length_Clear_in [OF spec c] unfolding filled_def r' by auto (meson subsetD)+
qed

lemma assign_loop_fills:
  assumes "sched_ok G {} s" and "round_ok G r s" and "\<forall>t \<in> set (waiting s). placeable G r s t"
    and "cl_elems G (avail_cpus_low_priority r) = [] \<or> length (waiting s) \<le> length (cl_elems G (avail_cpus r))"
    and "length (waiting s) < n"
  shows "wp {} (assign_loop G n r) (filled G (min (length (waiting s)) (length (cl_elems G (avail_cpus r)))) r s) s"
  using assms
proof (induction n arbitrary: r s)
  case (Suc n)
  note spec = sched_ok_lengths(3) [OF Suc.prems(1)]
  note empty = cpulist_simps(3) [OF spec]
  show ?case
  proof (cases "waiting s = [] \<or> cl_elems G (avail_cpus r) = []")
    case True
    have "filled G 0 r s r u" if "waiting u = waiting s" "yielding_tasks u = yielding_tasks s" "tasks u = tasks s" for u
      using that by (simp add: filled_def)
    with True Suc.prems(4) show ?thesis by (auto simp: empty wp_Dequeue)
  next
    case False
    then obtain t ts where w: "waiting s = t # ts" by (cases "waiting s") auto
    let ?u = "without_head s"
    have u: "sched_ok G {t} ?u" "round_ok G r ?u" "waiting ?u = ts" "placeable G r ?u t" "st ?u t = Some QUEUED" "t \<notin> set ts"
      using out_of_head [OF Suc.prems(1) w] Suc.prems(1-3) w waiting_without_head [OF w] waiting_iff [OF Suc.prems(1), of t]
      by (auto simp: round_ok_def placeable_def without_head_def ok_parts)
    have "wp {} (place G t r) (\<lambda>r'. wp {} (assign_loop G n r')
        (filled G (min (length (waiting s)) (length (cl_elems G (avail_cpus r)))) r s)) ?u"
    proof (rule wp_mono [OF place_fills [OF u(1,4,5,2)]], use False in simp, elim conjE bexE)
      fix r' v c
      assume ok: "sched_ok G {} v" "round_ok G r' v" and c: "c \<in> set (cl_elems G (avail_cpus r))"
        and a: "st v t = Some PENDING" "tc v t = Some c" "\<forall>x. x \<noteq> t \<longrightarrow> tasks v x = tasks ?u x"
          "waiting v = waiting ?u" "yielding_tasks v = yielding_tasks ?u" "enforce_affinity_mask v = enforce_affinity_mask ?u"
        and r': "r' = r\<lparr>avail_cpus := cl_Clear G (avail_cpus r) c, assigned_cpus := cl_Set G (assigned_cpus r) c\<rparr>"
      have len: "Suc (length (cl_elems G (avail_cpus r'))) = length (cl_elems G (avail_cpus r))"
        using length_Clear_in [OF spec c] r' by simp
      have place: "\<forall>x \<in> set (waiting v). placeable G r' v x"
        using Suc.prems(3) a u(3,6) w by (fastforce simp: placeable_def r' cpulist_simps(6) [OF spec] without_head_def)
      have "wp {} (assign_loop G n r') (filled G (min (length (waiting v)) (length (cl_elems G (avail_cpus r')))) r' v) v"
        using Suc.prems(4,5) len w a(4) u(3) r' by (intro Suc.IH [OF ok place]) auto
      then show "wp {} (assign_loop G n r') (filled G (min (length (waiting s)) (length (cl_elems G (avail_cpus r)))) r s) v"
      proof (rule wp_mono)
        fix r'' x
        assume f: "filled G (min (length (waiting v)) (length (cl_elems G (avail_cpus r')))) r' v r'' x"
        have "filled G (Suc (min (length (waiting v)) (length (cl_elems G (avail_cpus r'))))) r s r'' x"
          by (rule filled_step [OF spec _ _ c _ _ f, where t = t]) (use w u(3,6) a r' in simp_all)
        moreover have "min (length (waiting s)) (length (cl_elems G (avail_cpus r))) =
            Suc (min (length (waiting v)) (length (cl_elems G (avail_cpus r'))))"
          using len w a(4) u(3) by simp
        ultimately show "filled G (min (length (waiting s)) (length (cl_elems G (avail_cpus r)))) r s r'' x" by simp
      qed
    qed
    with False w show ?thesis by (auto simp: wp_Dequeue empty)
  qed
qed simp

section \<open>The end of a round\<close>

lemma requeue_yielding_ok:
  assumes ok: "sched_ok G {} s"
  shows "wp C requeue_yielding (\<lambda>_ u. consistent G s () u \<and> yielding_tasks u = []) s"
proof -
  let ?body = "\<lambda>t. bnd (task t) (\<lambda>k. steps [CHECK ''t->run_state == YIELDING'' (run_state k = YIELDING), Enqueue t])"
  have loop: "wp C (each ?body ys) (\<lambda>_ u. sched_ok G {} (u\<lparr>yielding_tasks := []\<rparr>) \<and> dom (tasks u) = dom (tasks s)) u"
    if "sched_ok G {} (u\<lparr>yielding_tasks := ys\<rparr>)" "dom (tasks u) = dom (tasks s)" for ys u
    using that
  proof (induction ys arbitrary: u)
    case (Cons t ys)
    from yielding_iff [OF Cons.prems(1), of t] obtain k where k: "tasks u t = Some k" "run_state k = YIELDING"
      by (auto simp: st_Some)
    have "sched_ok G {t} (u\<lparr>yielding_tasks := ys\<rparr>)"
      using out_of_yielding [OF Cons.prems(1), of t ys] by simp
    from into_queue [OF this, of t k] k
    have 1: "sched_ok G {} ((enqueued k t u)\<lparr>yielding_tasks := ys\<rparr>)" by simp
    have 2: "dom (tasks (enqueued k t u)) = dom (tasks s)" using Cons.prems(2) k by auto
    from Cons.IH [OF 1 2] k show ?case by (simp add: each_def wp_simps)
  qed (simp add: each_def)
  have "s\<lparr>yielding_tasks := yielding_tasks s\<rparr> = s" by simp
  with loop [of "yielding_tasks s" s] ok show ?thesis
    by (auto simp: requeue_yielding_def elim!: wp_mono)
qed

lemma count_unavail_ok:
  assumes "sched_ok G X s"
  shows "wp C (count_unavail n) (\<lambda>_ u. sched_ok G X u \<and> (\<exists>h. u = s\<lparr>cpuhist := h\<rparr>)) s"
proof -
  have "sched_ok G X (s\<lparr>cpuhist := h\<rparr>)" if "length h = kCpuHistLen" for h
    using assms that by (simp add: ok_defs waiting_def st_def tc_def)
  with sched_ok_lengths(2) [OF assms] show ?thesis
    by (auto simp: count_unavail_def Let_def wp_simps kCpuHistLen_def)
qed

lemma finish_round_ok:
  assumes ok: "sched_ok G {} s"
  shows "wp C (finish_round G r) (\<lambda>_ u. sched_ok G {} u \<and> dom (tasks u) = dom (tasks s) \<and> yielding_tasks u = []) s"
    (is "wp C _ ?Q s")
proof -
  have finish: "wp C (count_unavail n) ?Q u" if "consistent G s () u \<and> yielding_tasks u = []" for n u
  proof -
    have "wp C (count_unavail n) (\<lambda>_ v. sched_ok G {} v \<and> (\<exists>h. v = u\<lparr>cpuhist := h\<rparr>)) u"
      using that by (intro count_unavail_ok) simp
    then show ?thesis by (rule wp_mono) (use that in clarsimp)
  qed
  have tail: "wp C requeue_yielding (\<lambda>_. wp C (count_unavail n) ?Q) u" if u: "consistent G s () u" for n u
  proof -
    have "wp C requeue_yielding (\<lambda>_ v. consistent G u () v \<and> yielding_tasks v = []) u"
      using u by (intro requeue_yielding_ok) simp
    then show ?thesis by (rule wp_mono) (use u in \<open>auto intro!: finish\<close>)
  qed
  from ok tail show ?thesis by (auto simp: finish_round_def)
qed

lemma GlobalSchedule_ok:
  assumes ok: "sched_ok G {} s" and C: "round_checks \<subseteq> C"
  shows "wp C (GlobalSchedule G) (\<lambda>_ u. sched_ok G {} u \<and> dom (tasks u) = dom (tasks s) \<and> yielding_tasks u = []) s"
    (is "wp C _ ?Q s")
proof -
  have loop: "wp C (assign_loop G (loop_fuel G r u) r) (\<lambda>r. wp C (finish_round G r) ?Q) u"
    if u: "sched_ok G {} u \<and> dom (tasks u) = dom (tasks s) \<and> round_ok G r u" for r u
  proof -
    have "wp C (assign_loop G (loop_fuel G r u) r) (\<lambda>r v. consistent G u () v \<and> (free_cpus G r = {} \<or> waiting v = [])) u"
      using u C by (intro wp_mono [OF assign_loop_ok]) (auto simp: loop_fuel_def round_checks_def)
    then show ?thesis
    proof (rule wp_mono)
      fix r v
      assume v: "consistent G u () v \<and> (free_cpus G r = {} \<or> waiting v = [])"
      with finish_round_ok [of G v C r] u show "wp C (finish_round G r) ?Q v" by simp
    qed
  qed
  have "wp C (fold_m (scan_cpu G) (cl_elems G (cpus s)) (round0 G))
      (\<lambda>r u. wp C (assign_loop G (loop_fuel G r u) r) (\<lambda>r. wp C (finish_round G r) ?Q) u) s"
    by (rule wp_mono [OF scan_all_ok [OF ok C]]) (use loop in blast)
  then show ?thesis unfolding GlobalSchedule_def wp_bnd wp_gets .
qed

section \<open>The migration of the global agent\<close>

definition migration_checks :: "string set" where
  "migration_checks = {''req->committed()'', ''req->Commit()''}"

text \<open>The library has an agent for every CPU of the enclave.\<close>

definition agents_spec :: "('c, 'k) ghost \<Rightarrow> 'c \<Rightarrow> bool" where
  "agents_spec G l \<longleftrightarrow> (\<forall>c \<in> set (cl_elems G l). \<forall>k. fst (GetAgent G c k) \<noteq> None)"

abbreviation same_machine :: "('c, 'k) ghost \<Rightarrow> ('c, 'k) sched \<Rightarrow> ('c, 'k) sched \<Rightarrow> bool" where
  "same_machine G s u \<equiv> sched_ok G {} u \<and> dom (tasks u) = dom (tasks s) \<and> cpus u = cpus s"

lemma Available_ok:
  assumes "sched_ok G {} s" and "c \<in> set (cl_elems G (cpus s))"
  shows "wp C (Available G c) (\<lambda>_ u. \<exists>w. u = s\<lparr>kernel := w\<rparr>) s"
proof -
  have "c < MAX_CPUS G" by (rule cpulist_elems(2) [OF sched_ok_lengths(3) [OF assms(1)] assms(2)])
  moreover obtain a where "cs_agent (cpu_states s ! c) = Some a" using assms by (auto simp: ok_parts)
  ultimately show ?thesis
    using sched_ok_lengths(1) [OF assms(1)] by (auto simp: Available_def wp_simps)
qed

lemma may_land_ok:
  assumes "sched_ok G {} s" and "c \<in> set (cl_elems G (cpus s))"
  shows "wp C (may_land G g c) (\<lambda>_ u. \<exists>w. u = s\<lparr>kernel := w\<rparr>) s"
proof -
  have "\<exists>w. s = s\<lparr>kernel := w\<rparr>" by (rule exI [of _ "kernel s"]) simp
  then show ?thesis by (auto simp: may_land_def intro!: wp_mono [OF Available_ok [OF assms]])
qed

text \<open>
  A CPU the search may choose: the home CPU of the global agent, or a CPU of the enclave on the same
  node that is not in a switchto chain.
\<close>

abbreviation allowed_target :: "('c, 'k) ghost \<Rightarrow> ('c, 'k) sched \<Rightarrow> nat \<Rightarrow> bool" where
  "allowed_target G s c \<equiv> c \<in> set (cl_elems G (cpus s)) \<and>
     (c \<noteq> global_home_cpu s \<longrightarrow>
        \<not> cs_in_switchto (cpu_states s ! c) \<and> numa_node G c = numa_node G (global_home_cpu s))"

lemma find_target_ok:
  assumes "sched_ok G {} s" and "set cs \<subseteq> set (cl_elems G (cpus s))" and "h = global_home_cpu s"
    and "migration_checks \<subseteq> C"
  shows "wp C (find_target G g h cs)
    (\<lambda>r u. same_machine G s u \<and> (\<forall>c. r = Some c \<longrightarrow> allowed_target G s c)) s"
  using assms
proof (induction cs arbitrary: s)
  case (Cons c cs)
  let ?Q = "\<lambda>r u. same_machine G s u \<and> (\<forall>c. r = Some c \<longrightarrow> allowed_target G s c)"
  have h: "h \<in> set (cl_elems G (cpus s))" using Cons.prems(1,3) by (simp add: ok_parts)
  have c: "c \<in> set (cl_elems G (cpus s))" using Cons.prems(2) by simp
  note lt = cpulist_elems(2) [OF sched_ok_lengths(3) [OF Cons.prems(1)]]
  have C1: "''req->committed()'' \<in> C" using Cons.prems(4) by (simp add: migration_checks_def)
  have ok: "sched_ok G {} (s\<lparr>kernel := w\<rparr>)" for w using Cons.prems(1) by simp
  have rest: "wp C (find_target G g h cs) ?Q (s\<lparr>kernel := w\<rparr>)" for w
    using Cons.IH [OF ok, of w] Cons.prems by simp
  have home: "wp C (SyncCpuState G (Some h)) (\<lambda>_. ?Q (Some h)) (s\<lparr>kernel := w\<rparr>)" for w
    by (rule wp_mono [OF SyncCpuState_ok [OF ok lt [OF h] C1]]) (use h Cons.prems(3) in \<open>auto simp: kept_cpu_def\<close>)
  have land: "wp C (may_land G g c) (\<lambda>b. wp C (if b then ret (Some c) else find_target G g h cs) ?Q) (s\<lparr>kernel := w\<rparr>)"
    if "\<not> cs_in_switchto (cpu_states s ! c)" "numa_node G c = numa_node G h" for w
    using c that Cons.prems(1,3) rest by (intro wp_mono [OF may_land_ok [OF ok]]) auto
  have "wp C (may_land G g h) (\<lambda>b. wp C
      (if b then bnd (SyncCpuState G (Some h)) (\<lambda>_. ret (Some h))
       else bnd (cpu_state c) (\<lambda>st.
         if cs_in_switchto st \<or> numa_node G c \<noteq> numa_node G h then find_target G g h cs
         else bnd (may_land G g c) (\<lambda>b. if b then ret (Some c) else find_target G g h cs))) ?Q) s"
    by (rule wp_mono [OF may_land_ok [OF Cons.prems(1) h]])
      (use lt [OF c] sched_ok_lengths(1) [OF Cons.prems(1)] rest home land in \<open>auto simp: wp_cpu_state\<close>)
  then show ?case by simp
qed simp

lemma vacate_ok:
  assumes ok: "sched_ok G {} s" and c: "c < MAX_CPUS G" and C: "migration_checks \<subseteq> C"
  shows "wp C (vacate G c) (\<lambda>_ u. same_machine G s u \<and> cs_current (cpu_states u ! c) = None \<and>
    cs_next (cpu_states u ! c) = cs_next (cpu_states s ! c)) s"
proof (cases "cs_current (cpu_states s ! c)")
  case None
  with ok c sched_ok_lengths(1) [OF ok] show ?thesis by (simp add: vacate_def wp_simps)
next
  case (Some p)
  from current_live [OF ok c Some] obtain k where
    k: "tasks s p = Some k" "run_state k = ON_CPU" "task_cpu k = Some c" by auto
  note len = sched_ok_lengths(1) [OF ok]
  let ?k = "k\<lparr>prio_boost := True\<rparr>"
  let ?v = "put_task p ?k (put_cpu c ((cpu_states s ! c)\<lparr>cs_current := None\<rparr>) s)"
  have "sched_ok G {p} ?v"
    using out_of_current [OF ok c Some] sched_ok_runtime [OF ok k(1)] by (intro put_loose) auto
  from into_queue [OF this, of p ?k] have q: "sched_ok G {} (enqueued ?k p (put_cpu c ((cpu_states s ! c)\<lparr>cs_current := None\<rparr>) s))"
    by simp
  have "insert p (dom (tasks s)) = dom (tasks s)" using k by auto
  with q Some k len c C show ?thesis
    by (auto simp: vacate_def PreemptTask_def preempt_request_def cpu_of_def wp_simps migration_checks_def)
qed

lemma sync_pending_ok:
  assumes u: "same_machine G s u" and c: "c < MAX_CPUS G" and C: "migration_checks \<subseteq> C"
  shows "wp C (sync_pending G c) (\<lambda>_ v. same_machine G s v \<and> cs_next (cpu_states v ! c) = None) u"
proof -
  from u have ok: "sched_ok G {} u" by simp
  have C1: "''req->committed()'' \<in> C" using C by (simp add: migration_checks_def)
  have "wp C (SyncCpuState G (Some c)) (\<lambda>_ v. same_machine G s v \<and> cs_next (cpu_states v ! c) = None) u"
    by (rule wp_mono [OF SyncCpuState_ok [OF ok c C1]]) (use u in \<open>simp add: kept_cpu_def\<close>)
  with u c sched_ok_lengths(1) [OF ok] show ?thesis by (simp add: sync_pending_def wp_cpu_state)
qed

text \<open>The agent is on \<open>c\<close>, where no task runs or is about to run.\<close>

abbreviation landed :: "('c, 'k) ghost \<Rightarrow> ('c, 'k) sched \<Rightarrow> nat \<Rightarrow> 'a \<Rightarrow> ('c, 'k) sched \<Rightarrow> bool" where
  "landed G s c \<equiv> \<lambda>_ v. same_machine G s v \<and> global_cpuid v = c \<and>
     cs_current (cpu_states v ! c) = None \<and> cs_next (cpu_states v ! c) = None"

lemma move_global_ok:
  assumes u: "same_machine G s u" and agents: "agents_spec G (cpus s)" and c: "c \<in> set (cl_elems G (cpus s))"
    and C: "migration_checks \<subseteq> C"
  shows "wp C (move_global G c) (landed G s c) u"
proof -
  have ok: "sched_ok G {} u" using u by simp
  have lt: "c < MAX_CPUS G" by (rule cpulist_elems(2) [OF sched_ok_lengths(3) [OF ok] c])
  have ping: "wp C (ping_agent G c) (landed G s c) (v\<lparr>global_cpuid := c\<rparr>)"
    if "same_machine G s v \<and> cs_current (cpu_states v ! c) = None \<and> cs_next (cpu_states v ! c) = None" for v
    using that agents c by (auto simp: ping_agent_def agents_spec_def split: option.split)
  have vac: "wp C (vacate G c) (\<lambda>_ v. wp C (ping_agent G c) (landed G s c) (v\<lparr>global_cpuid := c\<rparr>)) v"
    if v: "same_machine G s v \<and> cs_next (cpu_states v ! c) = None" for v
  proof -
    from v have "sched_ok G {} v" by simp
    from vacate_ok [OF this lt C] show ?thesis by (rule wp_mono) (rule ping, use v in auto)
  qed
  let ?u = "u\<lparr>kernel := snd (committed G c (kernel u))\<rparr>"
  have "same_machine G s ?u" using u by simp
  from wp_mono [OF sync_pending_ok [OF this lt C] vac] C show ?thesis
    by (auto simp: move_global_def migration_checks_def)
qed

lemma leaves_global [leaves_rules]:
  "leaves global_cpuid (kern f)" "leaves global_cpuid (task t)" "leaves global_cpuid (cpu_state c)"
  "leaves global_cpuid (upd_task t g)" "leaves global_cpuid (upd_cpu c h)"
  by (auto simp: leaves_def kern_def task_def cpu_state_def upd_task_def upd_cpu_def modify_def bnd_def
      split: prod.splits option.splits if_splits)

lemma leaves_global_find: "leaves global_cpuid (find_target G g h cs)"
proof -
  have [leaves_rules]: "leaves global_cpuid (Enqueue t)" for t
    unfolding Enqueue_def by (intro leaves_rules) simp_all
  have "leaves global_cpuid (SyncCpuState G c)" "leaves global_cpuid (may_land G g d)" for c d
    unfolding SyncCpuState_def may_land_def Available_def by (intro leaves_rules; simp)+
  then show ?thesis by (induction cs) (auto intro!: leaves_rules)
qed

lemma PickNextGlobalCPU_ok:
  assumes ok: "sched_ok G {} s" and agents: "agents_spec G (cpus s)" and C: "migration_checks \<subseteq> C"
  shows "wp C (PickNextGlobalCPU G) (\<lambda>_ u. same_machine G s u \<and>
    (global_cpuid u = global_cpuid s \<or> (\<exists>c. allowed_target G s c \<and> landed G s c () u))) s" (is "wp C _ ?Q s")
proof -
  have "wp C (find_target G (global_cpuid s) (global_home_cpu s) (cl_elems G (cpus s)))
    (\<lambda>target. wp C (case target of None \<Rightarrow> ret () | Some c \<Rightarrow> move_global G c) ?Q) s"
  proof (rule wp_mono [OF leaves_wp [OF leaves_global_find find_target_ok [OF ok subset_refl refl C]]])
    fix r u
    assume u: "(same_machine G s u \<and> (\<forall>c. r = Some c \<longrightarrow> allowed_target G s c)) \<and>
      global_cpuid u = global_cpuid s"
    show "wp C (case r of None \<Rightarrow> ret () | Some c \<Rightarrow> move_global G c) ?Q u"
    proof (cases r)
      case (Some c)
      with u have c: "c \<in> set (cl_elems G (cpus s))" "same_machine G s u" "allowed_target G s c" by auto
      have "wp C (move_global G c) ?Q u"
        by (rule wp_mono [OF move_global_ok [OF c(2) agents c(1) C]]) (use c(3) in blast)
      with Some show ?thesis by simp
    qed (use u in simp)
  qed
  then show ?thesis by (simp add: PickNextGlobalCPU_def)
qed

section \<open>Set-up\<close>

lemma EnclaveReady_ok:
  assumes "cpulist_spec G" and "agents_spec G l" and "NetScheduler G l g junk flag k = Ok s" and "length junk = kCpuHistLen"
  shows "wp {} (EnclaveReady G) (\<lambda>_ u. sched_ok G {} u \<and> tasks u = (\<lambda>_. None) \<and> cpus u = l) s"
proof -
  let ?I = "\<lambda>ys u. cpus u = l \<and> length (cpu_states u) = MAX_CPUS G \<and> cpuhist u = junk \<and>
    global_home_cpu u \<in> set (cl_elems G l) \<and> tasks u = (\<lambda>_. None) \<and> waiting u = [] \<and> yielding_tasks u = [] \<and>
    (\<forall>c < MAX_CPUS G. cs_current (cpu_states u ! c) = None \<and> cs_next (cpu_states u ! c) = None) \<and>
    (\<forall>c \<in> set ys. cs_agent (cpu_states u ! c) \<noteq> None)"
  note cl = cpulist_simps [OF assms(1)]
  have start: "?I [] s"
    using assms(3) by (auto simp: NetScheduler_def Let_def cl cpu_state0_def waiting_def split: if_splits list.splits)
  have step: "wp {} (bnd (cpu_state c) (\<lambda>_. bnd (kern (GetAgent G c)) (\<lambda>a. steps
      [upd_cpu c (\<lambda>cs. cs\<lparr>cs_agent := a\<rparr>), CHECK ''cs->agent != nullptr'' (a \<noteq> None)]))) (\<lambda>_. ?I (ys @ [c])) u"
    if "?I ys u" "c \<in> set (cl_elems G l)" for ys c u
    using that assms(2) cpulist_elems(2) [OF assms(1) that(2)]
    by (auto simp: wp_simps agents_spec_def nth_list_update)
  have "wp {} (each (\<lambda>c. bnd (cpu_state c) (\<lambda>_. bnd (kern (GetAgent G c)) (\<lambda>a. steps
      [upd_cpu c (\<lambda>cs. cs\<lparr>cs_agent := a\<rparr>), CHECK ''cs->agent != nullptr'' (a \<noteq> None)]))) (cl_elems G l))
      (\<lambda>_. ?I (cl_elems G l)) s"
    unfolding each_def by (rule wp_fold_m [where P = "\<lambda>ys _. ?I ys", OF start]) (rule step, auto)
  moreover have "cpus s = l" using start by simp
  ultimately have "wp {} (EnclaveReady G) (\<lambda>_. ?I (cl_elems G l)) s" by (simp add: EnclaveReady_def)
  then show ?thesis
    by (rule wp_mono) (use assms(1,4) in \<open>auto simp: ok_defs st_def tc_def\<close>)
qed

end
