(* ===== verification/Net_Props.thy ===== *)
theory Net_Props
  imports Net_Round
begin

text \<open>
  The properties of the scheduler.  \<open>handle\<close> runs the handler of an event: a message of the kernel,
  a round of scheduling, or a migration of the global agent; \<open>agent_run\<close> gives the states after any
  sequence of events, calls of the RPC and print-outs of the state from the constructor, with a
  kernel that may change in between.
\<close>

section \<open>Events\<close>

datatype event =
    Msg_New nat nat bool nat nat bool
  | Msg_Runnable nat bool
  | Msg_Departed nat payload
  | Msg_Dead nat
  | Msg_Blocked nat payload
  | Msg_Preempted nat payload
  | Msg_Yield nat payload
  | Msg_Switchto nat payload
  | Schedule
  | Migrate

fun handle :: "('c, 'k) ghost \<Rightarrow> event \<Rightarrow> ('c, 'k, unit) op" where
  "handle G (Msg_New t g junk seq r b) = steps [modify (put_task t (new_task G g junk)), TaskNew G t seq r b]"
| "handle G (Msg_Runnable t d) = TaskRunnable t d"
| "handle G (Msg_Departed t p) = TaskDeparted G t p"
| "handle G (Msg_Dead t) = TaskDead t"
| "handle G (Msg_Blocked t p) = TaskBlocked G t p"
| "handle G (Msg_Preempted t p) = TaskPreempted G t p"
| "handle G (Msg_Yield t p) = TaskYield G t p"
| "handle G (Msg_Switchto t p) = TaskSwitchto G t p"
| "handle G Schedule = GlobalSchedule G"
| "handle G Migrate = PickNextGlobalCPU G"

text \<open>
  What the library promises for a message: a new task gets a new object, and every other message is
  about a task it knows.
\<close>

fun apt :: "('c, 'k) sched \<Rightarrow> event \<Rightarrow> bool" where
  "apt s (Msg_New t g junk seq r b) = (tasks s t = None)"
| "apt s (Msg_Runnable t d) = (tasks s t \<noteq> None)"
| "apt s (Msg_Departed t p) = (tasks s t \<noteq> None)"
| "apt s (Msg_Dead t) = (tasks s t \<noteq> None)"
| "apt s (Msg_Blocked t p) = (tasks s t \<noteq> None)"
| "apt s (Msg_Preempted t p) = (tasks s t \<noteq> None)"
| "apt s (Msg_Yield t p) = (tasks s t \<noteq> None)"
| "apt s (Msg_Switchto t p) = (tasks s t \<noteq> None)"
| "apt s Schedule = True"
| "apt s Migrate = True"

text \<open>The message frees a task that a queue or a CPU still refers to.\<close>

fun departs_held :: "('c, 'k) sched \<Rightarrow> event \<Rightarrow> bool" where
  "departs_held s (Msg_Departed t p) = (st s t \<noteq> Some BLOCKED)"
| "departs_held s _ = False"

text \<open>The flag of a run says whether a held task departed in it.\<close>

inductive agent_run :: "('c, 'k) ghost \<Rightarrow> 'c \<Rightarrow> bool \<Rightarrow> ('c, 'k) sched \<Rightarrow> bool" for G l where
  ready: "agent_run G l False u"
    if "NetScheduler G l g junk flag k = Ok s" and "length junk = kCpuHistLen" and "EnclaveReady G s = Ok ((), u)"
| mask: "agent_run G l d (s\<lparr>enforce_affinity_mask := b\<rparr>)" if "agent_run G l d s"
| world: "agent_run G l d (s\<lparr>kernel := k\<rparr>)" if "agent_run G l d s"
| rpc: "agent_run G l d u" if "agent_run G l d s" and "RpcHandler req s = Ok (code, u)"
| dump: "agent_run G l d u" if "agent_run G l d s" and "DumpState empty_rq s = Ok (figures, u)"
| event: "agent_run G l (d \<or> departs_held s ev) u"
    if "agent_run G l d s" and "apt s ev" and "handle G ev s = Ok ((), u)"

abbreviation agent_reachable :: "('c, 'k) ghost \<Rightarrow> 'c \<Rightarrow> ('c, 'k) sched \<Rightarrow> bool" where
  "agent_reachable G l \<equiv> agent_run G l False"

lemma new_ok:
  assumes "sched_ok G {} s" and "tasks s t = None"
  shows "sched_ok G {} (put_task t (new_task G g junk) s)"
proof -
  have "sched_ok G {t} s" using out_of_blocked [OF assms(1), of t] assms(2) by simp
  then have "sched_ok G {t} (put_task t (new_task G g junk) s)" by (rule put_loose) (simp_all add: new_task_def)
  then show ?thesis using into_blocked [of G "{t}" _ t] by (simp add: new_task_def)
qed

lemma handle_ok:
  assumes ok: "sched_ok G {} s" and "agents_spec G (cpus s)" and "apt s ev"
  shows "wp kernel_checks (handle G ev) (\<lambda>_ u. sched_ok G {} u \<longleftrightarrow> \<not> departs_held s ev) s"
proof -
  have c: "kernel_checks \<subseteq> kernel_checks" "round_checks \<subseteq> kernel_checks" "migration_checks \<subseteq> kernel_checks"
    by (auto simp: kernel_checks_def round_checks_def migration_checks_def)
  note rules = TaskRunnable_ok [OF ok _ c(1)] TaskBlocked_ok [OF ok _ c(1)] TaskPreempted_ok [OF ok _ c(1)]
    TaskYield_ok [OF ok _ c(1)] TaskSwitchto_ok [OF ok _ c(1)]
  show ?thesis
  proof (cases ev)
    case (Msg_New t g junk seq r b)
    with assms(3) TaskNew_ok [OF new_ok [OF ok], of t g junk t _ kernel_checks seq r b] show ?thesis
      by (auto simp: new_task_def elim!: wp_mono)
  next
    case (Msg_Departed t p)
    with assms(3) obtain k where k: "tasks s t = Some k" by auto
    with Msg_Departed TaskDeparted_ok [OF ok k c(1), of p] show ?thesis by (auto elim!: wp_mono)
  next
    case (Msg_Dead t)
    with assms(3) TaskDead_ok [OF ok _ c(1), of t] show ?thesis by (auto elim!: wp_mono)
  next
    case Schedule
    with GlobalSchedule_ok [OF ok c(2)] show ?thesis by (auto elim!: wp_mono)
  next
    case Migrate
    with PickNextGlobalCPU_ok [OF ok assms(2) c(3)] show ?thesis by (auto elim!: wp_mono)
  qed (use assms(3) in \<open>auto intro!: wp_mono [OF rules(1)] wp_mono [OF rules(2)] wp_mono [OF rules(3)]
    wp_mono [OF rules(4)] wp_mono [OF rules(5)]\<close>)
qed

text \<open>No operation changes the set of CPUs.\<close>

lemma leaves_access [leaves_rules]:
  "leaves cpus (kern f)" "leaves cpus (task t)" "leaves cpus (cpu_state c)"
  "leaves cpus (upd_task t g)" "leaves cpus (upd_cpu c h)"
  by (auto simp: leaves_def kern_def task_def cpu_state_def upd_task_def upd_cpu_def modify_def bnd_def
      split: prod.splits option.splits if_splits)

lemma leaves_queues [leaves_rules]:
  "leaves cpus (SetRuntime t r b)" "leaves cpus (Enqueue t)" "leaves cpus Dequeue"
  "leaves cpus (RemoveFromRunqueue t x)" "leaves cpus (Yield t)"
  unfolding SetRuntime_def Enqueue_def Dequeue_def RemoveFromRunqueue_def Yield_def
  by (intro leaves_rules; simp)+

lemma leaves_cpu_ops [leaves_rules]:
  "leaves cpus (SyncCpuState G c)" "leaves cpus (cpu_state_of t)" "leaves cpus (Available G d)"
  "leaves cpus (CpuEnteringSwitchto G i)" "leaves cpus (CpuLeavingSwitchto G i)" "leaves cpus (FreeTask t)"
  "leaves cpus (UpdateRuntime G t)" "leaves cpus (UpdateTaskRuntime t r b)"
  "leaves cpus (cpu_of k)" "leaves cpus (end_submit t p)" "leaves cpus (preempt_request G d n a)"
  unfolding SyncCpuState_def cpu_state_of_def Available_def CpuEnteringSwitchto_def CpuLeavingSwitchto_def
    FreeTask_def UpdateRuntime_def UpdateTaskRuntime_def cpu_of_def end_submit_def preempt_request_def
  by (intro leaves_rules; simp)+

lemma leaves_parts [leaves_rules]:
  "leaves cpus (clear_cpu G t)" "leaves cpus (leave_cpu G t p)" "leaves cpus (leave_switchto G t p)"
  "leaves cpus (set_allowed_cpus G t)" "leaves cpus (AdjustTaskPriority G t)" "leaves cpus (PreemptTask G q n a)"
  "leaves cpus (ReplaceExistingTask G c t)" "leaves cpus (replaceable G t)" "leaves cpus (classify_cpu G c r)"
  "leaves cpus (scan_cpu G c r)" "leaves cpus (assign G t c r)" "leaves cpus (place G t r)"
  "leaves cpus requeue_yielding" "leaves cpus (count_unavail i)" "leaves cpus (finish_round G r)"
  "leaves cpus (may_land G g c)" "leaves cpus (vacate G c)" "leaves cpus (sync_pending G c)"
  "leaves cpus (ping_agent G c)" "leaves cpus (move_global G c)"
  unfolding clear_cpu_def leave_cpu_def leave_switchto_def set_allowed_cpus_def AdjustTaskPriority_def PreemptTask_def
    ReplaceExistingTask_def replaceable_def classify_cpu_def scan_cpu_def assign_def place_def requeue_yielding_def
    count_unavail_def finish_round_def may_land_def vacate_def sync_pending_def ping_agent_def move_global_def Let_def
  by (intro leaves_rules leaves_queues leaves_cpu_ops; simp)+

lemma leaves_loops [leaves_rules]:
  "leaves cpus (assign_loop G n r)" "leaves cpus (find_target G g h cs)"
proof -
  show "leaves cpus (assign_loop G n r)"
    by (induction n arbitrary: r) (auto intro!: leaves_rules)
  show "leaves cpus (find_target G g h cs)"
    by (induction cs) (auto intro!: leaves_rules)
qed

lemma leaves_handle: "leaves cpus (handle G ev)"
  by (cases ev)
    (simp_all only: handle.simps TaskNew_def TaskRunnable_def TaskDeparted_def TaskDead_def TaskBlocked_def
      TaskPreempted_def TaskYield_def TaskSwitchto_def GlobalSchedule_def PickNextGlobalCPU_def,
     (intro leaves_rules; simp)+)

lemma run_ok:
  assumes "agent_run G l d s" and "cpulist_spec G" and "agents_spec G l"
  shows "cpus s = l \<and> (\<not> d \<longrightarrow> sched_ok G {} s)"
  using assms(1)
proof induction
  case (ready g junk flag k s u)
  from wp_Ok [OF EnclaveReady_ok [OF assms(2,3) ready(1,2)] ready(3)] show ?case by simp
next
  case (rpc d s req code u)
  then show ?case by (auto simp: RpcHandler_def run_defs split: if_splits)
next
  case (dump d s empty_rq figures u)
  then have "length (cpuhist s) = kCpuHistLen" if "\<not> d" using that by (simp add: ok_parts)
  with dump show ?case by (auto simp: DumpState_def run_defs kCpuHistLen_def split: if_splits)
next
  case (event d s ev u)
  have "cpus u = l" using event leaves_handle [of G ev] by (simp add: leaves_def)
  moreover have "sched_ok G {} u" if "\<not> (d \<or> departs_held s ev)"
  proof -
    from that event have "sched_ok G {} s" "agents_spec G (cpus s)" using assms(3) by simp_all
    from wp_Ok [OF handle_ok [OF this event(2)] event(3)] that show ?thesis by simp
  qed
  ultimately show ?case by blast
qed simp_all

lemma reachable_ok:
  assumes "agent_reachable G l s" and "cpulist_spec G" and "agents_spec G l"
  shows "sched_ok G {} s \<and> cpus s = l"
  using run_ok [OF assms] by simp

section \<open>Safety\<close>

text \<open>
  C2: In whatever order messages, rounds of scheduling, migrations of the global agent, RPCs and
  print-outs come, and whatever the kernel reports, the scheduler is consistent (each task is
  exactly once in the place that its run state says) unless a task departed that a queue or a CPU
  still held.  From a consistent state the next event is handled completely or one of the CHECKs on
  what the kernel reports fails: no freed task is accessed, no array is left, no null pointer is
  followed, no loop runs forever, and no CHECK on the scheduler's own data fails.  The state it
  leads to is consistent again exactly if the event is not such a departure: TaskDeparted frees a
  task in any state and leaves the references to it.
\<close>

theorem agent_run_safe:
  assumes "cpulist_spec G" and "agents_spec G l" and "agent_run G l held_departed s" and "apt s ev"
  shows "held_departed \<or> sched_ok G {} s \<and>
    ((\<exists>c \<in> kernel_checks. handle G ev s = Err (CheckFailed c)) \<or>
     (\<exists>u. handle G ev s = Ok ((), u) \<and> (sched_ok G {} u \<longleftrightarrow> \<not> departs_held s ev)))"
proof (cases held_departed)
  case False
  with run_ok [OF assms(3,1,2)] have ok: "sched_ok G {} s" "cpus s = l" by simp_all
  with handle_ok [of G s ev] assms have "wp kernel_checks (handle G ev) (\<lambda>_ u. sched_ok G {} u \<longleftrightarrow> \<not> departs_held s ev) s"
    by simp
  with ok show ?thesis by (auto simp: wp_iff)
qed simp

text \<open>A scheduler for the four CPUs of \<open>list_ghost\<close>, without tasks.\<close>

definition boot :: "(nat list, script) sched" where
  "boot =
     \<lparr>cpus = [0, 1, 2, 3],
      cpu_states = [cpu_state0\<lparr>cs_agent := Some 0\<rparr>, cpu_state0\<lparr>cs_agent := Some 1\<rparr>,
        cpu_state0\<lparr>cs_agent := Some 2\<rparr>, cpu_state0\<lparr>cs_agent := Some 3\<rparr>],
      global_cpuid = 0, global_home_cpu = 0, enforce_affinity_mask = False, num_tasks = 0, run_queue = [],
      run_queue_low_priority = [], yielding_tasks = [], globaliter = 0, cpuhist = replicate 12 0,
      global_migrations = 0, txn_fail_unavail = 0, txn_fail_other = 0, txn_success = 0, txn_total = 0,
      debug_runqueue = False, tasks = (\<lambda>_. None), kernel = usual\<rparr>"

lemma list_agents_spec: "agents_spec list_ghost l"
  by (simp add: agents_spec_def list_ghost_def)

lemma boot_reachable: "agent_reachable list_ghost [0, 1, 2, 3] boot"
proof (rule ready)
  let ?s = "boot\<lparr>cpu_states := replicate 4 cpu_state0\<rparr>"
  show "NetScheduler list_ghost [0, 1, 2, 3] 0 (replicate 12 0) False usual = Ok ?s"
    by (simp add: NetScheduler_def list_ghost_def four_def boot_def)
  show "EnclaveReady list_ghost ?s = Ok ((), boot)"
    by (simp add: EnclaveReady_def list_ghost_def four_def boot_def run_defs kern_def cpu_state_def upd_cpu_def
        put_cpu_def cpu_state0_def numeral_eq_Suc)
qed (simp add: kCpuHistLen_def)

text \<open>The same with one task in the queue.\<close>

definition one :: "(nat list, script) sched" where
  "one = boot\<lparr>num_tasks := 1, run_queue := [7],
     tasks := [7 \<mapsto> \<lparr>gtid = 7, seqnum = 0, start_submit = InfiniteFuture, run_state = QUEUED, task_cpu = None,
       prio_boost = False, runtime = 5, elapsed_runtime = 0, preempted = False,
       allowed_cpulist = [3, 2, 1, 0], high_priority = True\<rparr>]\<rparr>"

lemma handle_one: "handle list_ghost (Msg_New 7 7 True 0 5 True) boot = Ok ((), one)"
proof -
  have "sublist ''EngineThread'' ''EngineThread''" by simp
  then show ?thesis
    by (simp add: TaskNew_def UpdateTaskRuntime_def SetRuntime_def Enqueue_def set_allowed_cpus_def
        AdjustTaskPriority_def GetTaskName_def run_defs kern_def task_def upd_task_def put_task_def new_task_def
        list_ghost_def four_def boot_def one_def push_def)
qed

lemma one_reachable: "agent_reachable list_ghost [0, 1, 2, 3] one"
  using event [OF boot_reachable _ handle_one] by (simp add: boot_def)

lemma one_ok: "sched_ok list_ghost {} one" "cpus one = [0, 1, 2, 3]"
  using reachable_ok [OF one_reachable list_cpulist_spec list_agents_spec] by simp_all

text \<open>On the empty scheduler a new task is taken in; on the one with a queued task its departure is not.\<close>

theorem agent_run_safe_witness:
  "agent_run list_ghost [0, 1, 2, 3] False boot \<and> agent_run list_ghost [0, 1, 2, 3] False one \<and>
   (\<exists>u. handle list_ghost (Msg_New 7 7 True 0 5 True) boot = Ok ((), u) \<and> sched_ok list_ghost {} u) \<and>
   (\<exists>u. handle list_ghost (Msg_Departed 7 \<lparr>pl_runtime = 5, pl_from_switchto = False, pl_cpu = 0\<rparr>) one = Ok ((), u) \<and>
      \<not> sched_ok list_ghost {} u)"
proof -
  note safe = agent_run_safe [OF list_cpulist_spec list_agents_spec]
  have new: "apt boot (Msg_New 7 7 True 0 5 True)" by (simp add: boot_def)
  let ?d = "Msg_Departed 7 \<lparr>pl_runtime = 5, pl_from_switchto = False, pl_cpu = 0\<rparr>"
  have dep: "apt one ?d" "departs_held one ?d" by (simp_all add: one_def st_def)
  have "\<exists>u. handle list_ghost ?d one = Ok ((), u)"
    by (simp add: one_def TaskDeparted_def FreeTask_def run_defs task_def)
  with safe [OF one_reachable dep(1)] dep(2) safe [OF boot_reachable new] handle_one boot_reachable one_reachable
  show ?thesis by (auto simp del: handle.simps)
qed

section \<open>Refinement\<close>

text \<open>
  The abstract machine: a map from tasks to run states, and for each message the new state of the
  task that it is about.
\<close>

fun abs_step :: "event \<Rightarrow> (nat \<rightharpoonup> task_state) \<Rightarrow> (nat \<rightharpoonup> task_state)" where
  "abs_step (Msg_New t g junk seq r runnable) m = m(t \<mapsto> if runnable then QUEUED else BLOCKED)"
| "abs_step (Msg_Runnable t d) m = m(t \<mapsto> QUEUED)"
| "abs_step (Msg_Departed t p) m = m(t := None)"
| "abs_step (Msg_Dead t) m = m(t := None)"
| "abs_step (Msg_Blocked t p) m = m(t \<mapsto> BLOCKED)"
| "abs_step (Msg_Preempted t p) m = m(t \<mapsto> QUEUED)"
| "abs_step (Msg_Yield t p) m = m(t \<mapsto> yield_target (the (m t)) (pl_from_switchto p))"
| "abs_step (Msg_Switchto t p) m = m(t \<mapsto> BLOCKED)"

lemma moved_st: "moved G t x s y u \<Longrightarrow> st u = (st s)(t \<mapsto> x)"
  by (auto simp: fun_eq_iff st_def)

lemma handle_abs:
  assumes ok: "sched_ok G {} s" and apt: "apt s ev" and msg: "ev \<noteq> Schedule" "ev \<noteq> Migrate"
  shows "wp kernel_checks (handle G ev) (\<lambda>_ u. st u = abs_step ev (st s)) s"
proof -
  have c: "kernel_checks \<subseteq> kernel_checks" by simp
  note task_rules = wp_mono [OF TaskRunnable_ok [OF ok _ c] moved_st] wp_mono [OF TaskBlocked_ok [OF ok _ c] moved_st]
    wp_mono [OF TaskPreempted_ok [OF ok _ c] moved_st] wp_mono [OF TaskYield_ok [OF ok _ c] moved_st]
    wp_mono [OF TaskSwitchto_ok [OF ok _ c] moved_st]
  have freed: "st u = (st s)(t := None)" if "tasks u = (tasks s)(t := None)" for t u
    using that by (auto simp: fun_eq_iff st_def)
  show ?thesis
  proof (cases ev)
    case (Msg_New t g junk seq r b)
    let ?s = "put_task t (new_task G g junk) s"
    have "st u = (st s)(t \<mapsto> x)" if "moved G t x ?s y u" for x y u
      using that by (auto simp: fun_eq_iff st_def)
    with Msg_New apt TaskNew_ok [OF new_ok [OF ok], of t g junk t _ kernel_checks seq r b] show ?thesis
      by (simp add: new_task_def) (auto elim!: wp_mono)
  next
    case (Msg_Departed t p)
    with apt obtain k where k: "tasks s t = Some k" by auto
    with Msg_Departed TaskDeparted_ok [OF ok k c, of p] show ?thesis by (auto elim!: wp_mono simp: freed)
  next
    case (Msg_Dead t)
    with apt TaskDead_ok [OF ok _ c, of t] show ?thesis by (auto elim!: wp_mono simp: freed)
  qed (use apt msg in \<open>auto intro: task_rules\<close>)
qed

text \<open>
  C5: The handlers implement a state machine per task: a message moves the task it is about to the
  state that the machine prescribes (a new task to the queue or to blocked, a woken or preempted
  task to the queue, a blocked or switching task to blocked, a yielding task to the yielding ones
  unless it is queued because of a race), and every other task, whatever CPU or queue it is on,
  keeps its state.  A transaction that was pending is completed on the way.
\<close>

theorem handlers_refine:
  assumes "sched_ok G {} s" and "apt s ev" and "ev \<noteq> Schedule" and "ev \<noteq> Migrate" and "handle G ev s = Ok ((), u)"
  shows "st u = abs_step ev (st s)"
  by (rule wp_Ok [OF handle_abs [OF assms(1-4)] assms(5)])

theorem handlers_refine_witness:
  "sched_ok list_ghost {} boot \<and> apt boot (Msg_New 7 7 True 0 5 True) \<and>
   handle list_ghost (Msg_New 7 7 True 0 5 True) boot = Ok ((), one) \<and>
   st one = [7 \<mapsto> QUEUED]"
proof -
  have boot: "sched_ok list_ghost {} boot" "apt boot (Msg_New 7 7 True 0 5 True)" "st boot = (\<lambda>_. None)"
    using reachable_ok [OF boot_reachable list_cpulist_spec list_agents_spec]
    by (simp_all add: boot_def fun_eq_iff st_def)
  with handlers_refine [OF boot(1,2) _ _ handle_one] show ?thesis by (simp add: handle_one del: handle.simps)
qed

section \<open>A round of scheduling\<close>

text \<open>
  C6: A round of scheduling from a consistent state ends, in a consistent state with the same tasks
  and with no task left among the yielding ones, or it fails because the kernel says that a
  transaction it reported as committed is not, or reports a runtime that goes back.
\<close>

theorem schedule_round:
  assumes "sched_ok G {} s"
  shows "(\<exists>c \<in> {''req->committed()'', ''new_runtime >= runtime''}. GlobalSchedule G s = Err (CheckFailed c)) \<or>
    (\<exists>u. GlobalSchedule G s = Ok ((), u) \<and> sched_ok G {} u \<and> dom (tasks u) = dom (tasks s) \<and> yielding_tasks u = [])"
  using GlobalSchedule_ok [OF assms, of round_checks] by (auto simp: wp_iff round_checks_def)

theorem schedule_round_witness:
  "sched_ok list_ghost {} one \<and>
   ((\<exists>c \<in> {''req->committed()'', ''new_runtime >= runtime''}. GlobalSchedule list_ghost one = Err (CheckFailed c)) \<or>
    (\<exists>u. GlobalSchedule list_ghost one = Ok ((), u) \<and> sched_ok list_ghost {} u \<and>
      dom (tasks u) = {7} \<and> yielding_tasks u = []))"
proof -
  have "dom (tasks one) = {7}" by (simp add: one_def)
  with schedule_round [OF one_ok(1)] one_ok(1) show ?thesis by simp
qed

text \<open>
  C10: The loop that assigns tasks to CPUs is work-conserving.  When the kernel says of every queued
  task that it is off its CPU and up to date, when its affinity (if it is enforced) allows the free
  CPUs, and when no CPU has to be taken from a running task, the loop ends and as many tasks leave
  the front of the queue as there are tasks and free CPUs.  Each of them is pending on one of these
  CPUs, the CPUs are taken from the free ones, no task yields, and all other tasks are as before.
\<close>

theorem round_fills_free_cpus:
  assumes "sched_ok G {} s" and "round_ok G r s" and "\<forall>t \<in> set (waiting s). placeable G r s t"
    and "cl_elems G (avail_cpus_low_priority r) = [] \<or> length (waiting s) \<le> length (cl_elems G (avail_cpus r))"
    and "m = min (length (waiting s)) (length (cl_elems G (avail_cpus r)))"
  shows "\<exists>r' u. assign_loop G (loop_fuel G r s) r s = Ok (r', u) \<and>
     waiting u = drop m (waiting s) \<and> yielding_tasks u = yielding_tasks s \<and>
     length (cl_elems G (avail_cpus r')) = length (cl_elems G (avail_cpus r)) - m \<and>
     (\<forall>t \<in> set (take m (waiting s)). st u t = Some PENDING \<and>
        (\<exists>c \<in> set (cl_elems G (avail_cpus r)). tc u t = Some c)) \<and>
     (\<forall>t. t \<notin> set (take m (waiting s)) \<longrightarrow> tasks u t = tasks s t)"
proof -
  have "wp {} (assign_loop G (loop_fuel G r s) r) (filled G m r s) s"
    using assign_loop_fills [OF assms(1-4), of "loop_fuel G r s"] by (simp add: assms(5) loop_fuel_def)
  then show ?thesis by (auto simp: wp_iff filled_def)
qed

definition sample_round :: "nat list round" where
  "sample_round = (round0 list_ghost)\<lparr>avail_cpus := [2, 3]\<rparr>"

text \<open>The machine of \<open>list_ghost\<close> with status words that stay as they are.\<close>

definition steady_ghost :: "(nat list, script) ghost" where
  "steady_ghost = list_ghost\<lparr>sw_barrier := (\<lambda>t k. (0, k))\<rparr>"

theorem round_fills_free_cpus_witness:
  "\<exists>r' u. assign_loop steady_ghost (loop_fuel steady_ghost sample_round one) sample_round one = Ok (r', u) \<and>
     waiting u = [] \<and> yielding_tasks u = [] \<and> length (cl_elems steady_ghost (avail_cpus r')) = 1 \<and>
     st u 7 = Some PENDING \<and> (tc u 7 = Some 2 \<or> tc u 7 = Some 3)"
proof -
  have same: "cpulist_spec steady_ghost = cpulist_spec list_ghost" "MAX_CPUS steady_ghost = MAX_CPUS list_ghost"
    "cl_elems steady_ghost = cl_elems list_ghost"
    by (simp_all add: steady_ghost_def cpulist_spec_def)
  have ok: "sched_ok steady_ghost {} one" using one_ok(1) by (simp add: sched_ok_def frame_ok_def same)
  have r: "round_ok steady_ghost sample_round one"
    by (simp add: round_ok_def sample_round_def round0_def same) (simp add: list_ghost_def four_def one_def boot_def cpu_state0_def)
  have w: "waiting one = [7]" "yielding_tasks one = []" by (simp_all add: one_def boot_def waiting_def)
  have cl: "cl_elems steady_ghost (avail_cpus sample_round) = [2, 3]" "cl_elems steady_ghost (avail_cpus_low_priority sample_round) = []"
    by (simp_all add: same sample_round_def round0_def) (simp_all add: list_ghost_def four_def)
  have "placeable steady_ghost sample_round one 7"
    by (simp add: placeable_def steady_ghost_def) (simp add: list_ghost_def one_def boot_def)
  with round_fills_free_cpus [OF ok r _ _ refl] show ?thesis by (fastforce simp: w cl)
qed

text \<open>
  C32: A CPU on which the scheduler already knows a task to be running is never a candidate for
  preemption: the round passes over it, whatever the task is and however long it has been running.
\<close>

theorem busy_cpu_not_preempted:
  assumes "sched_ok G {} s" and "c \<in> set (cl_elems G (cpus s))" and "cs_current (cpu_states s ! c) \<noteq> None"
  shows "\<exists>r' u. scan_cpu G c r s = Ok (r', u) \<and> avail_cpus r' = avail_cpus r \<and>
    avail_cpus_low_priority r' = avail_cpus_low_priority r \<and> cpu_states u = cpu_states s"
proof -
  note len = sched_ok_lengths [OF assms(1)]
  have c: "c < MAX_CPUS G" by (rule cpulist_elems(2) [OF len(3) assms(2)])
  have "cs_next (cpu_states s ! c) = None" using one_task [OF assms(1) c] assms(3) by auto
  moreover obtain a where "cs_agent (cpu_states s ! c) = Some a" using assms(1,2) by (auto simp: ok_parts)
  ultimately have "wp {} (scan_cpu G c r) (\<lambda>r' u. avail_cpus r' = avail_cpus r \<and>
      avail_cpus_low_priority r' = avail_cpus_low_priority r \<and> cpu_states u = cpu_states s) s"
    using assms(3) c len by (auto simp: scan_cpu_def Available_def wp_simps)
  then show ?thesis unfolding wp_iff by blast
qed

text \<open>The task of \<open>one\<close> is running on CPU 2.\<close>

definition busy :: "(nat list, script) sched" where
  "busy = put_task 7 ((the (tasks one 7))\<lparr>run_state := ON_CPU, task_cpu := Some 2\<rparr>)
     (put_cpu 2 ((cpu_states one ! 2)\<lparr>cs_current := Some 7\<rparr>) (without_head one))"

lemma busy_ok: "sched_ok list_ghost {} busy"
proof -
  have "waiting one = [7]" by (simp add: one_def boot_def waiting_def)
  from out_of_head [OF one_ok(1) this] have "sched_ok list_ghost {7} (without_head one)" by simp
  from into_current [OF this, of 2 7 "(the (tasks one 7))\<lparr>run_state := ON_CPU, task_cpu := Some 2\<rparr>"]
  show ?thesis by (simp add: busy_def) (simp add: one_def boot_def cpu_state0_def list_ghost_def)
qed

theorem busy_cpu_not_preempted_witness:
  "cs_current (cpu_states busy ! 2) = Some 7 \<and>
   (\<exists>r' u. scan_cpu list_ghost 2 (round0 list_ghost) busy = Ok (r', u) \<and> avail_cpus_low_priority r' = [])"
proof -
  have "cpus busy = [0, 1, 2, 3]" "cs_current (cpu_states busy ! 2) = Some 7"
    using one_ok(2) by (simp_all add: busy_def) (simp add: one_def boot_def)
  moreover from this have "2 \<in> set (cl_elems list_ghost (cpus busy))" by (simp add: list_ghost_def four_def)
  moreover have "avail_cpus_low_priority (round0 list_ghost) = []" by (simp add: round0_def list_ghost_def)
  ultimately show ?thesis using busy_cpu_not_preempted [OF busy_ok, of 2 "round0 list_ghost"] by auto
qed

section \<open>The choice of a CPU\<close>

text \<open>
  C30: The choice of a CPU by a cascade of intersections of CPU lists is the same as one pass over the
  candidates that keeps the first at the least distance from the previous CPU (the same CPU, a
  sibling, the same last-level cache, the same node, elsewhere).  So the chosen CPU is available and
  allowed, no candidate is nearer, and there is none exactly when there is no candidate.
\<close>

theorem pick_is_nearest:
  assumes "cpulist_spec G"
  shows "PickNextCpu G avail k enforce = nearest (distance G (task_cpu k)) (candidates G avail k enforce) \<and>
    (\<forall>c. PickNextCpu G avail k enforce = Some c \<longrightarrow>
      c \<in> set (candidates G avail k enforce) \<and>
      (\<forall>e \<in> set (candidates G avail k enforce). distance G (task_cpu k) c \<le> distance G (task_cpu k) e)) \<and>
    (PickNextCpu G avail k enforce = None \<longleftrightarrow> candidates G avail k enforce = [])"
  using nearest_least [of "distance G (task_cpu k)" "candidates G avail k enforce"]
  by (auto simp: PickNextCpu_nearest [OF assms] nearest_None)

theorem pick_is_nearest_witness:
  "let k = (new_task list_ghost 7 True)\<lparr>task_cpu := Some 1, allowed_cpulist := [0, 2, 3]\<rparr> in
   cpulist_spec list_ghost \<and> PickNextCpu list_ghost [0, 2, 3] k True = Some 0 \<and>
   nearest (distance list_ghost (Some 1)) (candidates list_ghost [0, 2, 3] k True) = Some 0"
proof -
  let ?k = "(new_task list_ghost 7 True)\<lparr>task_cpu := Some 1, allowed_cpulist := [0, 2, 3]\<rparr>"
  have "nearest (distance list_ghost (Some 1)) (candidates list_ghost [0, 2, 3] ?k True) = Some 0"
    by (simp add: candidates_def distance_def list_ghost_def four_def)
  with pick_is_nearest [OF list_cpulist_spec, of "[0, 2, 3]" ?k True] list_cpulist_spec show ?thesis by simp
qed

text \<open>
  The comparator of tasks is a strict weak order, as the standard library requires of a heap
  comparator: no task is less than itself, the order is transitive, and so is being equivalent.
\<close>

theorem NetTaskLess_strict_weak_order:
  "\<not> NetTaskLess a a \<and>
   (NetTaskLess a b \<and> NetTaskLess b c \<longrightarrow> NetTaskLess a c) \<and>
   (\<not> NetTaskLess a b \<and> \<not> NetTaskLess b a \<and> \<not> NetTaskLess b c \<and> \<not> NetTaskLess c b \<longrightarrow>
    \<not> NetTaskLess a c \<and> \<not> NetTaskLess c a)"
  by (auto simp: NetTaskLess_def split: if_splits)

theorem NetTaskLess_strict_weak_order_witness:
  "let a = (new_task list_ghost 1 True)\<lparr>prio_boost := True\<rparr>; b = (new_task list_ghost 2 True)\<lparr>preempted := True\<rparr>;
       c = new_task list_ghost 3 True in
   NetTaskLess a b \<and> NetTaskLess b c \<and> NetTaskLess a c"
proof -
  let ?a = "(new_task list_ghost 1 True)\<lparr>prio_boost := True\<rparr>" and ?b = "(new_task list_ghost 2 True)\<lparr>preempted := True\<rparr>"
  have "NetTaskLess ?a ?b" "NetTaskLess ?b (new_task list_ghost 3 True)"
    by (simp_all add: NetTaskLess_def new_task_def)
  with NetTaskLess_strict_weak_order [of ?a ?b "new_task list_ghost 3 True"] show ?thesis by (simp add: Let_def)
qed

section \<open>The run queue\<close>





section \<open>Bounds\<close>

text \<open>
  The histogram is never indexed out of its bounds: whatever the number of unavailable CPUs, one
  of the twelve slots, the last one for eleven and more, is incremented by one and the others stay.
\<close>

theorem count_unavail_in_bounds:
  assumes "length (cpuhist s) = kCpuHistLen"
  shows "\<exists>i < kCpuHistLen. (n < kCpuHistLen \<longrightarrow> i = n) \<and> (kCpuHistLen \<le> n \<longrightarrow> i = kCpuHistLen - 1) \<and>
    count_unavail n s = Ok ((), s\<lparr>cpuhist := (cpuhist s)[i := cpuhist s ! i + 1]\<rparr>)"
proof -
  let ?i = "if kCpuHistLen - 1 < n then kCpuHistLen - 1 else n"
  have "?i < kCpuHistLen" "n < kCpuHistLen \<longrightarrow> ?i = n" "kCpuHistLen \<le> n \<longrightarrow> ?i = kCpuHistLen - 1"
    by (auto simp: kCpuHistLen_def)
  moreover from this(1) assms have "count_unavail n s = Ok ((), s\<lparr>cpuhist := (cpuhist s)[?i := cpuhist s ! ?i + 1]\<rparr>)"
    by (simp add: count_unavail_def run_defs Let_def)
  ultimately show ?thesis by blast
qed

theorem count_unavail_in_bounds_witness:
  "length (cpuhist boot) = kCpuHistLen \<and>
   count_unavail 40 boot = Ok ((), boot\<lparr>cpuhist := (replicate 12 0)[11 := 1]\<rparr>)"
proof -
  have l: "length (cpuhist boot) = kCpuHistLen" by (simp add: boot_def kCpuHistLen_def)
  from count_unavail_in_bounds [OF l, of 40] show ?thesis
    by (auto simp: l kCpuHistLen_def) (simp add: boot_def)
qed

section \<open>The migration of the global agent\<close>

text \<open>
  C29: When the kernel wants the global agent off its CPU, the search ends and the agent stays or moves
  to a CPU of the enclave on which then no task runs and none is about to run; the tasks are kept
  and the state is consistent.  The CPU is the home CPU of the agent, which is taken even inside a
  switchto chain, or a CPU of the same node that is not in a switchto chain.  The migration can only
  fail because the kernel takes back that a transaction is committed or refuses to stop the task
  that runs there.
\<close>

theorem migration_lands_on_free_cpu:
  assumes "sched_ok G {} s" and "agents_spec G (cpus s)"
  shows "(\<exists>c \<in> {''req->committed()'', ''req->Commit()''}. PickNextGlobalCPU G s = Err (CheckFailed c)) \<or>
    (\<exists>u. PickNextGlobalCPU G s = Ok ((), u) \<and> sched_ok G {} u \<and> dom (tasks u) = dom (tasks s) \<and>
      (global_cpuid u = global_cpuid s \<or>
       global_cpuid u \<in> set (cl_elems G (cpus s)) \<and>
       (global_cpuid u = global_home_cpu s \<or>
          \<not> cs_in_switchto (cpu_states s ! global_cpuid u) \<and>
          numa_node G (global_cpuid u) = numa_node G (global_home_cpu s)) \<and>
       cs_current (cpu_states u ! global_cpuid u) = None \<and> cs_next (cpu_states u ! global_cpuid u) = None))"
  using PickNextGlobalCPU_ok [OF assms, of migration_checks] by (auto simp: wp_iff migration_checks_def)

text \<open>CPU 1 of \<open>one\<close> is in a switchto chain: the agent, on CPU 0, does not go there.\<close>

definition chained :: "(nat list, script) sched" where
  "chained = put_cpu 1 ((cpu_states one ! 1)\<lparr>cs_in_switchto := True\<rparr>) one"

lemma chained_ok: "sched_ok list_ghost {} chained"
  using put_switchto [OF one_ok(1), of 1] by (simp add: chained_def list_ghost_def)

theorem migration_lands_on_free_cpu_witness:
  "sched_ok list_ghost {} chained \<and> agents_spec list_ghost (cpus chained) \<and>
   ((\<exists>c \<in> {''req->committed()'', ''req->Commit()''}. PickNextGlobalCPU list_ghost chained = Err (CheckFailed c)) \<or>
    (\<exists>u. PickNextGlobalCPU list_ghost chained = Ok ((), u) \<and> sched_ok list_ghost {} u \<and> global_cpuid u \<noteq> 1))"
proof -
  have c: "global_cpuid chained = 0" "global_home_cpu chained = 0" "cs_in_switchto (cpu_states chained ! 1)"
    by (simp_all add: chained_def put_cpu_def one_def boot_def)
  have "global_cpuid u \<noteq> 1" if "global_cpuid u = 0 \<or> global_cpuid u = 0 \<or> \<not> cs_in_switchto (cpu_states chained ! global_cpuid u)" for u :: "(nat list, script) sched"
    using that c(3) by auto
  with migration_lands_on_free_cpu [OF chained_ok list_agents_spec] chained_ok list_agents_spec c show ?thesis by metis
qed

text \<open>The home CPU is taken although it is in a switchto chain.\<close>

theorem home_in_switchto_taken:
  "\<exists>u. PickNextGlobalCPU list_ghost (put_cpu 0 ((cpu_states boot ! 0)\<lparr>cs_in_switchto := True\<rparr>) boot\<lparr>global_cpuid := 1\<rparr>) = Ok ((), u) \<and>
     global_cpuid u = 0 \<and> cs_in_switchto (cpu_states u ! 0)"
  by (simp add: PickNextGlobalCPU_def may_land_def Available_def SyncCpuState_def move_global_def sync_pending_def vacate_def
      ping_agent_def run_defs kern_def cpu_state_def put_cpu_def boot_def cpu_state0_def list_ghost_def four_def usual_def answer_def)

section \<open>Freed tasks and shut-down\<close>

text \<open>
  C35: A task that departs while it is queued is freed but stays in the run queue: if it is the first
  one, the next round that has a CPU to assign follows the dangling pointer.
\<close>

theorem departed_queued_dangling:
  assumes "waiting s = t # ts" and "tasks s t \<noteq> None" and "\<not> pl_from_switchto p"
    and "\<not> (cl_Empty G (avail_cpus r) \<and> cl_Empty G (avail_cpus_low_priority r))"
  shows "\<exists>u. TaskDeparted G t p s = Ok ((), u) \<and> assign_loop G (Suc n) r u = Err UseAfterFree"
proof -
  let ?u = "s\<lparr>tasks := (tasks s)(t := None), num_tasks := num_tasks s - 1\<rparr>"
  from assms(2,3) have "TaskDeparted G t p s = Ok ((), ?u)"
    by (auto simp: TaskDeparted_def FreeTask_def run_defs task_def)
  moreover have "\<exists>v. Dequeue ?u = Ok (Some t, v) \<and> tasks v t = None"
    using assms(1) by (cases "run_queue s"; cases "run_queue_low_priority s")
      (auto simp: Dequeue_def run_defs waiting_def)
  then have "assign_loop G (Suc n) r ?u = Err UseAfterFree"
    using assms(4) by (auto simp: bnd_def place_def task_def)
  ultimately show ?thesis by blast
qed

theorem departed_queued_dangling_witness:
  "\<exists>u. waiting one = [7] \<and>
     TaskDeparted list_ghost 7 \<lparr>pl_runtime = 5, pl_from_switchto = False, pl_cpu = 0\<rparr> one = Ok ((), u) \<and>
     assign_loop list_ghost 2 sample_round u = Err UseAfterFree"
  using departed_queued_dangling [of one 7 "[]" "\<lparr>pl_runtime = 5, pl_from_switchto = False, pl_cpu = 0\<rparr>" list_ghost sample_round 1]
  by (simp add: one_def boot_def waiting_def sample_round_def round0_def list_ghost_def four_def numeral_2_eq_2)

text \<open>The position found is that of the agent.\<close>

lemma index_of_Some: "index_of g as i = Some j \<Longrightarrow> i \<le> j \<and> j - i < length as \<and> as ! (j - i) = g"
  by (induction as arbitrary: i) (fastforce simp: nth_Cons' Suc_diff_le split: if_splits)+

lemma index_of_None: "index_of g as i = None \<longleftrightarrow> g \<notin> set as"
  by (induction as arbitrary: i) auto

text \<open>
  At shut-down the list of agents is rearranged so that the agent of the global CPU comes first and
  is terminated first; no agent is lost or duplicated.  The final CHECK fails exactly when no agent
  runs on the global CPU.
\<close>

theorem bring_front_global_agent:
  assumes "as \<noteq> []"
  shows "if g \<in> set as then \<exists>bs. bring_front g as = Ok bs \<and> hd bs = g \<and> mset bs = mset as
    else bring_front g as = Err (CheckFailed ''front()->cpu().id() == global_cpuid'')"
proof -
  from assms obtain a as' where as: "as = a # as'" by (cases as) auto
  show ?thesis
  proof (cases "g \<in> set as")
    case True
    then obtain i where i: "index_of g as 0 = Some i" using index_of_None [of g as 0] by auto
    from index_of_Some [OF this] have at: "i < length as" "as ! i = g" by simp_all
    have "swap_front as i = as[0 := as ! i, i := as ! 0]" using as by (simp add: swap_front_def)
    then have swap: "mset (swap_front as i) = mset as" "hd (swap_front as i) = g"
      using at as mset_swap [of 0 as i] by (cases i; auto)+
    show ?thesis
      using True i swap as by (cases "a = g") (auto simp: bring_front_def simp del: index_of.simps)
  next
    case False
    then show ?thesis using as index_of_None [of g as 0] by (auto simp: bring_front_def simp del: index_of.simps)
  qed
qed

theorem bring_front_global_agent_witness:
  "\<exists>bs. bring_front 3 [1, 2, 3] = Ok bs \<and> hd bs = 3 \<and> mset bs = mset [1, 2, 3]"
  using bring_front_global_agent [of "[1, 2, 3]" 3] by simp

end
