(* ===== verification/Cgroup_Props.thy ===== *)
theory Cgroup_Props
  imports Cgroup
begin

text \<open>
  What the walk over the control groups does.  On every host whose paths have a bounded length it
  returns, or ends with one of four errors.  On a host where nothing else changes during the walk,
  described by the record \<open>quiet\<close>, exactly the threads that a rule selects are moved, each is
  counted once, and a second walk moves nothing.
\<close>

section \<open>The walk ends\<close>

text \<open>
  A directory can only be opened by a path shorter than \<^verbatim>\<open>PATH_MAX\<close>, and the path of an entry is
  longer than the path of its directory.
\<close>

definition paths_bounded :: "('k, 'z) os_scheme \<Rightarrow> bool" where
  "paths_bounded H \<longleftrightarrow>
     (\<forall>p k ps k'. directory_iterator H p k = (Some ps, k') \<longrightarrow>
        length p < PATH_MAX \<and> (\<forall>c \<in> set ps. length p < length c))"

definition scrape_errors :: "cerror set" where
  "scrape_errors =
     {Uncaught ''filesystem_error'', Uncaught ''invalid_argument'', Uncaught ''out_of_range'',
      CheckFailed ''sched_getscheduler(tid) == scheduler''}"

lemma outcome_sys_throws:
  "outcome E (sys_throws f) Q k =
     (case fst (f k) of None \<Rightarrow> Uncaught ''filesystem_error'' \<in> E | Some x \<Rightarrow> Q x (snd (f k)))"
  by (simp add: sys_throws_def split: option.split)

lemma stoi_errors: "outcome scrape_errors (lift_res (stoi l)) (\<lambda>_ _. True) k"
  by (simp add: stoi_def Let_def scrape_errors_def split: prod.split)

lemma MoveToScheduler_returns: "outcome scrape_errors (MoveToScheduler H t c) (\<lambda>_ _. True) k"
  by (simp add: MoveToScheduler_def scrape_errors_def)

lemma move_line_returns:
  assumes "0 \<le> m"
  shows "outcome scrape_errors (move_line H p pat l m) (\<lambda>m _. 0 \<le> m) k"
  using assms
  by (auto simp: move_line_def intro!: outcome_mono [OF stoi_errors] outcome_mono [OF MoveToScheduler_returns])

lemma MoveTasksToGhost_returns: "outcome scrape_errors (MoveTasksToGhost H p pat) (\<lambda>m _. 0 \<le> m) k"
proof -
  have "outcome scrape_errors (fold_m (move_line H p pat) ls 0) (\<lambda>m _. 0 \<le> m) k" for ls k
    by (rule outcome_fold_m_inv) (simp_all add: move_line_returns)
  moreover have "Uncaught ''filesystem_error'' \<in> scrape_errors" by (simp add: scrape_errors_def)
  ultimately show ?thesis
    by (simp add: MoveTasksToGhost_def Let_def outcome_sys_throws split: option.split)
qed

lemma apply_rules_returns: "outcome scrape_errors (apply_rules H p rules) (\<lambda>m _. 0 \<le> m) k"
proof -
  have one: "outcome scrape_errors (apply_rule H p cg r m) (\<lambda>m _. 0 \<le> m) k" if "0 \<le> m" for cg r m k
    using that by (auto simp: apply_rule_def intro: outcome_mono [OF MoveTasksToGhost_returns] split: prod.split)
  have all: "outcome scrape_errors (fold_m (apply_rule H p cg) rules m) (\<lambda>m _. 0 \<le> m) k" if "0 \<le> m" for cg m k
    using that by (intro outcome_fold_m_inv) (auto intro: one)
  have "Uncaught ''out_of_range'' \<in> scrape_errors" by (simp add: scrape_errors_def)
  with all show ?thesis
    by (auto simp: apply_rules_def Let_def intro: outcome_mono [OF MoveTasksToGhost_returns] split: option.split)
qed

lemma ScrapeDirectory_returns:
  assumes H: "paths_bounded H" and "0 < n" and "PATH_MAX < n + length path"
  shows "outcome scrape_errors (ScrapeDirectory H n skipdir rules path) (\<lambda>m _. 0 \<le> m) k"
  using assms(2,3)
proof (induction n arbitrary: path k)
  case (Suc n)
  have throw: "Uncaught ''filesystem_error'' \<in> scrape_errors" by (simp add: scrape_errors_def)
  have entry: "outcome scrape_errors (visit_entry H (ScrapeDirectory H n skipdir rules) c m) (\<lambda>m _. 0 \<le> m) k"
    if "length path < PATH_MAX" "length path < length c" "0 \<le> m" for c m k
    using that Suc.prems throw
    by (auto simp: visit_entry_def outcome_sys_throws intro!: outcome_mono [OF Suc.IH] split: option.split)
  have "outcome scrape_errors (fold_m (visit_entry H (ScrapeDirectory H n skipdir rules)) ps m) (\<lambda>m _. 0 \<le> m) k'"
    if "length path < PATH_MAX" "\<forall>c \<in> set ps. length path < length c" "0 \<le> m" for ps m k'
    using that by (intro outcome_fold_m_inv) (auto intro: entry)
  moreover have "length path < PATH_MAX \<and> (\<forall>c \<in> set ps. length path < length c)" if "fst (directory_iterator H path k) = Some ps" for ps k
    using H that unfolding paths_bounded_def by (metis prod.collapse)
  ultimately show ?case using throw
    by (auto simp: outcome_sys_throws intro!: outcome_mono [OF apply_rules_returns] split: option.split)
qed simp

text \<open>
  C36: The walk over the control groups ends on every host whose paths are shorter than
  \<^verbatim>\<open>PATH_MAX\<close>, whatever the files contain and whatever the kernel answers: it returns a number that
  is not negative, or the process ends with an exception of the file system or of the conversion
  of a line, or with the check that a moved thread has its new scheduling class.
\<close>

theorem scrape_returns:
  assumes "paths_bounded H"
  shows "(\<exists>m k'. ScrapeCgroups H skipdir rules k = Ok (m, k') \<and> 0 \<le> m) \<or>
    (\<exists>e \<in> scrape_errors. ScrapeCgroups H skipdir rules k = Err e)"
  using ScrapeDirectory_returns [OF assms, of walk_fuel kCgroupPathPrefix skipdir rules k]
  by (auto simp: ScrapeCgroups_def outcome_iff walk_fuel_def kCgroupPathPrefix_def)


section \<open>A quiet host\<close>

text \<open>
  A description of a host on which only the agent moves threads: the scheduling class of every
  thread in a state of the kernel, the threads that still live, the files, the directories with
  their entries, and the threads of each control group that has a file of threads.
\<close>

record 'k quiet =
  class_of :: "'k \<Rightarrow> int \<Rightarrow> int"
  alive :: "int \<Rightarrow> bool"
  contents_of :: "string \<Rightarrow> string option"
  is_dir :: "string \<Rightarrow> bool"
  entries :: "string \<Rightarrow> string list"
  threads :: "string \<Rightarrow> int list option"

definition tasks_text :: "int list \<Rightarrow> string" where
  "tasks_text ts = concat (map (\<lambda>t. dec_int t @ [CHR 0x0A]) ts)"

definition quiet_classes :: "('k, 'z) os_scheme \<Rightarrow> 'k quiet \<Rightarrow> bool" where
  "quiet_classes H Q \<longleftrightarrow>
     (\<forall>t k. fst (sched_getscheduler H t k) = class_of Q k t \<and>
        class_of Q (snd (sched_getscheduler H t k)) = class_of Q k) \<and>
     (\<forall>t k. (fst (SchedTaskEnterGhost H t k) = 0 \<longleftrightarrow> alive Q t) \<and>
        class_of Q (snd (SchedTaskEnterGhost H t k)) =
          (if alive Q t then (class_of Q k)(t := SCHED_GHOST H) else class_of Q k)) \<and>
     (\<forall>f x k. class_of Q (snd (append_file H f x k)) = class_of Q k)"

definition quiet_files :: "('k, 'z) os_scheme \<Rightarrow> 'k quiet \<Rightarrow> bool" where
  "quiet_files H Q \<longleftrightarrow>
     (\<forall>f k. fst (read_file H f k) = contents_of Q f \<and> class_of Q (snd (read_file H f k)) = class_of Q k) \<and>
     (\<forall>f k. fst (fs_exists H f k) = Some (contents_of Q f \<noteq> None) \<and>
        class_of Q (snd (fs_exists H f k)) = class_of Q k) \<and>
     (\<forall>f k. fst (fs_is_directory H f k) = Some (is_dir Q f) \<and>
        class_of Q (snd (fs_is_directory H f k)) = class_of Q k) \<and>
     (\<forall>f k. is_dir Q f \<longrightarrow> fst (directory_iterator H f k) = Some (entries Q f) \<and>
        class_of Q (snd (directory_iterator H f k)) = class_of Q k) \<and>
     (\<forall>p. contents_of Q (path_append p ''tasks'') = map_option tasks_text (threads Q p)) \<and>
     (\<forall>p ts. threads Q p = Some ts \<longrightarrow> (\<forall>t \<in> set ts. 0 < t \<and> t < 2 ^ 31))"

text \<open>The control groups that the walk from a directory reaches, and the threads that a rule selects.\<close>

inductive group_in :: "'k quiet \<Rightarrow> string \<Rightarrow> string \<Rightarrow> string \<Rightarrow> bool" for Q skipdir where
  here: "p \<noteq> skipdir \<Longrightarrow> group_in Q skipdir p p"
| below: "p \<noteq> skipdir \<Longrightarrow> c \<in> set (entries Q p) \<Longrightarrow> is_dir Q c \<Longrightarrow> group_in Q skipdir c q \<Longrightarrow> group_in Q skipdir p q"

definition name_of :: "'k quiet \<Rightarrow> int \<Rightarrow> string" where
  "name_of Q t = (case contents_of Q (''/proc/'' @ dec_int t @ ''/comm'') of None \<Rightarrow> [] | Some s \<Rightarrow> s)"

definition matches :: "('k, 'z) os_scheme \<Rightarrow> 'k quiet \<Rightarrow> string \<Rightarrow> int \<Rightarrow> bool" where
  "matches H Q pat t \<longleftrightarrow> pat = ''*'' \<or> StrContains H (name_of Q t) pat"

definition selected :: "('k, 'z) os_scheme \<Rightarrow> 'k quiet \<Rightarrow> string \<Rightarrow> rules \<Rightarrow> int \<Rightarrow> bool" where
  "selected H Q skipdir rules t \<longleftrightarrow>
     (\<exists>p c pat ts. group_in Q skipdir kCgroupPathPrefix p \<and> (c, pat) \<in> set rules \<and>
        (let cgroup_name = drop (length kCgroupPathPrefix) p
         in cgroup_name = c \<or> StrContains H cgroup_name c) \<and>
        threads Q p = Some ts \<and> t \<in> set ts \<and> matches H Q pat t)"

section \<open>Sequences of moves\<close>

text \<open>
  The effect of looking at the threads \<open>ts\<close>, one after the other, on the scheduling classes, and
  the number of threads that change their class.
\<close>

definition entered :: "('k, 'z) os_scheme \<Rightarrow> 'k quiet \<Rightarrow> int list \<Rightarrow> (int \<Rightarrow> int) \<Rightarrow> int \<Rightarrow> int" where
  "entered H Q ts v = (\<lambda>t. if alive Q t \<and> t \<in> set ts then SCHED_GHOST H else v t)"

definition gained :: "('k, 'z) os_scheme \<Rightarrow> 'k quiet \<Rightarrow> int list \<Rightarrow> (int \<Rightarrow> int) \<Rightarrow> int" where
  "gained H Q ts v = int (card {t. alive Q t \<and> t \<in> set ts \<and> v t \<noteq> SCHED_GHOST H})"

definition adds :: "('k, 'z) os_scheme \<Rightarrow> 'k quiet \<Rightarrow> (int \<Rightarrow> ('k, int) sm) \<Rightarrow> int list \<Rightarrow> bool" where
  "adds H Q f ts \<longleftrightarrow>
     (\<forall>b k. outcome {} (f b)
        (\<lambda>r k'. r = b + gained H Q ts (class_of Q k) \<and> class_of Q k' = entered H Q ts (class_of Q k)) k)"

definition moves :: "('k, 'z) os_scheme \<Rightarrow> 'k quiet \<Rightarrow> ('k, int) sm \<Rightarrow> int list \<Rightarrow> bool" where
  "moves H Q m ts \<longleftrightarrow>
     (\<forall>k. outcome {} m
        (\<lambda>r k'. r = gained H Q ts (class_of Q k) \<and> class_of Q k' = entered H Q ts (class_of Q k)) k)"

lemma movesD:
  "moves H Q m ts \<Longrightarrow> class_of Q k = v \<Longrightarrow>
     outcome {} m (\<lambda>r k'. r = gained H Q ts v \<and> class_of Q k' = entered H Q ts v) k"
  by (auto simp: moves_def)

lemma addsD:
  "adds H Q f ts \<Longrightarrow> class_of Q k = v \<Longrightarrow>
     outcome {} (f b) (\<lambda>r k'. r = b + gained H Q ts v \<and> class_of Q k' = entered H Q ts v) k"
  by (auto simp: adds_def)

lemma entered_append: "entered H Q (xs @ ys) v = entered H Q ys (entered H Q xs v)"
  by (auto simp: entered_def)

lemma gained_append: "gained H Q (xs @ ys) v = gained H Q xs v + gained H Q ys (entered H Q xs v)"
proof -
  let ?A = "{t. alive Q t \<and> t \<in> set xs \<and> v t \<noteq> SCHED_GHOST H}"
  let ?B = "{t. alive Q t \<and> t \<in> set ys \<and> entered H Q xs v t \<noteq> SCHED_GHOST H}"
  have "{t. alive Q t \<and> t \<in> set (xs @ ys) \<and> v t \<noteq> SCHED_GHOST H} = ?A \<union> ?B"
    by (auto simp: entered_def)
  moreover have "finite ?A" "finite ?B" by (auto intro: finite_subset [of _ "set _"])
  moreover have "?A \<inter> ?B = {}" by (auto simp: entered_def)
  ultimately show ?thesis by (simp add: gained_def card_Un_disjoint)
qed

lemma entered_Nil [simp]: "entered H Q [] v = v" "gained H Q [] v = 0"
  by (auto simp: entered_def gained_def)

lemma adds_ret: "adds H Q ret []" "adds H Q (\<lambda>b. ret b) []"
  by (simp_all add: adds_def)

lemma adds_seq:
  assumes "adds H Q f xs" and "adds H Q g ys"
  shows "adds H Q (\<lambda>b. bnd (f b) g) (xs @ ys)"
  unfolding adds_def outcome_bnd
proof (intro allI)
  fix b k
  show "outcome {} (f b) (\<lambda>x. outcome {} (g x) (\<lambda>r k'. r = b + gained H Q (xs @ ys) (class_of Q k) \<and>
      class_of Q k' = entered H Q (xs @ ys) (class_of Q k))) k"
    by (rule outcome_mono [OF assms(1) [unfolded adds_def, rule_format]],
        rule outcome_mono [OF assms(2) [unfolded adds_def, rule_format]])
      (auto simp: gained_append entered_append)
qed

lemma adds_fold_m:
  "(\<And>x. x \<in> set xs \<Longrightarrow> adds H Q (f x) (g x)) \<Longrightarrow> adds H Q (fold_m f xs) (concat (map g xs))"
proof (induction xs)
  case Nil
  then show ?case by (simp add: adds_def)
next
  case (Cons x xs)
  then have "adds H Q (\<lambda>b. bnd (f x b) (fold_m f xs)) (g x @ concat (map g xs))" by (intro adds_seq) auto
  then show ?case by (simp add: adds_def)
qed

lemma adds_call: "moves H Q m ts \<Longrightarrow> adds H Q (\<lambda>b. bnd m (\<lambda>a. ret (b + a))) ts"
  unfolding adds_def moves_def outcome_bnd outcome_simps by (auto elim: outcome_mono)

lemma moves_start: "adds H Q f ts \<Longrightarrow> moves H Q (f 0) ts"
  unfolding adds_def moves_def by (drule spec [of _ 0]) simp

lemma moves_seq:
  assumes "moves H Q m xs" and "adds H Q g ys"
  shows "moves H Q (bnd m g) (xs @ ys)"
  unfolding moves_def outcome_bnd
proof (intro allI)
  fix k
  show "outcome {} m (\<lambda>x. outcome {} (g x) (\<lambda>r k'. r = gained H Q (xs @ ys) (class_of Q k) \<and>
      class_of Q k' = entered H Q (xs @ ys) (class_of Q k))) k"
    by (rule outcome_mono [OF assms(1) [unfolded moves_def, rule_format]],
        rule outcome_mono [OF assms(2) [unfolded adds_def, rule_format]])
      (auto simp: gained_append entered_append)
qed

section \<open>The code moves what the rules select\<close>

lemma dec_int_nonneg: "0 \<le> t \<Longrightarrow> dec_int t = dec_nat (nat t)"
  by (simp add: dec_int_def)

text \<open>Reading a printed thread number gives it back.\<close>

lemma stoi_dec_int:
  assumes "- (2 ^ 31) \<le> i" and "i < 2 ^ 31"
  shows "stoi (dec_int i) = Ok i"
proof -
  have digits: "takeWhile is_digit (dec_nat n) = dec_nat n" for n
    using dec_nat_digits [of n] by (simp add: takeWhile_eq_all_conv)
  obtain c cs where c: "dec_nat (nat i) = c # cs" by (cases "dec_nat (nat i)") auto
  with dec_nat_digits [of "nat i"] have "is_digit c" by simp
  with c have "strip_sign (dropWhile isspace_c (dec_nat (nat i))) = (False, dec_nat (nat i))"
    by (auto simp: strip_sign_def digit_not_space digit_not_sign)
  moreover have "\<not> isspace_c CHR ''-''" by (simp add: isspace_c_def)
  ultimately show ?thesis using assms
    by (auto simp: stoi_def dec_int_def Let_def digits strip_sign_def)
qed

lemma getlines_line: "CHR 0x0A \<notin> set l \<Longrightarrow> getlines (l @ CHR 0x0A # s) = l # getlines s"
  by (induction l) auto

lemma getlines_tasks_text: "getlines (tasks_text ts) = map dec_int ts"
proof (induction ts)
  case (Cons t ts)
  have "CHR 0x0A \<notin> set (dec_nat n)" for n using dec_nat_digits [of n] by (auto simp: is_digit_def)
  then have "CHR 0x0A \<notin> set (dec_int t)" by (auto simp: dec_int_def)
  with Cons show ?case by (simp add: tasks_text_def getlines_line)
qed (simp add: tasks_text_def)

lemma concat_filter: "concat (map (\<lambda>x. if P x then g x else []) xs) = concat (map g (filter P xs))"
  by (induction xs) simp_all

lemma fold_m_map: "fold_m f (map g xs) = fold_m (\<lambda>x. f (g x)) xs"
  by (induction xs) (rule ext; simp)+

lemma MoveToScheduler_quiet:
  assumes "quiet_classes H Q"
  shows "outcome {} (MoveToScheduler H t (SCHED_GHOST H))
    (\<lambda>b k'. b = (alive Q t \<and> class_of Q k t \<noteq> SCHED_GHOST H) \<and> class_of Q k' = entered H Q [t] (class_of Q k)) k"
  using assms by (auto simp: MoveToScheduler_def quiet_classes_def entered_def)

lemma GetTaskName_quiet:
  assumes "quiet_files H Q"
  shows "fst (GetTaskName H t k) = name_of Q t" and "class_of Q (snd (GetTaskName H t k)) = class_of Q k"
  using assms by (simp_all add: GetTaskName_def quiet_files_def name_of_def split: prod.split) (metis fst_conv, metis snd_conv)

lemma move_line_quiet:
  assumes H: "quiet_classes H Q" "quiet_files H Q" and t: "0 < t" "t < 2 ^ 31"
  shows "adds H Q (move_line H p pat (dec_int t)) (if matches H Q pat t then [t] else [])"
proof -
  have stoi: "stoi (dec_int t) = Ok t" using t by (intro stoi_dec_int) auto
  have one: "gained H Q [t] v = (if alive Q t \<and> v t \<noteq> SCHED_GHOST H then 1 else 0)" for v
  proof -
    have "{u. alive Q u \<and> u \<in> set [t] \<and> v u \<noteq> SCHED_GHOST H} =
        (if alive Q t \<and> v t \<noteq> SCHED_GHOST H then {t} else {})" by auto
    then show ?thesis by (simp add: gained_def)
  qed
  have log: "class_of Q (snd (append_file H f x k)) = class_of Q k" for f x k
    using H(1) by (simp add: quiet_classes_def)
  show ?thesis
    unfolding adds_def
    by (auto simp: move_line_def stoi GetTaskName_quiet [OF H(2)] matches_def one log
        intro!: outcome_mono [OF MoveToScheduler_quiet [OF H(1)]])
qed

text \<open>The threads of a group that a pattern matches, in the order of the file.\<close>

definition in_group :: "('k, 'z) os_scheme \<Rightarrow> 'k quiet \<Rightarrow> string \<Rightarrow> string \<Rightarrow> int list" where
  "in_group H Q p pat = (case threads Q p of None \<Rightarrow> [] | Some ts \<Rightarrow> filter (matches H Q pat) ts)"

lemma MoveTasksToGhost_quiet:
  assumes H: "quiet_classes H Q" "quiet_files H Q"
  shows "moves H Q (MoveTasksToGhost H p pat) (in_group H Q p pat)"
proof -
  let ?f = "path_append p ''tasks''"
  have r: "fst (fs_exists H ?f k) = Some (threads Q p \<noteq> None)" "class_of Q (snd (fs_exists H ?f k)) = class_of Q k"
    "fst (read_file H ?f k) = map_option tasks_text (threads Q p)" "class_of Q (snd (read_file H ?f k)) = class_of Q k" for k
    using H(2) by (simp_all add: quiet_files_def)
  show ?thesis
  proof (cases "threads Q p")
    case None
    then show ?thesis
      by (simp add: moves_def MoveTasksToGhost_def Let_def outcome_sys_throws r in_group_def)
  next
    case (Some ts)
    with H(2) have ts: "\<forall>t \<in> set ts. 0 < t \<and> t < 2 ^ 31" by (simp add: quiet_files_def)
    let ?g = "\<lambda>t. if matches H Q pat t then [t] else []"
    have "adds H Q (fold_m (\<lambda>t. move_line H p pat (dec_int t)) ts) (concat (map ?g ts))"
      using ts by (intro adds_fold_m move_line_quiet H) auto
    then have "moves H Q (fold_m (move_line H p pat) (map dec_int ts) 0) (concat (map ?g ts))"
      unfolding fold_m_map by (rule moves_start)
    moreover have "concat (map ?g ts) = filter (matches H Q pat) ts" by (induction ts) auto
    ultimately have "moves H Q (fold_m (move_line H p pat) (map dec_int ts) 0) (in_group H Q p pat)"
      by (simp add: in_group_def Some)
    note fold = movesD [OF this]
    show ?thesis unfolding moves_def
      by (auto simp: MoveTasksToGhost_def Let_def outcome_sys_throws r Some getlines_tasks_text intro!: fold)
  qed
qed

text \<open>The patterns that apply to a group, in the order in which the code tries them.\<close>

definition patterns :: "('k, 'z) os_scheme \<Rightarrow> rules \<Rightarrow> string \<Rightarrow> string list" where
  "patterns H rules cg =
     (case map_of rules cg of None \<Rightarrow> [] | Some pat \<Rightarrow> [pat]) @
     map snd (filter (\<lambda>(c, _). StrContains H cg c) rules)"

lemma apply_rules_quiet:
  assumes H: "quiet_classes H Q" "quiet_files H Q" and p: "length kCgroupPathPrefix \<le> length p"
  shows "moves H Q (apply_rules H p rules)
    (concat (map (in_group H Q p) (patterns H rules (drop (length kCgroupPathPrefix) p))))"
proof -
  let ?cg = "drop (length kCgroupPathPrefix) p"
  let ?first = "case map_of rules ?cg of None \<Rightarrow> ret 0 | Some pat \<Rightarrow> MoveTasksToGhost H p pat"
  let ?g = "\<lambda>(c, pat). if StrContains H ?cg c then in_group H Q p pat else []"
  have "moves H Q (ret 0) []" by (simp add: moves_def)
  then have "moves H Q ?first (concat (map (in_group H Q p) (case map_of rules ?cg of None \<Rightarrow> [] | Some pat \<Rightarrow> [pat])))"
    by (simp add: MoveTasksToGhost_quiet [OF H] split: option.split)
  moreover have "adds H Q (apply_rule H p ?cg r) (?g r)" for r
    by (cases r) (auto simp: apply_rule_def adds_ret intro!: adds_call MoveTasksToGhost_quiet H)
  then have "adds H Q (fold_m (apply_rule H p ?cg) rules) (concat (map ?g rules))" by (intro adds_fold_m)
  moreover have "concat (map ?g rules) =
      concat (map (in_group H Q p) (map snd (filter (\<lambda>(c, _). StrContains H ?cg c) rules)))"
    by (induction rules) auto
  ultimately show ?thesis
    using p moves_seq by (fastforce simp: apply_rules_def Let_def patterns_def)
qed

text \<open>The threads that the walk looks at, in order.\<close>

fun looked_at :: "('k, 'z) os_scheme \<Rightarrow> 'k quiet \<Rightarrow> nat \<Rightarrow> string \<Rightarrow> rules \<Rightarrow> string \<Rightarrow> int list" where
  "looked_at H Q 0 skipdir rules p = []"
| "looked_at H Q (Suc n) skipdir rules p =
     (if skipdir = p then []
      else concat (map (in_group H Q p) (patterns H rules (drop (length kCgroupPathPrefix) p))) @
        concat (map (looked_at H Q n skipdir rules) (filter (is_dir Q) (entries Q p))))"

lemma entries_longer:
  assumes "paths_bounded H" and "quiet_files H Q" and "is_dir Q p"
  shows "length p < PATH_MAX" and "c \<in> set (entries Q p) \<Longrightarrow> length p < length c"
  using assms unfolding paths_bounded_def quiet_files_def by (metis prod.collapse)+

lemma visit_entry_quiet:
  assumes "quiet_files H Q" and "is_dir Q c \<Longrightarrow> moves H Q (scrape c) ts"
  shows "adds H Q (visit_entry H scrape c) (if is_dir Q c then ts else [])"
proof -
  have r: "fst (fs_is_directory H c k) = Some (is_dir Q c)" "class_of Q (snd (fs_is_directory H c k)) = class_of Q k" for k
    using assms(1) by (simp_all add: quiet_files_def)
  show ?thesis
  proof (cases "is_dir Q c")
    case True
    then show ?thesis
      by (auto simp: adds_def visit_entry_def outcome_sys_throws r
          intro!: outcome_mono [OF movesD [OF assms(2) [OF True]]])
  qed (simp add: adds_def visit_entry_def outcome_sys_throws r)
qed

lemma ScrapeDirectory_quiet:
  assumes H: "quiet_classes H Q" "quiet_files H Q" "paths_bounded H"
    and "0 < n" "PATH_MAX < n + length p" "length kCgroupPathPrefix \<le> length p" "is_dir Q p"
  shows "moves H Q (ScrapeDirectory H n skipdir rules p) (looked_at H Q n skipdir rules p)"
  using assms(4-)
proof (induction n arbitrary: p)
  case (Suc n)
  let ?self = "concat (map (in_group H Q p) (patterns H rules (drop (length kCgroupPathPrefix) p)))"
  let ?sub = "concat (map (\<lambda>c. if is_dir Q c then looked_at H Q n skipdir rules c else []) (entries Q p))"
  have r: "fst (directory_iterator H p k) = Some (entries Q p)"
    "class_of Q (snd (directory_iterator H p k)) = class_of Q k" for k
    using H(2) Suc.prems by (simp_all add: quiet_files_def)
  have "moves H Q (ScrapeDirectory H n skipdir rules c) (looked_at H Q n skipdir rules c)"
    if "c \<in> set (entries Q p)" "is_dir Q c" for c
    using entries_longer(1) [OF H(3,2) Suc.prems(4)] entries_longer(2) [OF H(3,2) Suc.prems(4) that(1)] that(2) Suc.prems
    by (intro Suc.IH) auto
  then have "adds H Q (fold_m (visit_entry H (ScrapeDirectory H n skipdir rules)) (entries Q p)) ?sub"
    by (intro adds_fold_m visit_entry_quiet H)
  note sub = addsD [OF this]
  have "adds H Q (\<lambda>m. bnd (sys_throws (directory_iterator H p)) (\<lambda>files.
      fold_m (visit_entry H (ScrapeDirectory H n skipdir rules)) files m)) ?sub"
    unfolding adds_def outcome_bnd outcome_sys_throws r option.case by (intro allI sub r)
  from moves_seq [OF apply_rules_quiet [OF H(1,2) Suc.prems(3)] this]
  have "moves H Q (bnd (apply_rules H p rules) (\<lambda>m. bnd (sys_throws (directory_iterator H p)) (\<lambda>files.
      fold_m (visit_entry H (ScrapeDirectory H n skipdir rules)) files m))) (?self @ ?sub)" .
  moreover have "?sub = concat (map (looked_at H Q n skipdir rules) (filter (is_dir Q) (entries Q p)))"
    by (rule concat_filter)
  ultimately show ?case by (simp add: moves_def)
qed simp

inductive_simps group_in_from: "group_in Q skipdir p q"

lemma set_patterns:
  assumes "distinct (map fst rules)"
  shows "pat \<in> set (patterns H rules cg) \<longleftrightarrow> (\<exists>c. (c, pat) \<in> set rules \<and> (cg = c \<or> StrContains H cg c))"
  using map_of_eq_Some_iff [OF assms, of cg] by (force simp: patterns_def split: option.split)

lemma set_looked_at:
  assumes H: "quiet_files H Q" "paths_bounded H"
    and "0 < n" "PATH_MAX < n + length p" "is_dir Q p"
  shows "t \<in> set (looked_at H Q n skipdir rules p) \<longleftrightarrow>
    (\<exists>q. group_in Q skipdir p q \<and>
       (\<exists>pat \<in> set (patterns H rules (drop (length kCgroupPathPrefix) q)). t \<in> set (in_group H Q q pat)))"
  using assms(3-)
proof (induction n arbitrary: p)
  case (Suc n)
  have "t \<in> set (looked_at H Q n skipdir rules c) \<longleftrightarrow>
    (\<exists>q. group_in Q skipdir c q \<and>
       (\<exists>pat \<in> set (patterns H rules (drop (length kCgroupPathPrefix) q)). t \<in> set (in_group H Q q pat)))"
    if "c \<in> set (entries Q p)" "is_dir Q c" for c
    using entries_longer(1) [OF H(2,1) Suc.prems(3)] entries_longer(2) [OF H(2,1) Suc.prems(3) that(1)] that(2) Suc.prems
    by (intro Suc.IH) auto
  then show ?case
    by (subst group_in_from) (auto simp: group_in_from [of _ _ p])
qed simp

lemma looked_at_selected:
  assumes "quiet_files H Q" "paths_bounded H" "is_dir Q kCgroupPathPrefix" "distinct (map fst rules)"
  shows "t \<in> set (looked_at H Q walk_fuel skipdir rules kCgroupPathPrefix) \<longleftrightarrow> selected H Q skipdir rules t"
proof -
  have "t \<in> set (looked_at H Q walk_fuel skipdir rules kCgroupPathPrefix) \<longleftrightarrow>
    (\<exists>q. group_in Q skipdir kCgroupPathPrefix q \<and>
       (\<exists>pat \<in> set (patterns H rules (drop (length kCgroupPathPrefix) q)). t \<in> set (in_group H Q q pat)))"
    using assms by (intro set_looked_at) (auto simp: walk_fuel_def kCgroupPathPrefix_def)
  also have "\<dots> \<longleftrightarrow> selected H Q skipdir rules t"
    by (auto simp: selected_def Let_def set_patterns [OF assms(4)] in_group_def Bex_def split: option.splits)
      (metis option.distinct(1) option.inject)+
  finally show ?thesis .
qed

lemma ScrapeCgroups_quiet:
  assumes "quiet_classes H Q" "quiet_files H Q" "paths_bounded H" "is_dir Q kCgroupPathPrefix" "distinct (map fst rules)"
  shows "\<exists>k'. ScrapeCgroups H skipdir rules k =
      Ok (int (card {t. alive Q t \<and> selected H Q skipdir rules t \<and> class_of Q k t \<noteq> SCHED_GHOST H}), k') \<and>
    class_of Q k' = (\<lambda>t. if alive Q t \<and> selected H Q skipdir rules t then SCHED_GHOST H else class_of Q k t)"
proof -
  have "moves H Q (ScrapeCgroups H skipdir rules) (looked_at H Q walk_fuel skipdir rules kCgroupPathPrefix)"
    unfolding ScrapeCgroups_def using assms
    by (intro ScrapeDirectory_quiet) (auto simp: walk_fuel_def)
  then show ?thesis
    by (auto simp: moves_def outcome_iff gained_def entered_def looked_at_selected [OF assms(2-)])
qed

text \<open>
  C12: On a host where nothing else moves threads during the walk, the walk moves to ghOSt exactly
  the live threads that some rule selects: those of a control group below the root whose path
  contains the first pattern of the rule, outside the skipped directory, and whose name contains
  the second.  No other thread changes its scheduling class, the number returned is the number of
  threads that did, and a second walk moves nothing.
\<close>

theorem scrape_moves_selected:
  assumes "quiet_classes H Q" and "quiet_files H Q" and "paths_bounded H"
    and "is_dir Q kCgroupPathPrefix" and "distinct (map fst rules)"
  shows "\<exists>k' k''. ScrapeCgroups H skipdir rules k =
      Ok (int (card {t. alive Q t \<and> selected H Q skipdir rules t \<and> class_of Q k t \<noteq> SCHED_GHOST H}), k') \<and>
    class_of Q k' = (\<lambda>t. if alive Q t \<and> selected H Q skipdir rules t then SCHED_GHOST H else class_of Q k t) \<and>
    ScrapeCgroups H skipdir rules k' = Ok (0, k'') \<and> class_of Q k'' = class_of Q k'"
proof -
  obtain k' where 1: "ScrapeCgroups H skipdir rules k =
      Ok (int (card {t. alive Q t \<and> selected H Q skipdir rules t \<and> class_of Q k t \<noteq> SCHED_GHOST H}), k')"
    and v: "class_of Q k' = (\<lambda>t. if alive Q t \<and> selected H Q skipdir rules t then SCHED_GHOST H else class_of Q k t)"
    using ScrapeCgroups_quiet [OF assms] by blast
  have none: "{t. alive Q t \<and> selected H Q skipdir rules t \<and> class_of Q k' t \<noteq> SCHED_GHOST H} = {}"
    by (simp add: v)
  have same: "(\<lambda>t. if alive Q t \<and> selected H Q skipdir rules t then SCHED_GHOST H else class_of Q k' t) = class_of Q k'"
    by (auto simp: v)
  obtain k'' where "ScrapeCgroups H skipdir rules k' = Ok (0, k'')" "class_of Q k'' = class_of Q k'"
    using ScrapeCgroups_quiet [OF assms, of skipdir k'] unfolding none same by auto
  with 1 v show ?thesis by blast
qed

section \<open>A host\<close>

text \<open>
  A host with one control group below the root, which holds two threads, one of them about to
  end.  The state of the kernel is the scheduling class of every thread.
\<close>

definition demo_dir :: string where
  "demo_dir = ''/sys/fs/cgroup/cpu/mygroup1''"

definition demo_threads :: "string \<Rightarrow> int list option" where
  "demo_threads f = (if f = ''/sys/fs/cgroup/cpu/mygroup1/tasks'' then Some [7, 8] else None)"

definition demo_entries :: "string \<Rightarrow> string list" where
  "demo_entries p = (if p = kCgroupPathPrefix then [demo_dir] else [])"

definition demo_is_dir :: "string \<Rightarrow> bool" where
  "demo_is_dir p \<longleftrightarrow> p = kCgroupPathPrefix \<or> p = demo_dir"

definition demo_host :: "(int \<Rightarrow> int) os" where
  "demo_host =
     \<lparr>SCHED_GHOST = 18,
      sched_getaffinity = (\<lambda>t k. (Some [0], k)),
      sched_setscheduler = (\<lambda>t p k. (0, k(t := p))),
      sched_getscheduler = (\<lambda>t k. (k t, k)),
      SchedTaskEnterGhost = (\<lambda>t k. if t \<noteq> 8 then (0, k(t := 18)) else (- 1, k)),
      read_file = (\<lambda>f k. (map_option tasks_text (demo_threads f), k)),
      append_file = (\<lambda>f x k. ((), k)),
      fs_exists = (\<lambda>f k. (Some (demo_threads f \<noteq> None), k)),
      fs_is_directory = (\<lambda>f k. (Some (demo_is_dir f), k)),
      directory_iterator = (\<lambda>f k. (if demo_is_dir f then Some (demo_entries f) else None, k)),
      nanosleep = (\<lambda>d k. ((0, 0), k)),
      MonotonicNow = (\<lambda>k. (0, k)),
      StrContains = (\<lambda>h n. sublist n h)\<rparr>"

definition demo_quiet :: "(int \<Rightarrow> int) quiet" where
  "demo_quiet =
     \<lparr>class_of = (\<lambda>k. k), alive = (\<lambda>t. t \<noteq> 8), contents_of = (\<lambda>f. map_option tasks_text (demo_threads f)),
      is_dir = demo_is_dir, entries = demo_entries, threads = (\<lambda>p. demo_threads (path_append p ''tasks''))\<rparr>"

text \<open>The rules of \<^verbatim>\<open>agent_net.cc\<close>.\<close>

definition agent_rules :: rules where
  "agent_rules = [(''mygroup1'', ''*''), (''docker'', ''memcached'')]"

lemma demo_classes: "quiet_classes demo_host demo_quiet"
  by (auto simp: quiet_classes_def demo_host_def demo_quiet_def)

lemma demo_files: "quiet_files demo_host demo_quiet"
  by (auto simp: quiet_files_def demo_host_def demo_quiet_def demo_threads_def split: if_splits)

lemma demo_paths: "paths_bounded demo_host"
  by (auto simp: paths_bounded_def demo_host_def demo_is_dir_def demo_entries_def demo_dir_def
      kCgroupPathPrefix_def PATH_MAX_def split: if_splits)

lemma demo_selected: "selected demo_host demo_quiet [] agent_rules t \<longleftrightarrow> t = 7 \<or> t = 8"
proof
  assume "selected demo_host demo_quiet [] agent_rules t"
  then show "t = 7 \<or> t = 8"
    by (auto simp: selected_def demo_quiet_def demo_threads_def split: if_splits)
next
  assume t: "t = 7 \<or> t = 8"
  have "demo_dir \<noteq> []" "kCgroupPathPrefix \<noteq> []" by (simp_all add: demo_dir_def kCgroupPathPrefix_def)
  then have "group_in demo_quiet [] kCgroupPathPrefix demo_dir"
    by (intro group_in.below [OF _ _ _ group_in.here])
      (simp_all add: demo_quiet_def demo_entries_def demo_is_dir_def)
  moreover have "threads demo_quiet demo_dir = Some [7, 8]"
    by (simp add: demo_quiet_def demo_threads_def path_append_def demo_dir_def)
  moreover have "StrContains demo_host (drop (length kCgroupPathPrefix) demo_dir) ''mygroup1''"
    by (simp add: demo_host_def demo_dir_def kCgroupPathPrefix_def sublist_code)
  moreover have "(''mygroup1'', ''*'') \<in> set agent_rules" by (simp add: agent_rules_def)
  moreover have "matches demo_host demo_quiet ''*'' t" by (simp add: matches_def)
  moreover have "t \<in> set [7, 8]" using t by auto
  ultimately show "selected demo_host demo_quiet [] agent_rules t"
    unfolding selected_def Let_def by blast
qed

theorem scrape_returns_witness:
  "paths_bounded demo_host \<and>
   ((\<exists>m k'. ScrapeCgroups demo_host [] agent_rules (\<lambda>_. 0) = Ok (m, k') \<and> 0 \<le> m) \<or>
    (\<exists>e \<in> scrape_errors. ScrapeCgroups demo_host [] agent_rules (\<lambda>_. 0) = Err e))"
  using demo_paths scrape_returns [OF demo_paths] by blast

theorem scrape_moves_selected_witness:
  "\<exists>k' k''. ScrapeCgroups demo_host [] agent_rules (\<lambda>_. 0) = Ok (1, k') \<and>
     k' 7 = 18 \<and> k' 8 = 0 \<and> k' 9 = 0 \<and> ScrapeCgroups demo_host [] agent_rules k' = Ok (0, k'')"
proof -
  have q: "class_of demo_quiet k = k" "alive demo_quiet t \<longleftrightarrow> t \<noteq> 8" "SCHED_GHOST demo_host = 18"
    "is_dir demo_quiet = demo_is_dir" for k t
    by (simp_all add: demo_quiet_def demo_host_def)
  have "is_dir demo_quiet kCgroupPathPrefix" "distinct (map fst agent_rules)"
    by (simp_all add: q demo_is_dir_def agent_rules_def)
  from scrape_moves_selected [OF demo_classes demo_files demo_paths this, of "[]" "\<lambda>_. 0"]
  obtain k' k'' where
    1: "ScrapeCgroups demo_host [] agent_rules (\<lambda>_. 0) = Ok (int (card {t :: int. t \<noteq> 8 \<and> (t = 7 \<or> t = 8) \<and> (0 :: int) \<noteq> 18}), k')"
    and k': "k' = (\<lambda>t. if t \<noteq> 8 \<and> (t = 7 \<or> t = 8) then 18 else 0)"
    and 2: "ScrapeCgroups demo_host [] agent_rules k' = Ok (0, k'')"
    unfolding q demo_selected by blast
  have "{t :: int. t \<noteq> 8 \<and> (t = 7 \<or> t = 8) \<and> (0 :: int) \<noteq> 18} = {7}" by auto
  with 1 have "ScrapeCgroups demo_host [] agent_rules (\<lambda>_. 0) = Ok (1, k')" by simp
  moreover have "k' 7 = 18" "k' 8 = 0" "k' 9 = 0" by (simp_all add: k')
  ultimately show ?thesis using 2 by blast
qed

end
