(* ===== verification/Agent_Net.thy ===== *)
theory Agent_Net
  imports Net_Props Cgroup_Props
begin

text \<open>
  The process of the agent, \<^verbatim>\<open>ghost_agent/agent_net.cc\<close>, with the classes \<^verbatim>\<open>NetConfig\<close> and
  \<^verbatim>\<open>FullNetAgent\<close> of \<^verbatim>\<open>net_scheduler.h\<close>: the flags, the configuration that is made of them, the
  start and the end of the scheduler, the signal handler, and the loop that looks for new threads
  until the process is told to stop.  The fork of the agent process, the threads of the agents
  and the printing of the topology belong to the ghOSt library or only print.

  Shown: every accepted configuration starts a consistent scheduler on the CPUs and with the
  settings that the flags ask for; the pause between two walks ends; after a signal the loop stops.
\<close>

section \<open>Configuration\<close>

text \<open>A duration is a number of nanoseconds, or infinite.\<close>

datatype duration = Nanoseconds int | InfiniteDuration

record flags =
  FLAGS_globalcpu :: int
  FLAGS_ghost_cpus :: string
  FLAGS_enforce_affinity :: bool
  FLAGS_cgroup_period :: duration

definition default_flags :: flags where
  "default_flags =
     \<lparr>FLAGS_globalcpu = - 1, FLAGS_ghost_cpus = ''1-5'', FLAGS_enforce_affinity = True,
      FLAGS_cgroup_period = Nanoseconds (10 ^ 9)\<rparr>"

record 'c NetConfig =
  config_cpus :: 'c
  config_global_cpu :: nat
  config_enforce_affinity_mask :: bool

text \<open>The CPU of the global agent; the flag keeps the choice.\<close>

definition choose_globalcpu :: "('c, 'k) ghost \<Rightarrow> 'c \<Rightarrow> flags \<Rightarrow> (int \<times> flags) res" where
  "choose_globalcpu G ghost_cpus fl =
     (let globalcpu = FLAGS_globalcpu fl in
      if globalcpu < 0 then
        if globalcpu \<noteq> - 1 then Err (CheckFailed ''globalcpu == -1'')
        else (let globalcpu = int (cl_GetNthCpu G ghost_cpus 0)
              in Ok (globalcpu, fl\<lparr>FLAGS_globalcpu := globalcpu\<rparr>))
      else Ok (globalcpu, fl))"

definition ParseNetConfig :: "('c, 'k) ghost \<Rightarrow> flags \<Rightarrow> ('c NetConfig \<times> flags) res" where
  "ParseNetConfig G fl =
     rbind (ParseCpuStr G (FLAGS_ghost_cpus fl)) (\<lambda>ghost_cpus.
     if \<not> 1 < cl_Size G ghost_cpus then Err (CheckFailed ''ghost_cpus.Size() > 1'')
     else
       rbind (choose_globalcpu G ghost_cpus fl) (\<lambda>(globalcpu, fl').
       if \<not> cl_IsSet G ghost_cpus (nat globalcpu) then Err (CheckFailed ''ghost_cpus.IsSet(globalcpu)'')
       else Ok (\<lparr>config_cpus = ghost_cpus, config_global_cpu = nat globalcpu,
                 config_enforce_affinity_mask = FLAGS_enforce_affinity fl\<rparr>, fl')))"

section \<open>Start and end of the scheduler\<close>

definition SingleThreadNetScheduler ::
  "('c, 'k) ghost \<Rightarrow> 'c \<Rightarrow> nat \<Rightarrow> int list \<Rightarrow> bool \<Rightarrow> 'k \<Rightarrow> ('c, 'k) sched res" where
  "SingleThreadNetScheduler G cpulist global_cpu junk flag k = NetScheduler G cpulist global_cpu junk flag k"

definition FullNetAgent ::
  "('c, 'k) ghost \<Rightarrow> 'c NetConfig \<Rightarrow> int list \<Rightarrow> bool \<Rightarrow> 'k \<Rightarrow> ('c, 'k) sched res" where
  "FullNetAgent G config junk flag k =
     (case enclave_cpus G (config_cpus config) k of
        (l, k1) \<Rightarrow>
          rbind (SingleThreadNetScheduler G l (config_global_cpu config) junk flag k1) (\<lambda>s.
          rbind (steps
            [SetEnforceAffinityMask (config_enforce_affinity_mask config),
             kern (StartAgentTasks G),
             EnclaveReady G] s) (\<lambda>(_, s'). Ok s')))"

text \<open>The destructor; \<open>agents\<close> are the CPUs of the agents, in the order of the list.\<close>

definition delete_FullNetAgent :: "('c, 'k) ghost \<Rightarrow> nat list \<Rightarrow> ('c, 'k, unit) op" where
  "delete_FullNetAgent G agents =
     bnd ValidatePreExitState (\<lambda>_.
     bnd (gets global_cpuid) (\<lambda>g.
     bnd (lift_res (bring_front g agents)) (\<lambda>agents'. kern (TerminateAgentTasks G agents'))))"

section \<open>Sleeping\<close>

definition EINTR :: int where
  "EINTR = 4"

definition kMaxSleep :: int where
  "kMaxSleep = (2 ^ 63 - 1) * 10 ^ 9"

definition positive :: "duration \<Rightarrow> bool" where
  "positive d = (case d of Nanoseconds x \<Rightarrow> 0 < x | InfiniteDuration \<Rightarrow> True)"

definition at_once :: "duration \<Rightarrow> int" where
  "at_once d = (case d of Nanoseconds x \<Rightarrow> min x kMaxSleep | InfiniteDuration \<Rightarrow> kMaxSleep)"

definition shorter :: "duration \<Rightarrow> int \<Rightarrow> duration" where
  "shorter d x = (case d of Nanoseconds y \<Rightarrow> Nanoseconds (y - x) | InfiniteDuration \<Rightarrow> InfiniteDuration)"

fun SleepFor :: "('k, 'z) os_scheme \<Rightarrow> nat \<Rightarrow> duration \<Rightarrow> ('k, unit) sm" where
  "SleepFor H 0 d = fail OutOfFuel"
| "SleepFor H (Suc n) d =
     (if positive d then
        bnd (sys (nanosleep H (at_once d))) (\<lambda>(r, errno).
        if r = - 1 then CHECK ''errno == EINTR'' (errno = EINTR)
        else bnd (CHECK ''ret == 0'' (r = 0)) (\<lambda>_. SleepFor H n (shorter d (at_once d))))
      else ret ())"

section \<open>The main program\<close>

text \<open>
  The handler of SIGINT: the first signal sets the notification, every later one asks the library
  to end the process.
\<close>

record signals =
  notified :: bool
  first_sigint :: bool

definition sigint_handler :: "signals \<Rightarrow> bool \<times> signals" where
  "sigint_handler m =
     (if first_sigint m then (False, m\<lparr>first_sigint := False, notified := True\<rparr>) else (True, m))"

text \<open>The rules of the process, in the order in which the hash map is iterated.\<close>

definition containers_to_tasks_rules :: "rules \<Rightarrow> bool" where
  "containers_to_tasks_rules rules \<longleftrightarrow>
     rules = [(''mygroup1'', ''*''), (''docker'', ''memcached'')] \<or>
     rules = [(''docker'', ''memcached''), (''mygroup1'', ''*'')]"

text \<open>
  The loop of the process.  \<open>HasBeenNotified\<close> reads the notification from the state of the host,
  where a signal may set it at any time; \<open>m\<close> bounds the calls in one pause.
\<close>

fun main_loop ::
  "('k, 'z) os_scheme \<Rightarrow> ('k \<Rightarrow> bool) \<Rightarrow> nat \<Rightarrow> duration \<Rightarrow> string \<Rightarrow> rules \<Rightarrow> nat \<Rightarrow> ('k, unit) sm" where
  "main_loop H HasBeenNotified m period cwd rules 0 = fail OutOfFuel"
| "main_loop H HasBeenNotified m period cwd rules (Suc n) =
     bnd (gets HasBeenNotified) (\<lambda>b.
     if b then ret ()
     else
       bnd (ScrapeCgroups H cwd rules) (\<lambda>moved.
       bnd (SleepFor H m period) (\<lambda>_. main_loop H HasBeenNotified m period cwd rules n)))"

section \<open>Facts\<close>

lemma ParseNetConfig_Ok:
  assumes "cpulist_spec G" and "ParseNetConfig G fl = Ok (config, fl')"
  shows "1 < length (cl_elems G (config_cpus config))"
    and "config_global_cpu config \<in> set (cl_elems G (config_cpus config))"
    and "config_global_cpu config =
      (if FLAGS_globalcpu fl < 0 then cl_elems G (config_cpus config) ! 0 else nat (FLAGS_globalcpu fl))"
    and "ParseCpuStr G (FLAGS_ghost_cpus fl) = Ok (config_cpus config)"
    and "config_enforce_affinity_mask config = FLAGS_enforce_affinity fl"
    and "FLAGS_globalcpu fl' = int (config_global_cpu config)"
  using assms(2)
  by (auto simp: ParseNetConfig_def choose_globalcpu_def Let_def res_simps cpulist_simps [OF assms(1)]
      intro!: cpulist_simps(9) [OF assms(1)] split: if_splits)

text \<open>What the constructor leaves uninitialised does not matter once the mask is set.\<close>

lemma NetScheduler_later:
  "NetScheduler G l g junk flag k = Ok s \<Longrightarrow>
    NetScheduler G l g junk flag' k' = Ok (s\<lparr>enforce_affinity_mask := flag', kernel := k'\<rparr>)"
  by (auto simp: NetScheduler_def Let_def split: if_splits option.splits)

lemma leaves_mask [leaves_rules]:
  "leaves enforce_affinity_mask (kern f)" "leaves enforce_affinity_mask (cpu_state c)"
  "leaves enforce_affinity_mask (upd_cpu c h)"
  by (auto simp: leaves_def kern_def cpu_state_def upd_cpu_def modify_def bnd_def split: prod.splits if_splits)

lemma leaves_EnclaveReady:
  "leaves global_cpuid (EnclaveReady G)" "leaves enforce_affinity_mask (EnclaveReady G)"
  unfolding EnclaveReady_def by (intro leaves_rules; simp)+

lemma FullNetAgent_ok:
  assumes G: "cpulist_spec G" "agents_spec G (config_cpus config)" "\<forall>l k. fst (enclave_cpus G l k) = l"
    and cpu: "config_global_cpu config \<in> set (cl_elems G (config_cpus config))" and "length junk = kCpuHistLen"
  shows "\<exists>s. FullNetAgent G config junk flag k = Ok s \<and> agent_reachable G (config_cpus config) s \<and>
    tasks s = (\<lambda>_. None) \<and> global_cpuid s = config_global_cpu config \<and>
    enforce_affinity_mask s = config_enforce_affinity_mask config"
proof -
  let ?l = "config_cpus config" and ?b = "config_enforce_affinity_mask config"
  obtain k1 where k1: "enclave_cpus G ?l k = (?l, k1)" using G(3) by (metis prod.collapse)
  from cpu obtain s where s: "NetScheduler G ?l (config_global_cpu config) junk flag k1 = Ok s"
    and g: "global_cpuid s = config_global_cpu config"
    using cpulist_simps(2) [OF G(1)] by (auto simp: NetScheduler_def Let_def)
  obtain k2 where k2: "StartAgentTasks G (kernel s) = ((), k2)" by (metis prod.collapse unit.exhaust)
  define u where "u = s\<lparr>enforce_affinity_mask := ?b, kernel := k2\<rparr>"
  have new: "NetScheduler G ?l (config_global_cpu config) junk ?b k2 = Ok u"
    unfolding u_def by (rule NetScheduler_later [OF s])
  from EnclaveReady_ok [OF G(1,2) new assms(5)]
  obtain v where v: "EnclaveReady G u = Ok ((), v)" "tasks v = (\<lambda>_. None)" by (auto simp: wp_iff)
  with new assms(5) have "agent_reachable G ?l v" by (intro ready)
  moreover have "global_cpuid v = global_cpuid u" "enforce_affinity_mask v = ?b"
    using leaves_EnclaveReady [of G] v(1) by (auto simp: leaves_def u_def)
  moreover have "FullNetAgent G config junk flag k = Ok v"
    using v(1) by (simp add: FullNetAgent_def SingleThreadNetScheduler_def k1 s run_defs SetEnforceAffinityMask_def
        kern_def k2 u_def)
  ultimately show ?thesis using v g by (auto simp: u_def)
qed

text \<open>
  C13: Whatever the flags are and whatever the memory of the new scheduler contains, a configuration
  that the flags are accepted with starts the agent: its scheduler is a reachable and hence
  consistent state without tasks, on the CPUs that \<^verbatim>\<open>ghost_cpus\<close> lists, of which there are at least
  two; the global agent is on the CPU that \<^verbatim>\<open>globalcpu\<close> names, or on the first one of the list if
  the flag is negative, and that CPU is in the list; tasks are bound by their affinity as the flag
  says.  The flag of the global CPU then holds the choice.
\<close>

theorem startup_consistent:
  assumes "cpulist_spec G" and "\<forall>l. agents_spec G l" and "\<forall>l k. fst (enclave_cpus G l k) = l"
    and "ParseNetConfig G fl = Ok (config, fl')" and "length junk = kCpuHistLen"
  shows "\<exists>s l. FullNetAgent G config junk flag k = Ok s \<and> ParseCpuStr G (FLAGS_ghost_cpus fl) = Ok l \<and>
    agent_reachable G l s \<and> sched_ok G {} s \<and> cpus s = l \<and> tasks s = (\<lambda>_. None) \<and> 2 \<le> length (cl_elems G l) \<and>
    global_cpuid s \<in> set (cl_elems G l) \<and>
    global_cpuid s = (if FLAGS_globalcpu fl < 0 then cl_elems G l ! 0 else nat (FLAGS_globalcpu fl)) \<and>
    FLAGS_globalcpu fl' = int (global_cpuid s) \<and> enforce_affinity_mask s = FLAGS_enforce_affinity fl"
proof -
  let ?l = "config_cpus config"
  note c = ParseNetConfig_Ok [OF assms(1,4)]
  from assms(2) have a: "agents_spec G ?l" by simp
  obtain s where s: "FullNetAgent G config junk flag k = Ok s" "agent_reachable G ?l s" "tasks s = (\<lambda>_. None)"
    "global_cpuid s = config_global_cpu config" "enforce_affinity_mask s = config_enforce_affinity_mask config"
    using FullNetAgent_ok [OF assms(1) a assms(3) c(2) assms(5)] by blast
  have "sched_ok G {} s" "cpus s = ?l" using reachable_ok [OF s(2) assms(1) a] by simp_all
  moreover have "2 \<le> length (cl_elems G ?l)" using c(1) by simp
  ultimately show ?thesis using s c(2-6) by metis
qed

theorem startup_consistent_witness:
  "\<exists>s. FullNetAgent list_ghost \<lparr>config_cpus = [1, 2, 3], config_global_cpu = 1, config_enforce_affinity_mask = True\<rparr>
      (replicate 12 5) False usual = Ok s \<and>
    ParseNetConfig list_ghost (default_flags\<lparr>FLAGS_ghost_cpus := ''1-3''\<rparr>) =
      Ok (\<lparr>config_cpus = [1, 2, 3], config_global_cpu = 1, config_enforce_affinity_mask = True\<rparr>,
        default_flags\<lparr>FLAGS_ghost_cpus := ''1-3'', FLAGS_globalcpu := 1\<rparr>) \<and>
    global_cpuid s = 1 \<and> sched_ok list_ghost {} s \<and> enforce_affinity_mask s"
proof -
  let ?fl = "default_flags\<lparr>FLAGS_ghost_cpus := ''1-3''\<rparr>"
  have parse: "ParseNetConfig list_ghost ?fl =
    Ok (\<lparr>config_cpus = [1, 2, 3], config_global_cpu = 1, config_enforce_affinity_mask = True\<rparr>,
      default_flags\<lparr>FLAGS_ghost_cpus := ''1-3'', FLAGS_globalcpu := 1\<rparr>)"
    by (simp add: ParseNetConfig_def choose_globalcpu_def list_ghost_def default_flags_def four_def)
  have "\<forall>l. agents_spec list_ghost l" "\<forall>l k. fst (enclave_cpus list_ghost l k) = l"
    by (simp_all add: list_agents_spec) (simp add: list_ghost_def)
  from startup_consistent [OF list_cpulist_spec this parse, of "replicate 12 5" False usual]
  obtain s l where s: "FullNetAgent list_ghost
      \<lparr>config_cpus = [1, 2, 3], config_global_cpu = 1, config_enforce_affinity_mask = True\<rparr> (replicate 12 5) False usual = Ok s"
    "ParseCpuStr list_ghost (FLAGS_ghost_cpus ?fl) = Ok l" "sched_ok list_ghost {} s"
    "global_cpuid s = (if FLAGS_globalcpu ?fl < 0 then cl_elems list_ghost l ! 0 else nat (FLAGS_globalcpu ?fl))"
    "enforce_affinity_mask s = FLAGS_enforce_affinity ?fl"
    unfolding kCpuHistLen_def by (metis length_replicate)
  from s(2) have "l = [1, 2, 3]" by (simp add: list_ghost_def default_flags_def)
  then have "cl_elems list_ghost l = [1, 2, 3]" by (simp add: list_ghost_def four_def)
  with s parse show ?thesis by (simp add: default_flags_def)
qed

section \<open>The loop of the process\<close>

definition sleep_errors :: "cerror set" where
  "sleep_errors = {CheckFailed ''errno == EINTR'', CheckFailed ''ret == 0''}"

lemma SleepFor_returns:
  assumes "x \<le> int n * kMaxSleep"
  shows "outcome sleep_errors (SleepFor H (Suc n) (Nanoseconds x)) (\<lambda>_ _. True) k"
  using assms
proof (induction n arbitrary: x k)
  case (Suc n x k)
  let ?d = "Nanoseconds x"
  have "shorter ?d (at_once ?d) = Nanoseconds (x - min x kMaxSleep)" by (simp add: shorter_def at_once_def)
  moreover have "0 < kMaxSleep" by (simp add: kMaxSleep_def)
  then have "x - min x kMaxSleep \<le> int n * kMaxSleep"
    using Suc.prems by (cases "x \<le> kMaxSleep") (auto simp: algebra_simps)
  ultimately have "outcome sleep_errors (SleepFor H (Suc n) (shorter ?d (at_once ?d))) (\<lambda>_ _. True) k" for k
    using Suc.IH by simp
  then show ?case
    by (subst SleepFor.simps) (auto simp: sleep_errors_def simp del: SleepFor.simps split: prod.split)
qed (simp add: positive_def)

text \<open>
  A pause with the default period needs one call, and a period of up to 292 years does.
\<close>

lemma SleepFor_period:
  "x \<le> kMaxSleep \<Longrightarrow> outcome sleep_errors (SleepFor H 2 (Nanoseconds x)) (\<lambda>_ _. True) k"
  using SleepFor_returns [of x 1 H k] by (simp add: numeral_2_eq_2 del: SleepFor.simps)

text \<open>A signal interrupts a pause of any length at once.\<close>

lemma SleepFor_interrupted:
  "positive d \<Longrightarrow> nanosleep H (at_once d) k = ((- 1, EINTR), k') \<Longrightarrow> SleepFor H (Suc n) d k = Ok ((), k')"
  by (simp add: run_defs sys_def)

lemma main_loop_stops: "HasBeenNotified k \<Longrightarrow> main_loop H HasBeenNotified m period cwd rules (Suc n) k = Ok ((), k)"
  by (simp add: run_defs)

lemma sigint_once:
  "sigint_handler m = (b, m') \<Longrightarrow> first_sigint m \<Longrightarrow> \<not> b \<and> notified m' \<and> sigint_handler m' = (True, m')"
  by (auto simp: sigint_handler_def)

end
