(* ===== verification/Py_Lib.thy ===== *)
theory Py_Lib
  imports CLib
begin

text \<open>
  What the scripts of the orchestrator use of Python: white space and case of characters,
  \<^verbatim>\<open>strip\<close>, \<^verbatim>\<open>split\<close> and \<^verbatim>\<open>int\<close> on strings, the regular expression of \<^verbatim>\<open>common.is_mac\<close> and the class
  \<^verbatim>\<open>ipaddress.IPv4Network\<close> as far as \<^verbatim>\<open>common.is_ipv4\<close> needs it.  A string is a list of the
  characters with code points below 256, which is all that the commands of the scripts print.

  Shown: the two predicates accept exactly the addresses they are meant for, and reading a printed
  number gives it back.
\<close>

section \<open>Strings\<close>

definition isspace_py :: "char \<Rightarrow> bool" where
  "isspace_py c \<longleftrightarrow> isspace_c c \<or> (28 \<le> (of_char c :: nat) \<and> (of_char c :: nat) \<le> 31) \<or>
     (of_char c :: nat) = 133 \<or> (of_char c :: nat) = 160"

definition strip :: "string \<Rightarrow> string" where
  "strip s = rev (dropWhile isspace_py (rev (dropWhile isspace_py s)))"

fun py_split :: "char \<Rightarrow> string \<Rightarrow> string list" where
  "py_split d [] = [[]]"
| "py_split d (c # s) =
     (if c = d then [] # py_split d s
      else (case py_split d s of [] \<Rightarrow> [[c]] | l # ls \<Rightarrow> (c # l) # ls))"

definition lower_char :: "char \<Rightarrow> char" where
  "lower_char c =
     (let n = of_char c :: nat
      in if 65 \<le> n \<and> n \<le> 90 \<or> 192 \<le> n \<and> n \<le> 222 \<and> n \<noteq> 215 then char_of (n + 32) else c)"

definition lower :: "string \<Rightarrow> string" where
  "lower s = map lower_char s"

text \<open>\<^verbatim>\<open>int(s)\<close>: digits, in groups that single underscores may separate, with an optional sign.\<close>

definition py_int :: "string \<Rightarrow> int res" where
  "py_int s =
     (let t = strip s;
          neg = (t \<noteq> [] \<and> hd t = CHR ''-'');
          u = (if t \<noteq> [] \<and> (hd t = CHR ''-'' \<or> hd t = CHR ''+'') then tl t else t);
          groups = py_split (CHR ''_'') u;
          n = int (digits_val 0 (concat groups))
      in if (\<forall>g \<in> set groups. g \<noteq> [] \<and> list_all is_digit g) then Ok (if neg then - n else n)
         else Err (Uncaught ''ValueError''))"

section \<open>Addresses\<close>

definition is_hex :: "char \<Rightarrow> bool" where
  "is_hex c \<longleftrightarrow> is_digit c \<or> (97 \<le> (of_char c :: nat) \<and> (of_char c :: nat) \<le> 102)"

text \<open>
  The pattern \<^verbatim>\<open>(\1[0-9a-f]{2}){4}$\<close>, where \<^verbatim>\<open>\1\<close> is the separator \<open>d\<close>; the dollar sign matches at the
  end and before a newline at the end.
\<close>

definition at_end :: "string \<Rightarrow> bool" where
  "at_end s \<longleftrightarrow> s = [] \<or> s = [CHR 0x0A]"

fun mac_groups :: "char \<Rightarrow> nat \<Rightarrow> string \<Rightarrow> bool" where
  "mac_groups d 0 s = at_end s"
| "mac_groups d (Suc n) (c # x # y # s) = (c = d \<and> is_hex x \<and> is_hex y \<and> mac_groups d n s)"
| "mac_groups d (Suc n) _ = False"

definition mac_match :: "string \<Rightarrow> bool" where
  "mac_match s =
     (case s of
        x # y # d # s' \<Rightarrow>
          is_hex x \<and> is_hex y \<and> (d = CHR ''-'' \<or> d = CHR '':'') \<and> mac_groups d 5 (d # s')
      | _ \<Rightarrow> False)"

definition is_mac :: "string \<Rightarrow> bool" where
  "is_mac s = mac_match (lower s)"

text \<open>
  An octet of an address; \<open>zeros\<close> tells whether leading zeros are accepted, as before Python 3.9.5.
\<close>

definition parse_octet :: "bool \<Rightarrow> string \<Rightarrow> nat option" where
  "parse_octet zeros s =
     (if s = [] \<or> \<not> list_all is_digit s \<or> 3 < length s then None
      else if \<not> zeros \<and> s \<noteq> ''0'' \<and> hd s = CHR ''0'' then None
      else if 255 < digits_val 0 s then None
      else Some (digits_val 0 s))"

definition ip_from_string :: "bool \<Rightarrow> string \<Rightarrow> int option" where
  "ip_from_string zeros s =
     (case map (parse_octet zeros) (py_split (CHR ''.'') s) of
        [Some a, Some b, Some c, Some d] \<Rightarrow> Some (((int a * 256 + int b) * 256 + int c) * 256 + int d)
      | _ \<Rightarrow> None)"

text \<open>
  The length of the prefix that a mask has: its ones must come first.  A mask whose complement has
  the form is taken as a host mask.
\<close>

definition prefix_of_mask :: "int \<Rightarrow> nat option" where
  "prefix_of_mask m = find (\<lambda>p. m = (2 ^ p - 1) * 2 ^ (32 - p)) [0..<33]"

definition netmask_prefix :: "bool \<Rightarrow> string \<Rightarrow> nat option" where
  "netmask_prefix zeros s =
     (if s \<noteq> [] \<and> list_all is_digit s \<and> digits_val 0 s \<le> 32 then Some (digits_val 0 s)
      else if s \<noteq> [] \<and> list_all is_digit s then None
      else
        (case ip_from_string zeros s of
           None \<Rightarrow> None
         | Some m \<Rightarrow>
             (case prefix_of_mask m of
                Some p \<Rightarrow> Some p
              | None \<Rightarrow> prefix_of_mask (2 ^ 32 - 1 - m))))"

definition IPv4Network :: "bool \<Rightarrow> string \<Rightarrow> (int \<times> nat) option" where
  "IPv4Network zeros s =
     (case py_split (CHR ''/'') s of
        [a] \<Rightarrow> map_option (\<lambda>i. (i, 32)) (ip_from_string zeros a)
      | [a, m] \<Rightarrow>
          (case (ip_from_string zeros a, netmask_prefix zeros m) of
             (Some i, Some p) \<Rightarrow> if i mod 2 ^ (32 - p) = 0 then Some (i, p) else None
           | _ \<Rightarrow> None)
      | _ \<Rightarrow> None)"

definition is_ipv4 :: "bool \<Rightarrow> string \<Rightarrow> bool" where
  "is_ipv4 zeros s \<longleftrightarrow> IPv4Network zeros s \<noteq> None"

section \<open>Facts\<close>

lemma py_split_nonempty [simp]: "py_split d s \<noteq> []"
  by (cases s) (simp_all split: list.split)

lemma py_split_none: "d \<notin> set s \<Longrightarrow> py_split d s = [s]"
  by (induction s) auto

lemma py_split_sep: "d \<notin> set l \<Longrightarrow> py_split d (l @ d # s) = l # py_split d s"
  by (induction l) auto

lemma digit_not_space_py: "is_digit c \<Longrightarrow> \<not> isspace_py c"
  by (auto simp: isspace_py_def digit_not_space) (auto simp: is_digit_def)

lemma dropWhile_id: "s \<noteq> [] \<Longrightarrow> \<not> P (hd s) \<Longrightarrow> dropWhile P s = s"
  by (cases s) simp_all

lemma strip_id: "s \<noteq> [] \<Longrightarrow> \<not> isspace_py (hd s) \<Longrightarrow> \<not> isspace_py (last s) \<Longrightarrow> strip s = s"
  by (simp add: strip_def dropWhile_id hd_rev)

lemma list_all_dec_nat: "list_all is_digit (dec_nat n)"
  using dec_nat_digits by (simp add: list_all_iff)

lemma digit_of_dec_nat: "c \<in> set (dec_nat n) \<Longrightarrow> is_digit c"
  using dec_nat_digits by blast

lemma not_in_dec_nat: "\<not> is_digit c \<Longrightarrow> c \<notin> set (dec_nat n)"
  using digit_of_dec_nat by blast

text \<open>Reading a printed number gives it back.\<close>

lemma py_int_dec_nat: "py_int (dec_nat n) = Ok (int n)"
proof -
  have ends: "is_digit (hd (dec_nat n))" "is_digit (last (dec_nat n))"
    using digit_of_dec_nat [of _ n] by (simp_all add: hd_in_set)
  then have "strip (dec_nat n) = dec_nat n" by (simp add: strip_id digit_not_space_py)
  moreover have "CHR ''_'' \<notin> set (dec_nat n)" by (rule not_in_dec_nat) (simp add: is_digit_def)
  moreover have "hd (dec_nat n) \<noteq> CHR ''-''" "hd (dec_nat n) \<noteq> CHR ''+''"
    using ends(1) digit_not_sign by blast+
  ultimately show ?thesis by (simp add: py_int_def Let_def py_split_none list_all_dec_nat)
qed

lemma dec_nat_inj [simp]: "dec_nat m = dec_nat n \<longleftrightarrow> m = n"
  using digits_val_dec_nat by metis

lemma hd_dec_nat: "0 < n \<Longrightarrow> hd (dec_nat n) \<noteq> CHR ''0''"
proof (induction n rule: dec_nat.induct)
  case (1 n)
  have "digit_char d \<noteq> CHR ''0''" if "0 < d" "d < 10" for d
    using of_char_digit_char [OF that(2)] that(1) by auto
  with 1 show ?case by (subst dec_nat.simps) (auto simp: hd_append)
qed

lemma parse_octet_dec_nat:
  assumes "n < 256"
  shows "parse_octet zeros (dec_nat n) = Some n"
proof -
  have "length (dec_nat n) \<le> 3" using assms by (intro length_dec_nat_3) simp
  moreover have "dec_nat n = ''0'' \<or> hd (dec_nat n) \<noteq> CHR ''0''"
    using hd_dec_nat [of n] by (cases n) (simp_all add: dec_nat.simps [of 0] digit_char_def)
  ultimately show ?thesis using assms by (auto simp: parse_octet_def list_all_dec_nat)
qed

definition dotted :: "nat \<Rightarrow> nat \<Rightarrow> nat \<Rightarrow> nat \<Rightarrow> string" where
  "dotted a b c d = dec_nat a @ ''.'' @ dec_nat b @ ''.'' @ dec_nat c @ ''.'' @ dec_nat d"

lemma ip_from_dotted:
  assumes "a < 256" "b < 256" "c < 256" "d < 256"
  shows "ip_from_string zeros (dotted a b c d) = Some (((int a * 256 + int b) * 256 + int c) * 256 + int d)"
proof -
  have "CHR ''.'' \<notin> set (dec_nat n)" for n by (rule not_in_dec_nat) (simp add: is_digit_def)
  then have "py_split (CHR ''.'') (dotted a b c d) = [dec_nat a, dec_nat b, dec_nat c, dec_nat d]"
    by (simp add: dotted_def py_split_sep py_split_none)
  with assms show ?thesis by (simp add: ip_from_string_def parse_octet_dec_nat)
qed

lemma is_ipv4_dotted:
  assumes "a < 256" "b < 256" "c < 256" "d < 256"
  shows "is_ipv4 zeros (dotted a b c d)"
proof -
  have "CHR ''/'' \<notin> set (dec_nat n)" for n by (rule not_in_dec_nat) (simp add: is_digit_def)
  then have "py_split (CHR ''/'') (dotted a b c d) = [dotted a b c d]"
    by (intro py_split_none) (simp add: dotted_def)
  with assms show ?thesis by (simp add: is_ipv4_def IPv4Network_def ip_from_dotted)
qed

lemma dec_nat_small: "n < 10 \<Longrightarrow> dec_nat n = [digit_char n]"
  by (subst dec_nat.simps) simp

lemma digit_chars:
  "digit_char 0 = CHR ''0''" "digit_char 1 = CHR ''1''" "digit_char (Suc 0) = CHR ''1''" "digit_char 2 = CHR ''2''" "digit_char 3 = CHR ''3''" "digit_char 4 = CHR ''4''"
  "digit_char 5 = CHR ''5''" "digit_char 6 = CHR ''6''" "digit_char 7 = CHR ''7''" "digit_char 8 = CHR ''8''" "digit_char 9 = CHR ''9''"
  by (simp_all add: digit_char_def char_of_eq_iff)

text \<open>The groups of a hardware address.\<close>

definition hex_pair :: "string \<Rightarrow> bool" where
  "hex_pair p \<longleftrightarrow> length p = 2 \<and> list_all is_hex p"

lemma hex_pair_iff: "hex_pair p \<longleftrightarrow> (\<exists>x y. p = [x, y] \<and> is_hex x \<and> is_hex y)"
  by (auto simp: hex_pair_def numeral_2_eq_2 length_Suc_conv)

lemma mac_groups_iff:
  "mac_groups d n s \<longleftrightarrow>
     (\<exists>ps e. length ps = n \<and> list_all hex_pair ps \<and> at_end e \<and> s = concat (map ((#) d) ps) @ e)"
proof (induction d n s rule: mac_groups.induct)
  case (2 d n c x y s)
  show ?case
  proof
    assume "mac_groups d (Suc n) (c # x # y # s)"
    then have c: "c = d" "hex_pair [x, y]" and "mac_groups d n s" by (simp_all add: hex_pair_def)
    with 2 obtain ps e where "length ps = n" "list_all hex_pair ps" "at_end e" "s = concat (map ((#) d) ps) @ e"
      by auto
    with c show "\<exists>ps e. length ps = Suc n \<and> list_all hex_pair ps \<and> at_end e \<and>
        c # x # y # s = concat (map ((#) d) ps) @ e"
      by (intro exI [of _ "[x, y] # ps"] exI [of _ e]) simp
  next
    assume "\<exists>ps e. length ps = Suc n \<and> list_all hex_pair ps \<and> at_end e \<and>
        c # x # y # s = concat (map ((#) d) ps) @ e"
    then obtain p ps e where "hex_pair p" "length ps = n" "list_all hex_pair ps" "at_end e"
      "c # x # y # s = d # p @ concat (map ((#) d) ps) @ e"
      by (auto simp: length_Suc_conv)
    moreover from this(1,5) have "is_hex x" "is_hex y" "c = d" "s = concat (map ((#) d) ps) @ e"
      by (auto simp: hex_pair_iff)
    ultimately show "mac_groups d (Suc n) (c # x # y # s)" using 2 by auto
  qed
qed (auto simp: length_Suc_conv hex_pair_iff)

lemma is_mac_iff:
  "is_mac s \<longleftrightarrow>
     (\<exists>d p ps e. (d = CHR ''-'' \<or> d = CHR '':'') \<and> hex_pair p \<and> length ps = 5 \<and> list_all hex_pair ps \<and> at_end e \<and>
        lower s = p @ concat (map ((#) d) ps) @ e)"
proof -
  have "mac_match t \<longleftrightarrow> (\<exists>d p u. (d = CHR ''-'' \<or> d = CHR '':'') \<and> hex_pair p \<and> t = p @ u \<and> mac_groups d 5 u)" for t
  proof
    assume "mac_match t"
    then obtain x y d s' where "t = [x, y] @ d # s'" "is_hex x" "is_hex y" "d = CHR ''-'' \<or> d = CHR '':''" "mac_groups d 5 (d # s')"
      by (auto simp: mac_match_def split: list.splits)
    then show "\<exists>d p u. (d = CHR ''-'' \<or> d = CHR '':'') \<and> hex_pair p \<and> t = p @ u \<and> mac_groups d 5 u"
      by (intro exI [of _ d] exI [of _ "[x, y]"] exI [of _ "d # s'"]) (auto simp: hex_pair_def)
  next
    assume "\<exists>d p u. (d = CHR ''-'' \<or> d = CHR '':'') \<and> hex_pair p \<and> t = p @ u \<and> mac_groups d 5 u"
    then obtain d p u where d: "d = CHR ''-'' \<or> d = CHR '':''" and p: "hex_pair p" "t = p @ u" and u: "mac_groups d 5 u"
      by blast
    from p obtain x y where "t = x # y # u" "is_hex x" "is_hex y" by (auto simp: hex_pair_iff)
    moreover from u obtain u' where "u = d # u'"
      by (auto simp: mac_groups_iff length_Suc_conv numeral_eq_Suc)
    ultimately show "mac_match t" using d u by (auto simp: mac_match_def)
  qed
  then have "is_mac s \<longleftrightarrow> (\<exists>d p u. (d = CHR ''-'' \<or> d = CHR '':'') \<and> hex_pair p \<and> lower s = p @ u \<and> mac_groups d 5 u)"
    by (simp only: is_mac_def)
  also have "\<dots> \<longleftrightarrow> (\<exists>d p. (d = CHR ''-'' \<or> d = CHR '':'') \<and> hex_pair p \<and>
      (\<exists>ps e. length ps = 5 \<and> list_all hex_pair ps \<and> at_end e \<and> lower s = p @ concat (map ((#) d) ps) @ e))"
  proof -
    have "(\<exists>u. lower s = p @ u \<and> mac_groups d 5 u) \<longleftrightarrow>
      (\<exists>ps e. length ps = 5 \<and> list_all hex_pair ps \<and> at_end e \<and> lower s = p @ concat (map ((#) d) ps) @ e)" for d p
      unfolding mac_groups_iff by (rule iffI; elim exE conjE; intro exI conjI; (assumption | simp)?)
    then show ?thesis by simp
  qed
  finally show ?thesis by simp
qed

end
