(* ===== verification/Orchestrator.thy ===== *)
theory Orchestrator
  imports Agent_Monad Py_Lib "HOL-Library.AList"
begin

text \<open>
  The scripts that set up the experiments, \<^verbatim>\<open>orchestrator/src\<close>: the network ports, the start of
  containers with their network name spaces, the two applications and the main program.  Commands
  of the shell, files and time are the record \<open>shell\<close> of operations on an abstract state of the
  host; the model builds the same command lines as the scripts, in the same order, and branches on
  what the commands print.  \<^verbatim>\<open>exit()\<close> is the error \<open>Exit\<close> with the message printed before it, an
  exception is the error \<open>Uncaught\<close>.
\<close>

section \<open>Commands, \<^verbatim>\<open>common.py\<close>\<close>

record 'w shell =
  os_system :: "string \<Rightarrow> 'w \<Rightarrow> 'w"
  os_popen :: "string \<Rightarrow> 'w \<Rightarrow> string \<times> 'w"
  os_popen_unread :: "string \<Rightarrow> 'w \<Rightarrow> 'w"
  path_isfile :: "string \<Rightarrow> 'w \<Rightarrow> bool \<times> 'w"
  time_sleep :: "nat \<Rightarrow> 'w \<Rightarrow> 'w"
  octet_zeros :: bool

definition exit_with :: "string \<Rightarrow> ('w, 'a) sm" where
  "exit_with msg = fail (Exit msg)"

text \<open>The function \<^verbatim>\<open>run_local_cmd\<close> without and with the output of the command.\<close>

definition run_local_cmd :: "'w shell \<Rightarrow> string \<Rightarrow> ('w, unit) sm" where
  "run_local_cmd S cmd = modify (os_system S cmd)"

definition run_local_cmd_output :: "'w shell \<Rightarrow> string \<Rightarrow> ('w, string) sm" where
  "run_local_cmd_output S cmd = bnd (sys (os_popen S cmd)) (\<lambda>output. ret (strip output))"

definition get_port_ip :: "string \<Rightarrow> string" where
  "get_port_ip port_name = ''ifconfig '' @ port_name @ '' | grep \"inet \" | xargs | cut -d ' ' -f 2''"

definition get_port_ether :: "string \<Rightarrow> string" where
  "get_port_ether port_name = ''ifconfig '' @ port_name @ '' | grep \"ether \" | xargs | cut -d ' ' -f 2''"

definition get_container_port_ip :: "string \<Rightarrow> string \<Rightarrow> string" where
  "get_container_port_ip server_pid port_name =
     ''ip netns exec '' @ server_pid @ '' ifconfig '' @ port_name @ '' | grep \"inet \" | xargs | cut -d ' ' -f 2''"

definition get_container_port_ether :: "string \<Rightarrow> string \<Rightarrow> string" where
  "get_container_port_ether server_pid port_name =
     ''ip netns exec '' @ server_pid @ '' ifconfig '' @ port_name @ '' | grep \"ether \" | xargs | cut -d ' ' -f 2''"

definition list_kni_cmd :: string where
  "list_kni_cmd = ''ifconfig | grep vEth0_ | cut -d':' -f1 ''"

text \<open>The set of names that are printed, here without repetitions.\<close>

definition get_kni_ports :: "'w shell \<Rightarrow> ('w, string list) sm" where
  "get_kni_ports S =
     bnd (run_local_cmd_output S list_kni_cmd) (\<lambda>out.
       ret (remdups (filter (\<lambda>port. port \<noteq> []) (py_split (CHR 0x0A) out))))"

section \<open>Ports, \<^verbatim>\<open>ports.py\<close>\<close>

definition port_to_ip_mapping :: "nat \<Rightarrow> string \<times> string" where
  "port_to_ip_mapping index = (''vEth0_'' @ dec_nat index, ''192.167.10.'' @ dec_nat (index + 1))"

definition set_interface_ports :: "'w shell \<Rightarrow> (string \<times> string) list \<Rightarrow> ('w, unit) sm" where
  "set_interface_ports S kni_to_deploy =
     each (\<lambda>(kni_port, ip_addr_str). steps
       [run_local_cmd S (''ip addr add dev '' @ kni_port @ '' '' @ ip_addr_str),
        run_local_cmd S (''ifconfig '' @ kni_port @ '' up'')]) kni_to_deploy"

text \<open>The dictionary, in the order of insertion.\<close>

definition port_name_to_ip_map :: "nat \<Rightarrow> (string \<times> string) list" where
  "port_name_to_ip_map n_kni_ports =
     foldl (\<lambda>m i. case port_to_ip_mapping i of (k, v) \<Rightarrow> AList.update k v m) [] [0..<n_kni_ports]"

definition setup_virtual_tcp_interface :: "'w shell \<Rightarrow> nat \<Rightarrow> ('w, unit) sm" where
  "setup_virtual_tcp_interface S n_kni_ports =
     bnd (get_kni_ports S) (\<lambda>kni_ports_ifconfig.
     if length kni_ports_ifconfig \<noteq> 0 then exit_with ''Non zero KNI ports. Exiting''
     else
       (let m = port_name_to_ip_map n_kni_ports in
        if length (map snd m) \<noteq> length (remdups (map snd m)) then exit_with ''IP addresses not unique''
        else set_interface_ports S m))"

section \<open>Containers, \<^verbatim>\<open>docker.py\<close>\<close>

definition await_seconds :: nat where
  "await_seconds = 1"

definition sleep :: "'w shell \<Rightarrow> ('w, unit) sm" where
  "sleep S = modify (time_sleep S await_seconds)"

definition setup_container_port :: "'w shell \<Rightarrow> int \<Rightarrow> string \<Rightarrow> string \<Rightarrow> ('w, unit) sm" where
  "setup_container_port S docker_pid port_name port_ip_addr =
     (let pid = dec_int docker_pid in steps
       [run_local_cmd S (''ip link set '' @ port_name @ '' netns '' @ pid), sleep S,
        run_local_cmd S (''ip netns exec '' @ pid @ '' ifconfig '' @ port_name @ '' up''), sleep S,
        run_local_cmd S (''ip netns exec '' @ pid @ '' ifconfig '' @ port_name @ '' '' @ port_ip_addr), sleep S,
        run_local_cmd S (''ip netns exec '' @ pid @ '' ifconfig '' @ port_name @ '' promisc''), sleep S])"

text \<open>The link to the name space of the process, checked before and after it is made.\<close>

definition link_namespace :: "'w shell \<Rightarrow> int \<Rightarrow> ('w, unit) sm" where
  "link_namespace S docker_pid =
     (let proc_filepath = ''/proc/'' @ dec_int docker_pid @ ''/ns/net'';
          netns_filepath = ''/var/run/netns/'' @ dec_int docker_pid in
      bnd (sys (path_isfile S proc_filepath)) (\<lambda>b.
      if \<not> b then exit_with (''proc pid dir does not exist. '' @ proc_filepath)
      else
        bnd (steps [run_local_cmd S (''ln -sf '' @ proc_filepath @ '' '' @ netns_filepath), sleep S]) (\<lambda>_.
        bnd (sys (path_isfile S netns_filepath)) (\<lambda>b.
        if \<not> b then exit_with (''netns pid dir does not exist. '' @ netns_filepath) else ret ()))))"

definition setup_network_namespace :: "'w shell \<Rightarrow> int \<Rightarrow> string \<Rightarrow> ('w, string \<times> string) sm" where
  "setup_network_namespace S docker_pid port_name =
     bnd (link_namespace S docker_pid) (\<lambda>_.
     bnd (get_kni_ports S) (\<lambda>kni_ports.
     if port_name \<notin> set kni_ports then exit_with (''KNI '' @ port_name @ '' not up'')
     else
       bnd (run_local_cmd_output S (get_port_ip port_name)) (\<lambda>port_ip_addr.
       bnd (run_local_cmd_output S (get_port_ether port_name)) (\<lambda>port_eth_addr.
       if \<not> is_ipv4 (octet_zeros S) port_ip_addr then exit_with ''Port {} does not have an assigned IP addr''
       else if \<not> is_mac port_eth_addr then exit_with ''Port {} does not have an assigned ether addr''
       else
         bnd (setup_container_port S docker_pid port_name port_ip_addr) (\<lambda>_.
           ret (port_eth_addr, port_ip_addr))))))"

text \<open>The dictionary that describes a container; two entries are added by the caller.\<close>

record node =
  node_name :: string
  netns :: int
  node_pid :: int
  ip_addr :: string
  eth_addr :: string
  port_name :: string
  node_command :: string
  cpu_set :: "string option"
  node_port :: "string option"

text \<open>The addresses inside the container must be those of the port.\<close>

definition check_container ::
  "'w shell \<Rightarrow> int \<Rightarrow> string \<Rightarrow> string \<times> string \<Rightarrow> ('w, string \<times> string) sm" where
  "check_container S docker_pid port_nm = (\<lambda>(port_eth_addr, port_ip_addr).
     bnd (run_local_cmd_output S (get_container_port_ip (dec_int docker_pid) port_nm)) (\<lambda>container_port_ip_addr.
     bnd (run_local_cmd_output S (get_container_port_ether (dec_int docker_pid) port_nm)) (\<lambda>container_port_eth_addr.
     if container_port_ip_addr \<noteq> port_ip_addr
     then exit_with (''Incorrect IP within container: Container '' @ container_port_ip_addr @ '', Host '' @ port_ip_addr)
     else if container_port_eth_addr \<noteq> port_eth_addr
     then exit_with (''Incorrect Ether within container: Container '' @ container_port_eth_addr @ '', Host '' @ port_eth_addr)
     else ret (container_port_ip_addr, container_port_eth_addr))))"

definition docker_pid_cmd :: "string \<Rightarrow> string" where
  "docker_pid_cmd name = ''docker inspect -f {{.State.Pid}} '' @ name"

definition start_container :: "'w shell \<Rightarrow> string \<Rightarrow> string \<Rightarrow> string \<Rightarrow> ('w, node) sm" where
  "start_container S command port_nm name =
     bnd (steps [run_local_cmd S command, sleep S]) (\<lambda>_.
     bnd (run_local_cmd_output S (docker_pid_cmd name)) (\<lambda>out.
     bnd (lift_res (py_int out)) (\<lambda>docker_pid.
     bnd (setup_network_namespace S docker_pid port_nm) (\<lambda>addrs.
     bnd (check_container S docker_pid port_nm addrs) (\<lambda>(container_port_ip_addr, container_port_eth_addr).
       ret \<lparr>node_name = name, netns = docker_pid, node_pid = docker_pid, ip_addr = container_port_ip_addr,
            eth_addr = container_port_eth_addr, port_name = port_nm, node_command = command,
            cpu_set = None, node_port = None\<rparr>)))))"

definition route_cmd :: "node \<Rightarrow> node \<Rightarrow> string" where
  "route_cmd a b = ''ip netns exec '' @ dec_int (netns a) @ '' ip route add '' @ ip_addr b @ '' dev '' @ port_name a"

definition arp_cmd :: "node \<Rightarrow> node \<Rightarrow> string" where
  "arp_cmd a b = ''ip netns exec '' @ dec_int (netns a) @ '' arp -s '' @ ip_addr b @ '' '' @ eth_addr b"

definition connect :: "'w shell \<Rightarrow> node \<Rightarrow> node \<Rightarrow> ('w, unit) sm" where
  "connect S node_a node_b = steps
     [run_local_cmd S (route_cmd node_a node_b), run_local_cmd S (route_cmd node_b node_a),
      run_local_cmd S (arp_cmd node_a node_b), run_local_cmd S (arp_cmd node_b node_a)]"

definition dns :: "'w shell \<Rightarrow> node \<Rightarrow> node \<Rightarrow> ('w, unit) sm" where
  "dns S node_this node_other = steps
     [modify (os_popen_unread S (''docker exec -u root -it '' @ node_name node_this @ '' bash -c \"echo ''
        @ [CHR 0x27] @ ip_addr node_other @ '' '' @ node_name node_other @ [CHR 0x27] @ '' >> /etc/hosts\"'')),
      sleep S]"

definition number_of_running_processes :: "'w shell \<Rightarrow> ('w, int) sm" where
  "number_of_running_processes S =
     bnd (run_local_cmd_output S ''expr $(docker ps -a | wc -l) - 1'') (\<lambda>n_docker. lift_res (py_int n_docker))"

definition stop_all_docker_containers :: "'w shell \<Rightarrow> ('w, unit) sm" where
  "stop_all_docker_containers S = steps [run_local_cmd S ''docker stop $(docker ps -a -q)'', sleep S]"

definition remove_all_docker_containers :: "'w shell \<Rightarrow> ('w, unit) sm" where
  "remove_all_docker_containers S = steps [run_local_cmd S ''docker rm $(docker ps -a -q)'', sleep S]"

section \<open>Applications, \<^verbatim>\<open>cloudsuite.py\<close>\<close>

definition memcached_client_cmd :: "string \<Rightarrow> string \<Rightarrow> string" where
  "memcached_client_cmd name cpus =
     ''docker run -dit --name '' @ name @ '' --net none --cpuset-cpus '' @ cpus @
     '' -u root --privileged cloudsuite/data-caching:client bash''"

definition memcached_server_cmd :: "string \<Rightarrow> string \<Rightarrow> nat \<Rightarrow> nat \<Rightarrow> nat \<Rightarrow> string" where
  "memcached_server_cmd name cpus server_thread server_mem min_obj_sz =
     ''docker run --name '' @ name @ '' --net none --cpuset-cpus '' @ cpus @
     '' -d cloudsuite/data-caching:server -t '' @ dec_nat server_thread @ '' -m '' @ dec_nat server_mem @
     '' -n '' @ dec_nat min_obj_sz @ '' ''"

text \<open>A container is started and entered into the configuration of the experiment.\<close>

definition launch_node ::
  "'w shell \<Rightarrow> string \<Rightarrow> string \<Rightarrow> string \<Rightarrow> string \<Rightarrow> node list \<Rightarrow> ('w, node \<times> node list) sm" where
  "launch_node S command cpus port_nm name experiment_config =
     bnd (start_container S command port_nm name) (\<lambda>n.
       let n' = n\<lparr>cpu_set := Some cpus, node_port := Some port_nm\<rparr>
       in ret (n', experiment_config @ [n']))"

record memcached =
  client_cpu_set :: string
  client_port_name :: string
  client_name :: string
  server_list_cpu_set :: "string list"
  server_list_port_name :: "string list"
  server_list_name :: "string list"

definition n_servers :: nat where
  "n_servers = 4"

definition launch_server ::
  "'w shell \<Rightarrow> memcached \<Rightarrow> node \<Rightarrow> nat \<Rightarrow> node list \<Rightarrow> ('w, node list) sm" where
  "launch_server S self memcached_client i experiment_config =
     bnd (launch_node S
       (memcached_server_cmd (server_list_name self ! i) (server_list_cpu_set self ! i) 4 4096 550)
       (server_list_cpu_set self ! i) (server_list_port_name self ! i) (server_list_name self ! i) experiment_config)
     (\<lambda>(memcached_server, experiment_config').
     bnd (steps [connect S memcached_client memcached_server, dns S memcached_client memcached_server]) (\<lambda>_.
       ret experiment_config'))"

definition warmup_cmd :: "string \<Rightarrow> string" where
  "warmup_cmd client =
     ''docker exec -dit '' @ client @ '' /usr/src/memcached/memcached_client/loader -a '' @
     ''/usr/src/memcached/twitter_dataset/twitter_dataset_unscaled -o '' @
     ''/usr/src/memcached/twitter_dataset/twitter_dataset_30x -s '' @
     ''/usr/src/memcached/memcached_client/docker_servers.txt -w 4 -S 30 -D 4096 -j -T 1''"

definition assert_py :: "bool \<Rightarrow> ('w, unit) sm" where
  "assert_py b = (if b then ret () else fail (Uncaught ''AssertionError''))"

definition Memcached_launch :: "'w shell \<Rightarrow> memcached \<Rightarrow> node list \<Rightarrow> ('w, node list) sm" where
  "Memcached_launch S self experiment_config =
     bnd (launch_node S (memcached_client_cmd (client_name self) (client_cpu_set self)) (client_cpu_set self)
       (client_port_name self) (client_name self) experiment_config) (\<lambda>(memcached_client, experiment_config1).
     bnd (steps
       [assert_py (length (server_list_cpu_set self) = n_servers),
        assert_py (length (server_list_port_name self) = n_servers),
        assert_py (length (server_list_name self) = n_servers)]) (\<lambda>_.
     bnd (fold_m (launch_server S self memcached_client) [0..<n_servers] experiment_config1) (\<lambda>experiment_config2.
     bnd (run_local_cmd S (warmup_cmd (client_name self))) (\<lambda>_. ret experiment_config2))))"

definition websearch_client_cmd :: "string \<Rightarrow> string \<Rightarrow> string" where
  "websearch_client_cmd name cpus =
     ''docker run -dit --entrypoint /bin/bash --name '' @ name @ '' --cpuset-cpus '' @ cpus @
     '' --net none cloudsuite3/web-search:client ''"

definition websearch_server_cmd :: "string \<Rightarrow> string \<Rightarrow> nat \<Rightarrow> nat \<Rightarrow> string" where
  "websearch_server_cmd name cpus webserver_mem n_index_nodes =
     ''docker run -dit --name '' @ name @ '' --net none --cpuset-cpus '' @ cpus @
     '' cloudsuite3/web-search:server '' @ dec_nat webserver_mem @ ''g '' @ dec_nat n_index_nodes"

record websearch =
  ws_client_cpu_set :: string
  ws_client_port_name :: string
  ws_client_name :: string
  ws_server_cpu_set :: string
  ws_server_port_name :: string
  ws_server_name :: string

definition WebSearch_launch :: "'w shell \<Rightarrow> websearch \<Rightarrow> node list \<Rightarrow> ('w, node list) sm" where
  "WebSearch_launch S self experiment_config =
     bnd (launch_node S (websearch_server_cmd (ws_server_name self) (ws_server_cpu_set self) 12 1) (ws_server_cpu_set self)
       (ws_server_port_name self) (ws_server_name self) experiment_config) (\<lambda>(websearch_server, experiment_config1).
     bnd (launch_node S (websearch_client_cmd (ws_client_name self) (ws_client_cpu_set self)) (ws_client_cpu_set self)
       (ws_client_port_name self) (ws_client_name self) experiment_config1) (\<lambda>(websearch_client, experiment_config2).
     bnd (connect S websearch_server websearch_client) (\<lambda>_. ret experiment_config2)))"

section \<open>The experiment, \<^verbatim>\<open>run_experiment.py\<close>\<close>

definition get_number_of_engine_threads :: "'w shell \<Rightarrow> ('w, int) sm" where
  "get_number_of_engine_threads S =
     bnd (run_local_cmd_output S ''ps aux | grep \"./build/engine\" | grep -v \"grep\" | wc -l'')
       (\<lambda>out. lift_res (py_int out))"

definition n_kni_ports :: nat where
  "n_kni_ports = 10"

definition memcached_exp :: memcached where
  "memcached_exp =
     \<lparr>client_cpu_set = ''0,56-86'', client_port_name = ''vEth0_0'', client_name = ''dc-client'',
      server_list_cpu_set = [''1,12-14'', ''2,15-17'', ''3,18-20'', ''4,21-23''],
      server_list_port_name = map (\<lambda>i. ''vEth0_'' @ dec_nat i) [1..<5],
      server_list_name = map (\<lambda>i. ''dc-server'' @ dec_nat i) [1..<5]\<rparr>"

definition websearch_exp :: websearch where
  "websearch_exp =
     \<lparr>ws_client_cpu_set = ''6'', ws_client_port_name = ''vEth0_6'', ws_client_name = ''client'',
      ws_server_cpu_set = ''7,24-26'', ws_server_port_name = ''vEth0_5'', ws_server_name = ''server''\<rparr>"

text \<open>The result is the table that is written to the file of the experiment.\<close>

definition run_experiment :: "'w shell \<Rightarrow> ('w, node list) sm" where
  "run_experiment S =
     bnd (get_number_of_engine_threads S) (\<lambda>n_engine_threads.
     if n_engine_threads < 1 then exit_with ''Engine thread not running''
     else
       bnd (setup_virtual_tcp_interface S n_kni_ports) (\<lambda>_.
       bnd (number_of_running_processes S) (\<lambda>n_docker.
       if n_docker > 0 then exit_with ''Stop and remove all containers by running ../prune.sh''
       else
         bnd (Memcached_launch S memcached_exp []) (\<lambda>experiment_config.
         WebSearch_launch S websearch_exp experiment_config))))"

end
