(* ===== verification/Orch_Props.thy ===== *)
theory Orch_Props
  imports Orchestrator
begin

text \<open>
  What the scripts of the orchestrator do, for every behaviour of the shell.  The ports are set up
  with exactly the commands for their names and addresses; every container that an experiment
  records was checked to have a valid address, the same inside and outside; if the port of a
  container is not listed, the script exits after it has run the command of the container.
\<close>

section \<open>Ports\<close>

definition listed :: "'w shell \<Rightarrow> 'w \<Rightarrow> string list" where
  "listed S w =
     remdups (filter (\<lambda>port. port \<noteq> []) (py_split (CHR 0x0A) (strip (fst (os_popen S list_kni_cmd w)))))"

lemma get_kni_ports_eq: "get_kni_ports S w = Ok (listed S w, snd (os_popen S list_kni_cmd w))"
  by (simp add: get_kni_ports_def run_local_cmd_output_def listed_def run_defs split: prod.split)

lemma update_new: "k \<notin> fst ` set m \<Longrightarrow> AList.update k v m = m @ [(k, v)]"
  by (induction m) auto

lemma port_map_eq: "port_name_to_ip_map n = map port_to_ip_mapping [0..<n]"
proof (induction n)
  case (Suc n)
  have "''vEth0_'' @ dec_nat n \<notin> fst ` set (map port_to_ip_mapping [0..<n])"
    by (auto simp: port_to_ip_mapping_def)
  with Suc show ?case
    by (simp add: port_name_to_ip_map_def port_to_ip_mapping_def update_new)
qed (simp add: port_name_to_ip_map_def)

lemma ips_distinct: "distinct (map snd (map port_to_ip_mapping [0..<n]))"
  by (auto simp: distinct_map port_to_ip_mapping_def inj_on_def)

definition port_cmds :: "nat \<Rightarrow> string list" where
  "port_cmds i =
     [''ip addr add dev vEth0_'' @ dec_nat i @ '' 192.167.10.'' @ dec_nat (i + 1), ''ifconfig vEth0_'' @ dec_nat i @ '' up'']"

lemma set_interface_ports_eq:
  "set_interface_ports S (map port_to_ip_mapping is) w = Ok ((), fold (os_system S) (concat (map port_cmds is)) w)"
  by (induction "is" arbitrary: w)
    (simp_all add: set_interface_ports_def run_defs run_local_cmd_def port_to_ip_mapping_def port_cmds_def)

lemma ports_setup_eq:
  "setup_virtual_tcp_interface S n w =
     (if listed S w \<noteq> [] then Err (Exit ''Non zero KNI ports. Exiting'')
      else Ok ((), fold (os_system S) (concat (map port_cmds [0..<n])) (snd (os_popen S list_kni_cmd w))))"
proof -
  have "length (remdups (map snd (map port_to_ip_mapping [0..<n]))) = n"
    by (simp only: distinct_remdups_id [OF ips_distinct]) simp
  then show ?thesis
    by (simp add: setup_virtual_tcp_interface_def bnd_def get_kni_ports_eq port_map_eq set_interface_ports_eq
        exit_with_def fail_def)
qed

text \<open>
  C37: Setting up the network ports stops if the shell lists any port already; otherwise it runs, for
  every number below the number of ports and in this order, the command that gives the port its
  address and the command that brings it up, and nothing else.  The check that the addresses are
  different never fails.
\<close>

theorem ports_setup_commands:
  "setup_virtual_tcp_interface S n w =
     (if listed S w \<noteq> [] then Err (Exit ''Non zero KNI ports. Exiting'')
      else Ok ((), fold (os_system S) (concat (map port_cmds [0..<n])) (snd (os_popen S list_kni_cmd w))))"
  by (rule ports_setup_eq)

section \<open>Containers\<close>

text \<open>
  What was checked of a container that runs: its addresses are valid, and the shell printed them
  for the port and for the port inside the name space.
\<close>

definition printed :: "'w shell \<Rightarrow> string \<Rightarrow> string \<Rightarrow> bool" where
  "printed S cmd s \<longleftrightarrow> (\<exists>w. s = strip (fst (os_popen S cmd w)))"

definition port_address :: "'w shell \<Rightarrow> string \<Rightarrow> string \<Rightarrow> string \<Rightarrow> bool" where
  "port_address S port eth ip \<longleftrightarrow>
     is_ipv4 (octet_zeros S) ip \<and> is_mac eth \<and> printed S (get_port_ip port) ip \<and> printed S (get_port_ether port) eth"

definition verified :: "'w shell \<Rightarrow> node \<Rightarrow> bool" where
  "verified S n \<longleftrightarrow>
     port_address S (port_name n) (eth_addr n) (ip_addr n) \<and> netns n = node_pid n \<and>
     printed S (get_container_port_ip (dec_int (netns n)) (port_name n)) (ip_addr n) \<and>
     printed S (get_container_port_ether (dec_int (netns n)) (port_name n)) (eth_addr n)"

abbreviation described :: "node \<Rightarrow> string \<Rightarrow> string \<Rightarrow> string \<Rightarrow> bool" where
  "described n name port cpus \<equiv>
     node_name n = name \<and> port_name n = port \<and> node_port n = Some port \<and> cpu_set n = Some cpus"

lemma outcome_output [simp]:
  "outcome E (run_local_cmd_output S cmd) Q w = Q (strip (fst (os_popen S cmd w))) (snd (os_popen S cmd w))"
  by (simp add: run_local_cmd_output_def)

lemma outcome_exit [simp]: "outcome UNIV (exit_with m) Q w"
  by (simp add: exit_with_def)

text \<open>A first step whose result does not matter, and one whose checks matter.\<close>

lemma outcome_any: "outcome UNIV m (\<lambda>_ _. True) w"
  by (simp add: outcome_def split: sum.split)

lemma outcome_then: "(\<And>x t. outcome UNIV (f x) Q t) \<Longrightarrow> outcome UNIV (bnd m f) Q s"
  by (auto intro: outcome_mono [OF outcome_any])

lemma outcome_with:
  "outcome UNIV m P s \<Longrightarrow> (\<And>x t. P x t \<Longrightarrow> outcome UNIV (f x) Q t) \<Longrightarrow> outcome UNIV (bnd m f) Q s"
  by (auto elim: outcome_mono)

lemma output_printed: "outcome UNIV (run_local_cmd_output S cmd) (\<lambda>x _. printed S cmd x) w"
  by (auto simp: printed_def)

lemma setup_network_namespace_checks:
  "outcome UNIV (setup_network_namespace S pid p) (\<lambda>a _. port_address S p (fst a) (snd a)) w"
proof -
  have rest: "outcome UNIV (bnd (run_local_cmd_output S (get_port_ip p)) (\<lambda>ip.
      bnd (run_local_cmd_output S (get_port_ether p)) (\<lambda>eth.
      if \<not> is_ipv4 (octet_zeros S) ip then exit_with ''Port {} does not have an assigned IP addr''
      else if \<not> is_mac eth then exit_with ''Port {} does not have an assigned ether addr''
      else bnd (setup_container_port S pid p ip) (\<lambda>_. ret (eth, ip))))) (\<lambda>a _. port_address S p (fst a) (snd a)) w" for w
    by (rule outcome_with [OF output_printed], rule outcome_with [OF output_printed])
      (auto simp: port_address_def simp del: outcome_bnd intro!: outcome_then)
  show ?thesis
    unfolding setup_network_namespace_def by (rule outcome_then, rule outcome_then) (simp add: rest del: outcome_bnd)
qed

lemma check_container_checks:
  "outcome UNIV (check_container S pid p (eth, ip))
     (\<lambda>a _. a = (ip, eth) \<and> printed S (get_container_port_ip (dec_int pid) p) ip \<and>
        printed S (get_container_port_ether (dec_int pid) p) eth) w"
  unfolding check_container_def prod.case
  by (rule outcome_with [OF output_printed], rule outcome_with [OF output_printed]) auto

lemma start_container_checks:
  "outcome UNIV (start_container S cmd p name)
     (\<lambda>n _. verified S n \<and> node_name n = name \<and> port_name n = p) w"
  unfolding start_container_def
proof (rule outcome_then, rule outcome_then, rule outcome_then, rule outcome_with [OF setup_network_namespace_checks])
  fix pid addrs w
  assume "port_address S p (fst addrs) (snd addrs)"
  then obtain eth ip where "addrs = (eth, ip)" "port_address S p eth ip" by (cases addrs) auto
  then show "outcome UNIV (bnd (check_container S pid p addrs) (\<lambda>(ip, eth). ret \<lparr>node_name = name, netns = pid,
      node_pid = pid, ip_addr = ip, eth_addr = eth, port_name = p, node_command = cmd, cpu_set = None, node_port = None\<rparr>))
      (\<lambda>n _. verified S n \<and> node_name n = name \<and> port_name n = p) w"
    by (auto simp: verified_def simp del: outcome_bnd intro!: outcome_with [OF check_container_checks])
qed

lemma launch_node_checks:
  "outcome UNIV (launch_node S cmd cpus p name cfg)
     (\<lambda>r _. verified S (fst r) \<and> described (fst r) name p cpus \<and> snd r = cfg @ [fst r]) w"
  unfolding launch_node_def
  by (rule outcome_with [OF start_container_checks]) (auto simp: Let_def verified_def)

lemma launch_server_checks:
  "outcome UNIV (launch_server S self client i cfg)
     (\<lambda>cfg' _. \<exists>n. verified S n \<and> cfg' = cfg @ [n] \<and>
        described n (server_list_name self ! i) (server_list_port_name self ! i) (server_list_cpu_set self ! i)) w"
  unfolding launch_server_def
  by (rule outcome_with [OF launch_node_checks]) (auto intro!: outcome_then simp del: outcome_bnd)

text \<open>
  C38: If the start of the memcached application returns, the configuration of the experiment has
  five more entries: the client and then the four servers, each with the name, port and CPUs that
  were asked for, with a valid IPv4 address and hardware address, which the shell printed for the
  port of the host as well as for the port inside the name space of the container.
\<close>

theorem memcached_nodes_verified:
  assumes "Memcached_launch S self cfg w = Ok (cfg', w')"
  shows "\<exists>client servers. cfg' = cfg @ client # servers \<and>
    described client (client_name self) (client_port_name self) (client_cpu_set self) \<and> length servers = 4 \<and>
    (\<forall>i < 4. described (servers ! i) (server_list_name self ! i) (server_list_port_name self ! i)
       (server_list_cpu_set self ! i)) \<and>
    (\<forall>n \<in> set (client # servers). verified S n)"
proof -
  let ?P = "\<lambda>is cfg' w'. \<exists>client servers. cfg' = cfg @ client # servers \<and>
    described client (client_name self) (client_port_name self) (client_cpu_set self) \<and> length servers = length is \<and>
    (\<forall>i < length is. described (servers ! i) (server_list_name self ! i) (server_list_port_name self ! i)
       (server_list_cpu_set self ! i)) \<and>
    (\<forall>n \<in> set (client # servers). verified S n)"
  have loop: "outcome UNIV (fold_m (launch_server S self client) [0..<4] (cfg @ [client])) (?P [0..<4]) w"
    if c: "verified S client" "described client (client_name self) (client_port_name self) (client_cpu_set self)" for client w
  proof (rule outcome_fold_m)
    show "?P [] (cfg @ [client]) w" using c by auto
  next
    fix ys y zs b w
    assume "[0..<4] = ys @ y # zs" and b: "?P ys b w"
    then have "y = length ys" by (metis add_0 length_append nth_append_length nth_upt length_upt less_add_Suc1 list.size(4) add_Suc_right diff_zero)
    with b show "outcome UNIV (launch_server S self client y b) (?P (ys @ [y])) w"
      by (intro outcome_mono [OF launch_server_checks]) (force simp: nth_append less_Suc_eq)
  qed
  have "outcome UNIV (Memcached_launch S self cfg) (?P [0..<4]) w"
    unfolding Memcached_launch_def n_servers_def
    by (rule outcome_with [OF launch_node_checks], clarsimp simp del: outcome_bnd)
      (rule outcome_then, rule outcome_with [OF loop], auto intro!: outcome_then simp del: outcome_bnd)
  from outcome_Ok [OF this assms] show ?thesis by simp
qed

text \<open>A port that the shell does not list stops the script.\<close>

lemma unlisted_port_stops:
  assumes "\<And>w. p \<notin> set (listed S w)"
  shows "outcome UNIV (launch_node S cmd cpus p name cfg) (\<lambda>_ _. False) w"
proof -
  have "outcome UNIV (get_kni_ports S) (\<lambda>ps _. p \<notin> set ps) w" for w
    using assms by (simp add: outcome_def get_kni_ports_eq)
  note ports = this
  have ns: "outcome UNIV (setup_network_namespace S pid p) (\<lambda>_ _. False) w" for pid w
    unfolding setup_network_namespace_def by (rule outcome_then, rule outcome_with [OF ports]) simp
  have "outcome UNIV (start_container S cmd p name) (\<lambda>_ _. False) w"
    unfolding start_container_def
    by (rule outcome_then, rule outcome_then, rule outcome_then, rule outcome_with [OF ns]) simp
  then show ?thesis unfolding launch_node_def by (rule outcome_with) simp
qed

lemma experiment_needs_port_5:
  assumes "\<And>w. ''vEth0_5'' \<notin> set (listed S w)"
  shows "outcome UNIV (run_experiment S) (\<lambda>_ _. False) w"
proof -
  have "outcome UNIV (WebSearch_launch S websearch_exp cfg) (\<lambda>_ _. False) w" for cfg w
    unfolding WebSearch_launch_def
    by (rule outcome_with [OF unlisted_port_stops]) (simp_all add: websearch_exp_def assms)
  then show ?thesis
    unfolding run_experiment_def by (auto intro!: outcome_then simp del: outcome_bnd)
qed

section \<open>A shell\<close>

text \<open>
  A shell that keeps the commands it has run, on a host with an engine that has five ports, which
  are listed once any of them was brought up.
\<close>

definition demo_answer :: "string \<Rightarrow> string list \<Rightarrow> string" where
  "demo_answer cmd w =
     (if cmd = list_kni_cmd then
        (if w = [] then [] else concat (map (\<lambda>i. ''vEth0_'' @ dec_nat i @ [CHR 0x0A]) [0..<5]))
      else if take 2 cmd = ''do'' then ''100''
      else if take 2 cmd = ''ex'' then ''0''
      else if take 2 cmd = ''ps'' then ''1''
      else if count_list cmd (CHR ''r'') = 2 then ''192.167.10.1''
      else ''00:11:22:33:44:5a'')"

definition demo_shell :: "string list shell" where
  "demo_shell =
     \<lparr>os_system = (\<lambda>cmd w. w @ [cmd]), os_popen = (\<lambda>cmd w. (demo_answer cmd w, w)),
      os_popen_unread = (\<lambda>cmd w. w @ [cmd]), path_isfile = (\<lambda>f w. (True, w)), time_sleep = (\<lambda>n w. w),
      octet_zeros = False\<rparr>"

lemma listed_demo: "listed demo_shell w = (if w = [] then [] else [''vEth0_0'', ''vEth0_1'', ''vEth0_2'', ''vEth0_3'', ''vEth0_4''])"
proof (cases w)
  case (Cons x v)
  have five: "[0..<5] = [0, 1, 2, 3, 4 :: nat]" by (simp add: upt_rec)
  have "demo_answer list_kni_cmd w =
    ''vEth0_0'' @ [CHR 0x0A] @ ''vEth0_1'' @ [CHR 0x0A] @ ''vEth0_2'' @ [CHR 0x0A] @ ''vEth0_3'' @ [CHR 0x0A] @ ''vEth0_4'' @ [CHR 0x0A]"
    unfolding demo_answer_def five by (simp add: dec_nat.simps digit_chars Cons)
  then have "strip (demo_answer list_kni_cmd w) =
    ''vEth0_0'' @ [CHR 0x0A] @ ''vEth0_1'' @ [CHR 0x0A] @ ''vEth0_2'' @ [CHR 0x0A] @ ''vEth0_3'' @ [CHR 0x0A] @ ''vEth0_4''"
    by (simp add: strip_def isspace_py_def isspace_c_def)
  with Cons show ?thesis by (simp add: listed_def demo_shell_def)
qed (simp add: listed_def demo_shell_def demo_answer_def strip_def)

definition demo_ports :: "string list" where
  "demo_ports = [''vEth0_0'', ''vEth0_1'', ''vEth0_2'', ''vEth0_3'', ''vEth0_4'']"

lemma demo_answers:
  assumes "p \<in> set demo_ports"
  shows "demo_answer (get_port_ip p) w = ''192.167.10.1''" 
    "demo_answer (get_port_ether p) w = ''00:11:22:33:44:5a''" 
    "demo_answer (get_container_port_ip ''100'' p) w = ''192.167.10.1''" 
    "demo_answer (get_container_port_ether ''100'' p) w = ''00:11:22:33:44:5a''" 
    "demo_answer (docker_pid_cmd name) w = ''100''"
  using assms by (auto simp: demo_answer_def demo_ports_def list_kni_cmd_def get_port_ip_def get_port_ether_def
   docker_pid_cmd_def get_container_port_ip_def get_container_port_ether_def)

lemma demo_strip: "strip ''100'' = ''100''" "strip ''0'' = ''0''" "strip ''1'' = ''1''" "strip ''192.167.10.1'' = ''192.167.10.1''"
  "strip ''00:11:22:33:44:5a'' = ''00:11:22:33:44:5a''"
  by (simp_all add: strip_id isspace_py_def isspace_c_def)

lemma demo_ints: "py_int ''100'' = Ok 100" "py_int ''0'' = Ok 0" "py_int ''1'' = Ok 1" "dec_int 100 = ''100''"
  by (simp_all add: py_int_def demo_strip is_digit_def digits_val_def digit_val_def dec_int_def dec_nat.simps digit_chars)

lemma demo_ip: "is_ipv4 z ''192.167.10.1''"
  using is_ipv4_dotted [of 192 167 10 1 z] by (simp add: dotted_def dec_nat.simps digit_chars)

lemma demo_mac: "is_mac ''00:11:22:33:44:5a''"
  by (simp add: is_mac_def lower_def lower_char_def mac_match_def is_hex_def is_digit_def numeral_eq_Suc at_end_def)

lemma demo_start:
  assumes "p \<in> set demo_ports" 
  shows "\<exists>u. start_container demo_shell cmd p name w =
    Ok (\<lparr>node_name = name, netns = 100, node_pid = 100, ip_addr = ''192.167.10.1'', eth_addr = ''00:11:22:33:44:5a'',
          port_name = p, node_command = cmd, cpu_set = None, node_port = None\<rparr>, w @ cmd # u)"
proof -
  have sh: "os_system demo_shell c w = w @ [c]" "os_popen demo_shell c w = (demo_answer c w, w)"
    "path_isfile demo_shell f w = (True, w)" "time_sleep demo_shell n w = w" "octet_zeros demo_shell = False" for c w f n
    by (simp_all add: demo_shell_def)
  have "p \<in> set (listed demo_shell (w @ [cmd, x]))" for x using assms by (simp add: listed_demo demo_ports_def)
  then show ?thesis
  by (simp add: start_container_def setup_network_namespace_def link_namespace_def setup_container_port_def
      check_container_def run_local_cmd_def run_local_cmd_output_def sleep_def run_defs get_kni_ports_eq
      sh demo_answers [OF assms] demo_strip demo_ints demo_ip demo_mac)
qed

lemma demo_node:
  assumes "p \<in> set demo_ports"
  shows "\<exists>n u. launch_node demo_shell cmd cpus p name cfg w = Ok ((n, cfg @ [n]), w @ cmd # u)"
  using demo_start [OF assms, of cmd name w] by (auto simp: launch_node_def run_defs Let_def)

lemma demo_server:
  assumes "i < 4"
  shows "\<exists>n u. launch_server demo_shell memcached_exp client i cfg w = Ok (cfg @ [n], w @ u)"
proof -
  have "[1..<5] = [1, 2, 3, 4 :: nat]" by (simp add: upt_rec)
  then have "server_list_port_name memcached_exp = tl demo_ports"
    by (simp add: memcached_exp_def demo_ports_def dec_nat.simps digit_chars)
  moreover have "i < length (tl demo_ports)" using assms by (simp add: demo_ports_def)
  ultimately have "server_list_port_name memcached_exp ! i \<in> set (tl demo_ports)" by (simp only: nth_mem)
  then have "server_list_port_name memcached_exp ! i \<in> set demo_ports" by (rule list.set_sel(2) [rotated]) (simp add: demo_ports_def)
  note node = demo_node [OF this]
  let ?cmd = "memcached_server_cmd (server_list_name memcached_exp ! i) (server_list_cpu_set memcached_exp ! i) 4 4096 550"
  obtain n u where 1: "launch_node demo_shell ?cmd (server_list_cpu_set memcached_exp ! i)
      (server_list_port_name memcached_exp ! i) (server_list_name memcached_exp ! i) cfg w = Ok ((n, cfg @ [n]), w @ ?cmd # u)"
    using node by blast
  have "os_system demo_shell c v = v @ [c]" "os_popen_unread demo_shell c v = v @ [c]" "time_sleep demo_shell k v = v" for c v k
    by (simp_all add: demo_shell_def)
  then show ?thesis
    by (auto simp: launch_server_def bnd_def 1 ret_def modify_def connect_def dns_def sleep_def run_local_cmd_def)
qed

lemma demo_servers: "\<exists>cfg' u. fold_m (launch_server demo_shell memcached_exp client) [0..<4] cfg w = Ok (cfg', w @ u)"
proof -
  have "outcome {} (fold_m (launch_server demo_shell memcached_exp client) [0..<4] cfg) (\<lambda>_ v. \<exists>u. v = w @ u) w"
  proof (rule outcome_fold_m_inv)
    fix i cfg v
    assume "i \<in> set [0..<4]" and "\<exists>u. v = w @ u"
    with demo_server [of i client cfg v] show "outcome {} (launch_server demo_shell memcached_exp client i cfg) (\<lambda>_ v. \<exists>u. v = w @ u) v"
      by (auto simp: outcome_def)
  qed simp
  then show ?thesis by (auto simp: outcome_iff)
qed

lemma demo_memcached: "\<exists>cfg' x u. Memcached_launch demo_shell memcached_exp [] w = Ok (cfg', w @ x # u)"
proof -
  have "client_port_name memcached_exp \<in> set demo_ports" by (simp add: memcached_exp_def demo_ports_def)
  from demo_node [OF this, of _ _ _ "[]" w] obtain n u where 1: "launch_node demo_shell
      (memcached_client_cmd (client_name memcached_exp) (client_cpu_set memcached_exp)) (client_cpu_set memcached_exp)
      (client_port_name memcached_exp) (client_name memcached_exp) [] w =
      Ok ((n, [n]), w @ memcached_client_cmd (client_name memcached_exp) (client_cpu_set memcached_exp) # u)"
    by (metis append_Nil)
  have "length (server_list_cpu_set memcached_exp) = n_servers" "length (server_list_port_name memcached_exp) = n_servers"
    "length (server_list_name memcached_exp) = n_servers" by (simp_all add: memcached_exp_def n_servers_def)
  moreover have "n_servers = 4" "os_system demo_shell c v = v @ [c]" for c v by (simp_all add: n_servers_def demo_shell_def)
  ultimately show ?thesis
    using demo_servers [of n "[n]" "w @ memcached_client_cmd (client_name memcached_exp) (client_cpu_set memcached_exp) # u"]
    by (auto simp: Memcached_launch_def bnd_def 1 assert_py_def ret_def run_local_cmd_def modify_def)
qed

theorem memcached_nodes_verified_witness:
  "\<exists>cfg w'. Memcached_launch demo_shell memcached_exp [] [] = Ok (cfg, w') \<and> length cfg = 5 \<and>
     (\<forall>n \<in> set cfg. verified demo_shell n)"
proof -
  obtain cfg w' where 1: "Memcached_launch demo_shell memcached_exp [] [] = Ok (cfg, w')" using demo_memcached by blast
  from memcached_nodes_verified [OF 1] show ?thesis using 1 by auto
qed

lemma demo_experiment: "run_experiment demo_shell [] = Err (Exit ''KNI vEth0_5 not up'')"
proof -
  have sh: "os_system demo_shell c w = w @ [c]" "os_popen demo_shell c w = (demo_answer c w, w)"
    "path_isfile demo_shell f w = (True, w)" "time_sleep demo_shell n w = w" for c w f n
    by (simp_all add: demo_shell_def)
  have counts: "get_number_of_engine_threads demo_shell w = Ok (1, w)" "number_of_running_processes demo_shell w = Ok (0, w)" for w
    by (simp_all add: get_number_of_engine_threads_def number_of_running_processes_def run_local_cmd_output_def run_defs
        demo_shell_def demo_answer_def list_kni_cmd_def demo_strip demo_ints)
  obtain w where ports: "setup_virtual_tcp_interface demo_shell n_kni_ports [] = Ok ((), w)"
    by (simp add: ports_setup_eq listed_demo)
  obtain cfg x v where mem: "Memcached_launch demo_shell memcached_exp [] w = Ok (cfg, w @ x # v)"
    using demo_memcached by blast
  have ns: "setup_network_namespace demo_shell 100 ''vEth0_5'' u = Err (Exit ''KNI vEth0_5 not up'')" for u
    by (simp add: setup_network_namespace_def link_namespace_def run_local_cmd_def sleep_def run_defs sh
        get_kni_ports_eq listed_demo exit_with_def)
  have "start_container demo_shell cmd ''vEth0_5'' name u = Err (Exit ''KNI vEth0_5 not up'')" for cmd name u
    by (simp add: start_container_def run_local_cmd_def run_local_cmd_output_def sleep_def run_defs sh ns
        demo_answer_def docker_pid_cmd_def list_kni_cmd_def demo_strip demo_ints)
  then have "WebSearch_launch demo_shell websearch_exp cfg u = Err (Exit ''KNI vEth0_5 not up'')" for u
    by (simp add: WebSearch_launch_def launch_node_def websearch_exp_def bnd_def)
  with counts ports mem show ?thesis by (simp add: run_experiment_def bnd_def)
qed

end
