(* ===== verification/Json_Print.thy ===== *)
theory Json_Print
  imports Json_Parse Json_Fmt
begin

text \<open>
  Printing of items, \<^verbatim>\<open>cJSON.c\<close>: the print buffer and its growth, numbers, strings, values, arrays,
  objects and the entry points.  The block of the buffer is the list of its bytes; a write
  outside of it, a read of \<^verbatim>\<open>strlen\<close> or \<^verbatim>\<open>memcpy\<close> that leaves it and a use of a NULL buffer are
  errors.  New memory contains arbitrary bytes, \<open>pb_junk\<close>.  As in \<open>Json_Data\<close> the hooks
  decide which allocations succeed, and \<open>pb_live\<close> counts the live blocks; \<open>pb_realloc\<close> says whether
  the hooks have a reallocation function.  A print function returns what the C function
  returns, and the buffer.  The recursion follows the tree and needs no fuel.

  The theory holds the definitions; the properties are in \<open>Json_Print_Props\<close>.
\<close>

section \<open>The print buffer\<close>

record printbuffer =
  pb_buffer :: "u8 list option"
  pb_length :: nat
  pb_offset :: nat
  pb_depth :: nat
  pb_noalloc :: bool
  pb_format :: bool
  pb_hooks :: "nat \<Rightarrow> bool"
  pb_realloc :: bool
  pb_junk :: "nat \<Rightarrow> nat \<Rightarrow> u8"
  pb_allocs :: nat
  pb_live :: int

text \<open>One call of an allocation hook: whether it succeeds; \<open>resize\<close> is what the new block contains.\<close>

definition try_alloc :: "printbuffer \<Rightarrow> bool \<times> printbuffer" where
  "try_alloc p = (pb_hooks p (pb_allocs p), p\<lparr>pb_allocs := pb_allocs p + 1\<rparr>)"

definition resize :: "printbuffer \<Rightarrow> nat \<Rightarrow> u8 list \<Rightarrow> u8 list" where
  "resize p n blk = take n blk @ map (pb_junk p (pb_allocs p)) [length blk..<n]"

definition drop_buffer :: "printbuffer \<Rightarrow> printbuffer" where
  "drop_buffer p = p\<lparr>pb_length := 0, pb_buffer := None, pb_live := pb_live p - 1\<rparr>"

text \<open>The end of \<^verbatim>\<open>ensure\<close>: a new block of \<open>newsize\<close> bytes.\<close>

definition grow :: "nat \<Rightarrow> u8 list \<Rightarrow> printbuffer \<Rightarrow> (bool \<times> printbuffer) res" where
  "grow newsize blk p =
     (case try_alloc p of (ok, p1) \<Rightarrow>
        if \<not> ok then Ok (False, drop_buffer p1)
        else if pb_realloc p then
          Ok (True, p1\<lparr>pb_length := newsize, pb_buffer := Some (resize p newsize blk)\<rparr>)
        else if length blk < pb_offset p + 1 then Err OutOfBounds
        else Ok (True, p1\<lparr>pb_length := newsize,
                          pb_buffer := Some (resize p newsize (take (pb_offset p + 1) blk))\<rparr>))"

definition ensure :: "nat \<Rightarrow> printbuffer \<Rightarrow> (bool \<times> printbuffer) res" where
  "ensure needed p =
     (case pb_buffer p of
        None \<Rightarrow> Ok (False, p)
      | Some blk \<Rightarrow>
          if 0 < pb_length p \<and> pb_length p \<le> pb_offset p then Ok (False, p)
          else if INT_MAX < int needed then Ok (False, p)
          else
            (let needed' = needed + pb_offset p + 1 in
             if needed' \<le> pb_length p then Ok (True, p)
             else if pb_noalloc p then Ok (False, p)
             else if INT_MAX div 2 < int needed' then
               if int needed' \<le> INT_MAX then grow (nat INT_MAX) blk p else Ok (False, p)
             else grow (needed' * 2) blk p))"

text \<open>A write of bytes at a position of the block.\<close>

definition poke :: "nat \<Rightarrow> u8 list \<Rightarrow> printbuffer \<Rightarrow> printbuffer res" where
  "poke i bs p =
     (case pb_buffer p of
        None \<Rightarrow> Err NullDeref
      | Some blk \<Rightarrow>
          if i + length bs \<le> length blk
          then Ok (p\<lparr>pb_buffer := Some (take i blk @ bs @ drop (i + length bs) blk)\<rparr>)
          else Err OutOfBounds)"

text \<open>The length up to the next NUL byte is added to the offset.\<close>

definition update_offset :: "printbuffer \<Rightarrow> printbuffer res" where
  "update_offset p =
     (case pb_buffer p of
        None \<Rightarrow> Ok p
      | Some blk \<Rightarrow>
          (let s = drop (pb_offset p) blk; n = length (takeWhile (\<lambda>c. c \<noteq> 0) s)
           in if n < length s then Ok (p\<lparr>pb_offset := pb_offset p + n\<rparr>) else Err OutOfBounds))"

definition advance :: "nat \<Rightarrow> printbuffer \<Rightarrow> printbuffer" where
  "advance n p = p\<lparr>pb_offset := pb_offset p + n\<rparr>"

text \<open>
  The passages that all print functions are made of: go on only if a call returned true, and
  reserve space, write at the offset, and go on.
\<close>

definition pthen ::
  "(bool \<times> printbuffer) res \<Rightarrow> (printbuffer \<Rightarrow> (bool \<times> printbuffer) res) \<Rightarrow> (bool \<times> printbuffer) res" where
  "pthen m f = rbind m (\<lambda>(ok, p). if ok then f p else Ok (False, p))"

definition put ::
  "nat \<Rightarrow> u8 list \<Rightarrow> (printbuffer \<Rightarrow> (bool \<times> printbuffer) res) \<Rightarrow> printbuffer \<Rightarrow> (bool \<times> printbuffer) res" where
  "put needed bs f p = pthen (ensure needed p) (\<lambda>p1. rbind (poke (pb_offset p1) bs p1) f)"

definition return_true :: "printbuffer \<Rightarrow> (bool \<times> printbuffer) res" where
  "return_true p = Ok (True, p)"

section \<open>Numbers and strings\<close>

text \<open>The array \<^verbatim>\<open>number_buffer\<close> has 26 bytes; every text is written to it with its terminator.\<close>

definition print_number :: "cJSON_fields \<Rightarrow> printbuffer \<Rightarrow> (bool \<times> printbuffer) res" where
  "print_number item p =
     (if \<exists>s \<in> set (number_writes (valuedouble item)). 26 < length s + 1 then Err OutOfBounds
      else
        (let number_buffer = number_text (valuedouble item); len = length number_buffer
         in if 25 < len then Ok (False, p)
            else put (len + 1) (number_buffer @ [0]) (\<lambda>p1. return_true (advance len p1)) p))"

text \<open>The additional bytes that a character needs.\<close>

definition escape_size :: "u8 \<Rightarrow> nat" where
  "escape_size c =
     (if c = ch_quote \<or> c = ch_backslash \<or> c = 8 \<or> c = 12 \<or> c = 10 \<or> c = 13 \<or> c = 9 then 1
      else if c < 32 then 5 else 0)"

definition escape_characters :: "u8 list \<Rightarrow> nat" where
  "escape_characters s = sum_list (map escape_size s)"

definition hex_char :: "nat \<Rightarrow> u8" where
  "hex_char n = (if n < 10 then 48 + word_of_nat n else 87 + word_of_nat n)"

text \<open>What follows the backslash; \<^verbatim>\<open>sprintf\<close> also writes a terminator.\<close>

definition escape_text :: "u8 \<Rightarrow> u8 list" where
  "escape_text c =
     (if c = ch_backslash then [ch_backslash] else if c = ch_quote then [ch_quote]
      else if c = 8 then [98] else if c = 12 then [102] else if c = 10 then [110]
      else if c = 13 then [114] else if c = 9 then [116]
      else [117, 48, 48, hex_char (unat c div 16), hex_char (unat c mod 16)])"

fun escape_loop :: "u8 list \<Rightarrow> nat \<Rightarrow> printbuffer \<Rightarrow> printbuffer res" where
  "escape_loop [] output_pointer p = Ok p"
| "escape_loop (c # s) output_pointer p =
     (if 31 < c \<and> c \<noteq> ch_quote \<and> c \<noteq> ch_backslash then
        rbind (poke output_pointer [c] p) (escape_loop s (output_pointer + 1))
      else
        rbind (poke output_pointer [ch_backslash] p) (\<lambda>p1.
        rbind (poke (output_pointer + 1)
                 (escape_text c @ (if length (escape_text c) = 1 then [] else [0])) p1)
          (escape_loop s (output_pointer + 1 + length (escape_text c)))))"

definition print_string_ptr :: "u8 list option \<Rightarrow> printbuffer \<Rightarrow> (bool \<times> printbuffer) res" where
  "print_string_ptr input p =
     (case input of
        None \<Rightarrow> put 3 [ch_quote, ch_quote, 0] return_true p
      | Some s0 \<Rightarrow>
          (let s = cbytes s0; output_length = length s + escape_characters s in
           pthen (ensure (output_length + 3) p) (\<lambda>p1.
             let output = pb_offset p1 in
             if escape_characters s = 0 then
               rbind (poke output (ch_quote # s @ [ch_quote, 0]) p1) return_true
             else
               rbind (poke output [ch_quote] p1) (\<lambda>p2.
               rbind (escape_loop s (output + 1) p2) (\<lambda>p3.
               rbind (poke (output + output_length + 1) [ch_quote, 0] p3) return_true)))))"

definition print_string :: "cJSON_fields \<Rightarrow> printbuffer \<Rightarrow> (bool \<times> printbuffer) res" where
  "print_string item p = print_string_ptr (valuestring item) p"

section \<open>Values\<close>

definition deeper :: "printbuffer \<Rightarrow> printbuffer" where
  "deeper p = p\<lparr>pb_depth := pb_depth p + 1\<rparr>"

definition shallower :: "printbuffer \<Rightarrow> printbuffer" where
  "shallower p = p\<lparr>pb_depth := pb_depth p - 1\<rparr>"

definition print_raw :: "cJSON_fields \<Rightarrow> printbuffer \<Rightarrow> (bool \<times> printbuffer) res" where
  "print_raw item p =
     (case valuestring item of
        None \<Rightarrow> Ok (False, p)
      | Some s \<Rightarrow> put (length (cbytes s) + 1) (cbytes s @ [0]) return_true p)"

text \<open>The passages of \<^verbatim>\<open>print_array\<close> and \<^verbatim>\<open>print_object\<close> around the elements.\<close>

definition array_comma ::
  "(printbuffer \<Rightarrow> (bool \<times> printbuffer) res) \<Rightarrow> printbuffer \<Rightarrow> (bool \<times> printbuffer) res" where
  "array_comma f p =
     (let len = (if pb_format p then 2 else 1)
      in put (len + 1) (ch_comma # (if pb_format p then [32] else []) @ [0]) (\<lambda>p1. f (advance len p1)) p)"

definition object_indent ::
  "(printbuffer \<Rightarrow> (bool \<times> printbuffer) res) \<Rightarrow> printbuffer \<Rightarrow> (bool \<times> printbuffer) res" where
  "object_indent f p =
     (if pb_format p
      then put (pb_depth p) (replicate (pb_depth p) 9) (\<lambda>p1. f (advance (pb_depth p) p1)) p
      else f p)"

definition object_colon ::
  "(printbuffer \<Rightarrow> (bool \<times> printbuffer) res) \<Rightarrow> printbuffer \<Rightarrow> (bool \<times> printbuffer) res" where
  "object_colon f p =
     (let len = (if pb_format p then 2 else 1)
      in put len (ch_colon # (if pb_format p then [9] else [])) (\<lambda>p1. f (advance len p1)) p)"

definition object_comma ::
  "bool \<Rightarrow> (printbuffer \<Rightarrow> (bool \<times> printbuffer) res) \<Rightarrow> printbuffer \<Rightarrow> (bool \<times> printbuffer) res" where
  "object_comma has_next f p =
     (let bs = (if has_next then [ch_comma] else []) @ (if pb_format p then [10] else [])
      in put (length bs + 1) (bs @ [0]) (\<lambda>p1. f (advance (length bs) p1)) p)"

definition object_open ::
  "(printbuffer \<Rightarrow> (bool \<times> printbuffer) res) \<Rightarrow> printbuffer \<Rightarrow> (bool \<times> printbuffer) res" where
  "object_open f p =
     (let len = (if pb_format p then 2 else 1)
      in put (len + 1) (ch_lbrace # (if pb_format p then [10] else [])) (\<lambda>p1. f (advance len (deeper p1))) p)"

definition object_close :: "printbuffer \<Rightarrow> (bool \<times> printbuffer) res" where
  "object_close p =
     put (if pb_format p then pb_depth p + 1 else 2)
       ((if pb_format p then replicate (pb_depth p - 1) 9 else []) @ [ch_rbrace, 0])
       (\<lambda>p1. return_true (shallower p1)) p"

fun print_value :: "cJSON \<Rightarrow> printbuffer \<Rightarrow> (bool \<times> printbuffer) res"
  and print_elements :: "cJSON list \<Rightarrow> printbuffer \<Rightarrow> (bool \<times> printbuffer) res"
  and print_members :: "cJSON list \<Rightarrow> printbuffer \<Rightarrow> (bool \<times> printbuffer) res" where
  "print_value (CJSON item cs) p =
     (let ty = jtype item AND 0xFF in
      if ty = cJSON_NULL then put 5 (lit_null @ [0]) return_true p
      else if ty = cJSON_False then put 6 (lit_false @ [0]) return_true p
      else if ty = cJSON_True then put 5 (lit_true @ [0]) return_true p
      else if ty = cJSON_Number then print_number item p
      else if ty = cJSON_Raw then print_raw item p
      else if ty = cJSON_String then print_string item p
      else if ty = cJSON_Array then
        put 1 [ch_lbracket] (\<lambda>p1.
          pthen (print_elements cs (deeper (advance 1 p1))) (\<lambda>p2.
            put 2 [ch_rbracket, 0] (\<lambda>p3. return_true (shallower p3)) p2)) p
      else if ty = cJSON_Object then
        object_open (\<lambda>p1. pthen (print_members cs p1) object_close) p
      else Ok (False, p))"
| "print_elements [] p = return_true p"
| "print_elements (x # xs) p =
     pthen (print_value x p) (\<lambda>p1. rbind (update_offset p1) (\<lambda>p2.
       if xs \<noteq> [] then array_comma (print_elements xs) p2 else print_elements xs p2))"
| "print_members [] p = return_true p"
| "print_members (x # xs) p =
     object_indent (\<lambda>p1.
       pthen (print_string_ptr (jstring (jfields x)) p1) (\<lambda>p2. rbind (update_offset p2)
         (object_colon (\<lambda>p3.
           pthen (print_value x p3) (\<lambda>p4. rbind (update_offset p4)
             (object_comma (xs \<noteq> []) (print_members xs))))))) p"

text \<open>The call on a pointer, which may be NULL.\<close>

definition print_value_ptr :: "cJSON option \<Rightarrow> printbuffer \<Rightarrow> (bool \<times> printbuffer) res" where
  "print_value_ptr item p = (case item of None \<Rightarrow> Ok (False, p) | Some x \<Rightarrow> print_value x p)"

section \<open>The entry points\<close>

text \<open>The hooks, the contents of new memory and the number of live blocks before the call.\<close>

record print_env =
  pe_hooks :: "nat \<Rightarrow> bool"
  pe_realloc :: bool
  pe_junk :: "nat \<Rightarrow> nat \<Rightarrow> u8"
  pe_live :: int

definition start_print :: "print_env \<Rightarrow> nat \<Rightarrow> bool \<Rightarrow> printbuffer" where
  "start_print E n format =
     \<lparr>pb_buffer = Some (map (pe_junk E 0) [0..<n]), pb_length = n, pb_offset = 0, pb_depth = 0,
      pb_noalloc = False, pb_format = format, pb_hooks = pe_hooks E, pb_realloc = pe_realloc E,
      pb_junk = pe_junk E, pb_allocs = 1, pb_live = pe_live E + 1\<rparr>"

text \<open>The block that a call returns, NULL for a failure, and the number of live blocks.\<close>

type_synonym print_result = "u8 list option \<times> int"

definition print_fail :: "printbuffer \<Rightarrow> print_result res" where
  "print_fail p = Ok (None, if pb_buffer p \<noteq> None then pb_live p - 1 else pb_live p)"

text \<open>The text is moved to a block of its own size.\<close>

definition print_shrink :: "printbuffer \<Rightarrow> print_result res" where
  "print_shrink p =
     (case pb_buffer p of
        None \<Rightarrow> Err NullDeref
      | Some blk \<Rightarrow>
          (case try_alloc p of (ok, p1) \<Rightarrow>
             if \<not> ok then print_fail p1
             else if pb_realloc p then Ok (Some (resize p (pb_offset p + 1) blk), pb_live p)
             else if length blk < min (pb_length p) (pb_offset p + 1) then Err OutOfBounds
             else
               Ok (Some ((resize p (pb_offset p + 1) (take (min (pb_length p) (pb_offset p + 1)) blk))[pb_offset p := 0]),
                   pb_live p)))"

definition print :: "print_env \<Rightarrow> cJSON option \<Rightarrow> bool \<Rightarrow> print_result res" where
  "print E item format =
     (if \<not> pe_hooks E 0 then Ok (None, pe_live E)
      else
        rbind (print_value_ptr item (start_print E 256 format)) (\<lambda>(ok, p).
          if \<not> ok then print_fail p
          else rbind (update_offset p) print_shrink))"

definition cJSON_Print :: "print_env \<Rightarrow> cJSON option \<Rightarrow> print_result res" where
  "cJSON_Print E item = print E item True"

definition cJSON_PrintUnformatted :: "print_env \<Rightarrow> cJSON option \<Rightarrow> print_result res" where
  "cJSON_PrintUnformatted E item = print E item False"

definition cJSON_PrintBuffered :: "print_env \<Rightarrow> cJSON option \<Rightarrow> int \<Rightarrow> bool \<Rightarrow> print_result res" where
  "cJSON_PrintBuffered E item prebuffer fmt =
     (if prebuffer < 0 then Ok (None, pe_live E)
      else if \<not> pe_hooks E 0 then Ok (None, pe_live E)
      else
        rbind (print_value_ptr item (start_print E (nat prebuffer) fmt)) (\<lambda>(ok, p).
          if \<not> ok then print_fail p else Ok (pb_buffer p, pb_live p)))"

text \<open>The caller's buffer \<open>buf\<close>, of which the first \<open>len\<close> bytes may be used.\<close>

definition cJSON_PrintPreallocated ::
  "print_env \<Rightarrow> cJSON option \<Rightarrow> u8 list option \<Rightarrow> int \<Rightarrow> bool \<Rightarrow> (bool \<times> u8 list option) res" where
  "cJSON_PrintPreallocated E item buf len fmt =
     (if len < 0 \<or> buf = None then Ok (False, buf)
      else
        rbind (print_value_ptr item
          ((start_print E (nat len) fmt)\<lparr>pb_buffer := buf, pb_noalloc := True\<rparr>)) (\<lambda>(ok, p).
          Ok (ok, pb_buffer p)))"

end
