(* ===== verification/Json_Print_Text.thy ===== *)
theory Json_Print_Text
  imports Json_Print Json_Fmt_Props
begin

text \<open>
  What the printer writes.  \<open>text_value\<close> is the text of an item, as a plain function of the tree; the
  print functions implement it: whatever the memory contains and whichever allocations fail, they
  stay inside the block, keep what was written before, and either leave exactly that text with
  its terminator or return false without losing a block.  They return true whenever the allocations
  succeed and the text has room.
\<close>

section \<open>The text of an item\<close>

definition escaped :: "u8 \<Rightarrow> u8 list" where
  "escaped c =
     (if 31 < c \<and> c \<noteq> ch_quote \<and> c \<noteq> ch_backslash then [c] else ch_backslash # escape_text c)"

definition quoted :: "u8 list option \<Rightarrow> u8 list" where
  "quoted s = ch_quote # (case s of None \<Rightarrow> [] | Some b \<Rightarrow> concat (map escaped (cbytes b))) @ [ch_quote]"

definition tabs :: "bool \<Rightarrow> nat \<Rightarrow> u8 list" where
  "tabs fmt n = (if fmt then replicate n 9 else [])"

definition when_fmt :: "bool \<Rightarrow> u8 \<Rightarrow> u8 list" where
  "when_fmt fmt c = (if fmt then [c] else [])"

text \<open>Concatenation of texts, of which one may not exist.\<close>

definition ocat :: "u8 list \<Rightarrow> u8 list option \<Rightarrow> u8 list \<Rightarrow> u8 list option \<Rightarrow> u8 list option" where
  "ocat a x b y = (case x of None \<Rightarrow> None | Some s \<Rightarrow> (case y of None \<Rightarrow> None | Some t \<Rightarrow> Some (a @ s @ b @ t)))"

fun text_value :: "bool \<Rightarrow> nat \<Rightarrow> cJSON \<Rightarrow> u8 list option"
  and text_elements :: "bool \<Rightarrow> nat \<Rightarrow> cJSON list \<Rightarrow> u8 list option"
  and text_members :: "bool \<Rightarrow> nat \<Rightarrow> cJSON list \<Rightarrow> u8 list option" where
  "text_value fmt d (CJSON item cs) =
     (let ty = jtype item AND 0xFF in
      if ty = cJSON_NULL then Some lit_null
      else if ty = cJSON_False then Some lit_false
      else if ty = cJSON_True then Some lit_true
      else if ty = cJSON_Number then Some (number_text (valuedouble item))
      else if ty = cJSON_Raw then map_option cbytes (valuestring item)
      else if ty = cJSON_String then Some (quoted (valuestring item))
      else if ty = cJSON_Array then ocat [ch_lbracket] (text_elements fmt (d + 1) cs) [ch_rbracket] (Some [])
      else if ty = cJSON_Object then
        ocat (ch_lbrace # when_fmt fmt 10) (text_members fmt (d + 1) cs) (tabs fmt d @ [ch_rbrace]) (Some [])
      else None)"
| "text_elements fmt d [] = Some []"
| "text_elements fmt d (x # xs) =
     ocat [] (text_value fmt d x) (if xs \<noteq> [] then ch_comma # when_fmt fmt 32 else []) (text_elements fmt d xs)"
| "text_members fmt d [] = Some []"
| "text_members fmt d (x # xs) =
     ocat (tabs fmt d @ quoted (jstring (jfields x)) @ ch_colon # when_fmt fmt 9) (text_value fmt d x)
       ((if xs \<noteq> [] then [ch_comma] else []) @ when_fmt fmt 10) (text_members fmt d xs)"

text \<open>Every number of the tree is a \<^verbatim>\<open>double\<close>.\<close>

fun doubles :: "cJSON \<Rightarrow> bool" where
  "doubles (CJSON item cs) \<longleftrightarrow> is_double (valuedouble item) \<and> list_all doubles cs"

lemma ocat_simps [simp]:
  "ocat a (Some s) b (Some t) = Some (a @ s @ b @ t)" "ocat a None b y = None" "ocat a x b None = None"
  by (simp_all add: ocat_def split: option.split)

lemma ocat_Some: "ocat a x b y = Some r \<longleftrightarrow> (\<exists>s t. x = Some s \<and> y = Some t \<and> r = a @ s @ b @ t)"
  by (auto simp: ocat_def split: option.splits)

section \<open>Texts have no terminator inside\<close>

lemma dig_nonzero: "is_dig b \<Longrightarrow> b \<noteq> 0"
  by (auto simp: is_dig_def)

lemma exp_text_chars: "b \<in> set (exp_text x) \<Longrightarrow> is_dig b \<or> b = 101 \<or> b = 45 \<or> b = 43"
  using digits_dig by (auto simp: exp_text_def Let_def split: if_splits)

lemma number_shape_chars:
  assumes "number_shape neg s" and "b \<in> set s"
  shows "is_dig b \<or> b = 46 \<or> b = 101 \<or> b = 45 \<or> b = 43"
proof -
  obtain ip fp ex where s: "s = sign_text neg @ with_frac ip fp @ exp_part ex"
    and dig: "\<forall>b \<in> set ip. is_dig b" "\<forall>b \<in> set fp. is_dig b"
    using assms(1) unfolding number_shape_def by blast
  consider "b \<in> set (sign_text neg)" | "b \<in> set (with_frac ip fp)" | "b \<in> set (exp_part ex)"
    using assms(2) s by auto
  then show ?thesis
  proof cases
    case 3
    then show ?thesis using exp_text_chars by (cases ex) (auto simp: exp_part_def)
  qed (use dig in \<open>auto simp: sign_text_def with_frac_def split: if_splits\<close>)
qed

lemma number_shape_nonzero: "number_shape neg s \<Longrightarrow> 0 \<notin> set s"
  using number_shape_chars [of neg s 0] by (auto simp: is_dig_def)

lemma number_text_nonzero: "is_double d \<Longrightarrow> 0 \<notin> set (number_text d)"
  by (cases d) (auto simp: is_double_def number_shape_nonzero [OF number_text_shape],
    simp add: number_text_def number_writes_def)

lemma hex_char_unat: "n < 16 \<Longrightarrow> unat (hex_char n) = (if n < 10 then 48 + n else 87 + n)"
  by (simp add: hex_char_def unat_word_ariths unat_of_nat)

lemma hex_char_nonzero: "n < 16 \<Longrightarrow> hex_char n \<noteq> 0"
  using hex_char_unat [of n] by (auto split: if_splits)

lemma unat_byte: "unat (c :: u8) < 256"
  using unsigned_less [of c, where ?'a = nat] by simp

lemma escaped_nonzero: "c \<noteq> 0 \<Longrightarrow> 0 \<notin> set (escaped c)"
proof -
  have "hex_char (unat c mod 16) \<noteq> 0" by (rule hex_char_nonzero) simp
  moreover have "hex_char (unat c div 16) \<noteq> 0"
    using unat_byte [of c] by (intro hex_char_nonzero) (simp add: less_mult_imp_div_less)
  ultimately show "c \<noteq> 0 \<Longrightarrow> 0 \<notin> set (escaped c)" by (auto simp: escaped_def escape_text_def)
qed

lemma cbytes_nonzero: "0 \<notin> set (cbytes s)"
  by (auto simp: cbytes_def dest: set_takeWhileD)

lemma quoted_nonzero: "0 \<notin> set (quoted s)"
proof (cases s)
  case (Some b)
  have "0 \<notin> set (escaped c)" if "c \<in> set (cbytes b)" for c
    using that cbytes_nonzero [of b] by (intro escaped_nonzero) auto
  with Some show ?thesis by (auto simp: quoted_def)
qed (simp add: quoted_def)

lemma text_nonzero:
  "doubles x \<Longrightarrow> text_value fmt d x = Some t \<Longrightarrow> 0 \<notin> set t"
  "list_all doubles xs \<Longrightarrow> text_elements fmt d xs = Some t \<Longrightarrow> 0 \<notin> set t"
  "list_all doubles xs \<Longrightarrow> text_members fmt d xs = Some t \<Longrightarrow> 0 \<notin> set t"
proof (induction fmt d x and fmt d xs and fmt d xs arbitrary: t and t and t
    rule: text_value_text_elements_text_members.induct)
  case (1 fmt d item cs)
  then show ?case
    by (auto simp: Let_def ocat_Some number_text_nonzero quoted_nonzero cbytes_nonzero when_fmt_def tabs_def
        split: if_splits)
next
  case (3 fmt d x xs)
  then show ?case by (auto simp: ocat_Some when_fmt_def split: if_splits)
next
  case (5 fmt d x xs)
  then show ?case by (auto simp: ocat_Some when_fmt_def tabs_def quoted_nonzero split: if_splits)
qed auto

end
