(* ===== verification/Json_Print_Buffer.thy ===== *)
theory Json_Print_Buffer
  imports Json_Print_Text
begin

text \<open>
  The print buffer.  The rules say of every primitive of \<open>Json_Print\<close> (growing the block, writing at the
  offset, counting up to the terminator, escaping) that it stays inside the block, keeps what was
  written before and loses no block, whatever the memory contains and whichever allocations fail.
\<close>

section \<open>The buffer\<close>

text \<open>
  The offset is inside the block, of which \<^verbatim>\<open>length\<close> bytes may be used.  A buffer of length 0 is
  only sound if it is never copied by hand.
\<close>

definition pb_ok :: "printbuffer \<Rightarrow> bool" where
  "pb_ok p \<longleftrightarrow>
     (\<exists>blk. pb_buffer p = Some blk \<and> pb_length p \<le> length blk) \<and> int (pb_length p) \<le> INT_MAX \<and>
     (pb_offset p < pb_length p \<or> pb_length p = 0 \<and> pb_offset p = 0 \<and> (pb_realloc p \<or> pb_noalloc p))"

text \<open>What no print function changes: the settings, the blocks in use, the size of a block of the caller.\<close>

definition frame :: "printbuffer \<Rightarrow> int \<times> bool \<times> bool \<times> (nat \<Rightarrow> bool) \<times> bool \<times> (nat \<times> nat option) option" where
  "frame p =
     (pb_live p + (if pb_buffer p = None then 1 else 0), pb_noalloc p, pb_format p, pb_hooks p, pb_realloc p,
      if pb_noalloc p then Some (pb_length p, map_option length (pb_buffer p)) else None)"

definition written :: "printbuffer \<Rightarrow> u8 list" where
  "written p = take (pb_offset p) (the (pb_buffer p))"

text \<open>There is room for \<open>n\<close> bytes: the block has them, or it can grow to them.\<close>

definition room :: "printbuffer \<Rightarrow> nat \<Rightarrow> bool" where
  "room p n \<longleftrightarrow> n \<le> pb_length p \<or> \<not> pb_noalloc p \<and> (\<forall>i. pb_hooks p i) \<and> int n \<le> INT_MAX"

text \<open>The later buffer: sound, at least as long, with the same frame and depth.\<close>

definition later :: "printbuffer \<Rightarrow> printbuffer \<Rightarrow> bool" where
  "later p p' \<longleftrightarrow> pb_ok p' \<and> pb_length p \<le> pb_length p' \<and> frame p' = frame p \<and> pb_depth p' = pb_depth p"

definition adv :: "printbuffer \<Rightarrow> u8 list \<Rightarrow> printbuffer \<Rightarrow> bool" where
  "adv p t p' \<longleftrightarrow> later p p' \<and> pb_offset p' = pb_offset p + length t \<and> written p' = written p @ t"

text \<open>The text and its terminator are behind the old offset; the new offset is somewhere in between.\<close>

definition fin :: "printbuffer \<Rightarrow> u8 list \<Rightarrow> printbuffer \<Rightarrow> bool" where
  "fin p t p' \<longleftrightarrow>
     later p p' \<and> pb_offset p \<le> pb_offset p' \<and> pb_offset p' \<le> pb_offset p + length t \<and>
     pb_offset p + length t < pb_length p' \<and>
     take (pb_offset p + length t + 1) (the (pb_buffer p')) = written p @ t @ [0]"

lemma later_trans: "later p q \<Longrightarrow> later q r \<Longrightarrow> later p r"
  by (simp add: later_def)

lemma adv_later: "adv p t p' \<Longrightarrow> later p p'"
  by (simp add: adv_def)

lemma adv_refl: "pb_ok p \<Longrightarrow> adv p [] p"
  by (simp add: adv_def later_def)

lemma adv_trans: "adv p s q \<Longrightarrow> adv q t r \<Longrightarrow> adv p (s @ t) r"
  by (auto simp: adv_def intro: later_trans)

lemma adv_fin: "adv p s q \<Longrightarrow> fin q t r \<Longrightarrow> fin p (s @ t) r"
  by (auto simp: adv_def fin_def add.assoc intro: later_trans)

lemma room_mono: "room p n \<Longrightarrow> m \<le> n \<Longrightarrow> room p m"
  by (auto simp: room_def)

lemma room_later: "later p q \<Longrightarrow> room p n \<Longrightarrow> room q n"
  by (auto simp: later_def room_def frame_def)

section \<open>Rules\<close>

text \<open>
  \<open>pr F p m Q\<close>: the print operation \<open>m\<close>, called on the buffer \<open>p\<close>, keeps the frame, and it
  returns true with \<open>Q\<close>, or it returns false and \<open>F\<close> holds.
\<close>

definition pr ::
  "bool \<Rightarrow> printbuffer \<Rightarrow> (bool \<times> printbuffer) res \<Rightarrow> (printbuffer \<Rightarrow> bool) \<Rightarrow> bool" where
  "pr F p m Q \<longleftrightarrow> okp (\<lambda>(ok, p'). frame p' = frame p \<and> (if ok then Q p' else F)) m"

lemma pr_mono: "pr F p m Q \<Longrightarrow> (\<And>p'. Q p' \<Longrightarrow> R p') \<Longrightarrow> pr F p m R"
  unfolding pr_def by (erule okp_mono) (auto split: if_splits)

lemma pr_frame: "frame p = frame q \<Longrightarrow> pr F p m Q = pr F q m Q"
  by (simp add: pr_def)

lemma pr_later: "later p q \<Longrightarrow> pr F q m Q \<Longrightarrow> pr F p m Q"
  by (simp add: pr_def later_def)

lemma pr_true: "later p q \<Longrightarrow> Q q \<Longrightarrow> pr F p (return_true q) Q"
  by (simp add: pr_def return_true_def later_def)

lemma pr_false: "F \<Longrightarrow> pr F p (Ok (False, p)) Q"
  by (simp add: pr_def)

lemma pr_pthen: "pr F p m (\<lambda>p1. pr F p (f p1) Q) \<Longrightarrow> pr F p (pthen m f) Q"
  by (auto simp: pr_def pthen_def okp_rbind elim!: okp_mono split: if_splits)

lemma pr_rbind: "okp (\<lambda>p1. pr F p (f p1) Q) m \<Longrightarrow> pr F p (rbind m f) Q"
  by (auto simp: pr_def okp_rbind elim!: okp_mono)

lemma grow_rule:
  assumes "pb_ok p" and "pb_buffer p = Some blk" and "\<not> pb_noalloc p" and "pb_offset p < n"
    and "int n \<le> INT_MAX" and "pb_length p < n" and "(\<forall>i. pb_hooks p i) \<or> F"
  shows "pr F p (grow n blk p) (\<lambda>q. later p q \<and> pb_offset q = pb_offset p \<and> written q = written p \<and> n \<le> pb_length q)"
proof (cases "pb_hooks p (pb_allocs p)")
  case False
  then show ?thesis
    using assms by (auto simp: pr_def grow_def try_alloc_def drop_buffer_def frame_def)
next
  case True
  have blk: "pb_length p \<le> length blk" "pb_offset p < length blk \<or> pb_length p = 0 \<and> pb_offset p = 0 \<and> pb_realloc p"
    using assms by (auto simp: pb_ok_def)
  have len: "n \<le> length (resize p n b)" for b by (simp add: resize_def)
  have tk: "take (pb_offset p) (resize p n b) = take (pb_offset p) b" if "pb_offset p \<le> length b" for b
    using that assms(4) by (simp add: resize_def min_def)
  show ?thesis
  proof (cases "pb_realloc p")
    case True
    with \<open>pb_hooks p (pb_allocs p)\<close> assms blk len [of blk] tk [of blk] show ?thesis
      by (auto simp: pr_def grow_def try_alloc_def later_def pb_ok_def frame_def written_def)
  next
    case False
    with blk have b: "pb_offset p < length blk" by simp
    with False \<open>pb_hooks p (pb_allocs p)\<close> assms len [of "take (pb_offset p + 1) blk"]
      tk [of "take (pb_offset p + 1) blk"] show ?thesis
      by (auto simp: pr_def grow_def try_alloc_def later_def pb_ok_def frame_def written_def)
  qed
qed

lemma ensure_rule:
  assumes "pb_ok p" and "\<not> F \<longrightarrow> room p (pb_offset p + needed + 1)"
  shows "pr F p (ensure needed p)
    (\<lambda>q. later p q \<and> pb_offset q = pb_offset p \<and> written q = written p \<and> pb_offset p + needed < pb_length q)"
proof -
  obtain blk where blk: "pb_buffer p = Some blk" using assms(1) by (auto simp: pb_ok_def)
  let ?n = "needed + pb_offset p + 1"
  have inside: "\<not> (0 < pb_length p \<and> pb_length p \<le> pb_offset p)" using assms(1) by (auto simp: pb_ok_def)
  have small: "F \<or> int ?n \<le> INT_MAX" using assms by (auto simp: room_def pb_ok_def)
  show ?thesis
  proof (cases "INT_MAX < int needed")
    case True
    with small inside blk show ?thesis by (auto simp: ensure_def intro: pr_false)
  next
    case False
    note e = ensure_def [of needed p, unfolded blk option.case if_not_P [OF inside] if_not_P [OF False] Let_def]
    show ?thesis
    proof (cases "?n \<le> pb_length p")
      case True
      with assms(1) show ?thesis by (simp add: e pr_def later_def)
    next
      case more: False
      show ?thesis
      proof (cases "pb_noalloc p \<or> INT_MAX < int ?n")
        case True
        then have F using assms(2) more small by (auto simp: room_def)
        with True more show ?thesis by (auto simp: e INT_MAX_def intro: pr_false)
      next
        case alloc: False
        have hk: "(\<forall>i. pb_hooks p i) \<or> F" using assms(2) more by (auto simp: room_def)
        have "pr F p (grow n blk p) (\<lambda>q. later p q \<and> pb_offset q = pb_offset p \<and> written q = written p \<and> ?n \<le> pb_length q)"
          if "?n \<le> n" "int n \<le> INT_MAX" for n
          using that alloc more by (intro pr_mono [OF grow_rule [OF assms(1) blk _ _ _ _ hk]]) auto
        note g = this [of "nat INT_MAX"] this [of "?n * 2"]
        show ?thesis
        proof (cases "INT_MAX div 2 < int ?n")
          case True
          with g(1) alloc more show ?thesis by (auto simp: e INT_MAX_def elim!: pr_mono)
        next
          case False
          with g(2) alloc more show ?thesis by (auto simp: e INT_MAX_def elim!: pr_mono)
        qed
      qed
    qed
  qed
qed

section \<open>Writing\<close>

lemma later_buffer: "later p q \<Longrightarrow> \<exists>blk. pb_buffer q = Some blk \<and> pb_length q \<le> length blk"
  by (auto simp: later_def pb_ok_def)

lemma later_set:
  "later p q \<Longrightarrow> pb_buffer q = Some blk \<Longrightarrow> length blk' = length blk \<Longrightarrow> later p (q\<lparr>pb_buffer := Some blk'\<rparr>)"
  by (auto simp: later_def pb_ok_def frame_def)

lemma poke_Ok:
  "pb_buffer p = Some blk \<Longrightarrow> i + length bs \<le> length blk \<Longrightarrow>
    poke i bs p = Ok (p\<lparr>pb_buffer := Some (take i blk @ bs @ drop (i + length bs) blk)\<rparr>)"
  by (simp add: poke_def)

lemma put_rule:
  assumes "pb_ok p" and "length bs \<le> needed + 1" and "\<not> F \<longrightarrow> room p (pb_offset p + needed + 1)"
    and go: "\<And>q. later p q \<Longrightarrow> pb_offset q = pb_offset p \<Longrightarrow> pb_offset p + needed < pb_length q \<Longrightarrow>
      take (pb_offset p + length bs) (the (pb_buffer q)) = written p @ bs \<Longrightarrow> pr F p (f q) Q"
  shows "pr F p (put needed bs f p) Q"
  unfolding put_def
proof (rule pr_pthen, rule pr_mono [OF ensure_rule [OF assms(1,3)]], elim conjE)
  fix q
  assume q: "later p q" "pb_offset q = pb_offset p" "written q = written p" "pb_offset p + needed < pb_length q"
  obtain blk where blk: "pb_buffer q = Some blk" "pb_length q \<le> length blk" using later_buffer [OF q(1)] by blast
  let ?i = "pb_offset q" and ?blk = "take (pb_offset q) blk @ bs @ drop (pb_offset q + length bs) blk"
  have fit: "?i + length bs \<le> length blk" using q assms(2) blk by simp
  then have len: "length ?blk = length blk" by simp
  have "take (pb_offset p + length bs) ?blk = written q @ bs" using q(2) blk fit by (simp add: written_def)
  with q(3) have "pr F p (f (q\<lparr>pb_buffer := Some ?blk\<rparr>)) Q"
    using q later_set [OF q(1) blk(1) len] by (intro go) simp_all
  then show "pr F p (rbind (poke ?i bs q) f) Q" by (simp add: poke_Ok [OF blk(1) fit])
qed

lemma later_advance:
  "later p q \<Longrightarrow> pb_offset q + n < pb_length q \<Longrightarrow> later p (advance n q)"
  by (auto simp: later_def pb_ok_def frame_def advance_def)

lemma put_adv:
  assumes "pb_ok p" and "n \<le> length bs" and "length bs \<le> needed + 1" and "n \<le> needed"
    and "\<not> F \<longrightarrow> room p (pb_offset p + needed + 1)" and go: "\<And>q. adv p (take n bs) q \<Longrightarrow> pr F p (f q) Q"
  shows "pr F p (put needed bs (\<lambda>q. f (advance n q)) p) Q"
proof (rule put_rule [OF assms(1,3,5)])
  fix q
  assume q: "later p q" "pb_offset q = pb_offset p" "pb_offset p + needed < pb_length q"
    "take (pb_offset p + length bs) (the (pb_buffer q)) = written p @ bs"
  obtain blk where blk: "pb_buffer p = Some blk" "pb_length p \<le> length blk" using assms(1) by (auto simp: pb_ok_def)
  have lo: "length (written p) = pb_offset p" using assms(1) blk by (auto simp: written_def pb_ok_def)
  have "take (pb_offset p + n) (the (pb_buffer q)) = take (pb_offset p + n) (written p @ bs)"
    using q(4) [symmetric] assms(2) by (simp add: min_def)
  then have "written (advance n q) = written p @ take n bs" using q(2) lo by (simp add: written_def advance_def)
  moreover have "later p (advance n q)" using q assms(4) by (intro later_advance) simp_all
  ultimately show "pr F p (f (advance n q)) Q"
    using q(2) assms(2) by (intro go) (simp add: adv_def advance_def)
qed

lemma put_fin:
  assumes "pb_ok p" and "length t \<le> needed" and "\<not> F \<longrightarrow> room p (pb_offset p + needed + 1)"
    and go: "\<And>q. fin p t q \<Longrightarrow> pr F p (f q) Q"
  shows "pr F p (put needed (t @ [0]) f p) Q"
  using assms by (intro put_rule go) (auto simp: fin_def)

lemma pr_fin: "fin p t q \<Longrightarrow> pr F p (return_true q) (fin p t)"
  by (rule pr_true) (simp_all add: fin_def)

lemma update_offset_rule:
  assumes "fin p t q" and "0 \<notin> set t"
  shows "okp (\<lambda>r. adv p t r) (update_offset q)"
proof -
  obtain blk where blk: "pb_buffer q = Some blk" "pb_length q \<le> length blk"
    using assms(1) later_buffer [of p q] by (auto simp: fin_def)
  define k where "k = pb_offset q - pb_offset p"
  let ?n = "pb_offset p + length t"
  have q: "later p q" "pb_offset q = pb_offset p + k" "k \<le> length t" "?n < pb_length q"
    "take (?n + 1) blk = written p @ t @ [0]"
    using assms(1) blk by (auto simp: fin_def k_def)
  have lo: "length (written p) = pb_offset p"
    using arg_cong [OF q(5), of length] q(4) blk by simp
  have "blk = (written p @ t @ [0]) @ drop (?n + 1) blk" using q(5) by (metis append_take_drop_id)
  then obtain rest where "blk = written p @ t @ 0 # rest" by auto
  then have d: "drop (pb_offset q) blk = drop k t @ 0 # rest" using q(2,3) lo by simp
  have "0 \<notin> set (drop k t)" using assms(2) by (auto dest: in_set_dropD)
  then have tw: "takeWhile (\<lambda>c. c \<noteq> 0) (drop (pb_offset q) blk) = drop k t"
    unfolding d by (subst takeWhile_append2) auto
  then have u: "update_offset q = Ok (q\<lparr>pb_offset := ?n\<rparr>)"
    using q(2,3) blk d by (simp add: update_offset_def Let_def)
  have "later p (q\<lparr>pb_offset := ?n\<rparr>)"
    using later_advance [of p q "length t - k"] q by (simp add: advance_def)
  moreover have "take ?n blk = written p @ t"
    using arg_cong [OF q(5), of "take ?n"] lo by (simp add: min_def)
  ultimately show ?thesis using blk by (simp add: u adv_def written_def)
qed

section \<open>Strings and numbers\<close>

lemma escaped_length: "length (escaped c) = 1 + escape_size c"
proof -
  have "c < 32 \<longleftrightarrow> \<not> 31 < c" by (auto simp: word_less_nat_alt)
  then show ?thesis by (auto simp: escaped_def escape_size_def escape_text_def)
qed

lemma escaped_total: "length (concat (map escaped s)) = length s + escape_characters s"
  by (induction s) (simp_all add: escape_characters_def escaped_length)

lemma escaped_none: "escape_characters s = 0 \<Longrightarrow> concat (map escaped s) = s"
proof (induction s)
  case (Cons c s)
  then have "escape_size c = 0" "escape_characters s = 0" by (simp_all add: escape_characters_def)
  then have "length (escaped c) = 1" by (simp add: escaped_length)
  moreover have "escape_text c \<noteq> []" by (simp add: escape_text_def)
  ultimately have "escaped c = [c]" by (cases "31 < c \<and> c \<noteq> ch_quote \<and> c \<noteq> ch_backslash") (simp_all add: escaped_def)
  with Cons \<open>escape_characters s = 0\<close> show ?case by simp
qed simp

lemma escape_loop_writes:
  assumes "pb_buffer p = Some blk" and "i + length (concat (map escaped s)) < length blk"
  shows "\<exists>blk'. escape_loop s i p = Ok (p\<lparr>pb_buffer := Some blk'\<rparr>) \<and> length blk' = length blk \<and>
    take (i + length (concat (map escaped s))) blk' = take i blk @ concat (map escaped s)"
  using assms
proof (induction s arbitrary: i p blk)
  case (Cons c s)
  let ?l = "length (escaped c)"
  have step: "\<exists>b. escape_loop (c # s) i p = escape_loop s (i + ?l) (p\<lparr>pb_buffer := Some b\<rparr>) \<and>
      length b = length blk \<and> take (i + ?l) b = take i blk @ escaped c"
  proof (cases "31 < c \<and> c \<noteq> ch_quote \<and> c \<noteq> ch_backslash")
    case True
    then have e: "escaped c = [c]" by (simp add: escaped_def)
    with True Cons.prems show ?thesis
      by (intro exI [of _ "take i blk @ [c] @ drop (i + 1) blk"]) (auto simp: poke_Ok)
  next
    case False
    let ?t = "escape_text c" and ?z = "if length (escape_text c) = 1 then [] else [0 :: u8]"
    let ?b1 = "take i blk @ [ch_backslash] @ drop (i + 1) blk"
    let ?b2 = "take (i + 1) ?b1 @ (?t @ ?z) @ drop (i + 1 + length (?t @ ?z)) ?b1"
    have e: "escaped c = ch_backslash # ?t" using False by (simp add: escaped_def)
    have b1: "length ?b1 = length blk" using Cons.prems e by simp
    have f2: "i + 1 + length (?t @ ?z) \<le> length ?b1" using Cons.prems(2) b1 e by simp
    have t1: "take (i + 1) ?b1 = take i blk @ [ch_backslash]" using Cons.prems(2) by simp
    have "escape_loop (c # s) i p = escape_loop s (i + ?l) (p\<lparr>pb_buffer := Some ?b2\<rparr>)"
      using Cons.prems poke_Ok [of "p\<lparr>pb_buffer := Some ?b1\<rparr>" ?b1 "i + 1" "?t @ ?z"] f2 e
      unfolding escape_loop.simps if_not_P [OF False] by (simp add: poke_Ok)
    moreover have "length ?b2 = length blk" using f2 b1 by simp
    moreover have "take (i + ?l) ?b2 = take i blk @ escaped c"
      unfolding t1 using Cons.prems(2) e by simp
    ultimately show ?thesis by blast
  qed
  then obtain b where b: "escape_loop (c # s) i p = escape_loop s (i + ?l) (p\<lparr>pb_buffer := Some b\<rparr>)"
    "length b = length blk" "take (i + ?l) b = take i blk @ escaped c" by blast
  show ?case
    using Cons.IH [of "p\<lparr>pb_buffer := Some b\<rparr>" b "i + ?l"] Cons.prems(2) b by (auto simp: add.assoc)
next
  case Nil
  then show ?case by (intro exI [of _ blk]) simp
qed

end
