(* ===== verification/Json_Print_Values.thy ===== *)
theory Json_Print_Values
  imports Json_Print_Buffer
begin

text \<open>
  The rules for values: literals, strings and numbers, the elements of an array, the members of an
  object, and by induction on the tree every item.  A rule is stated from the buffer at which its
  text starts, so the rules compose along the text.
\<close>

lemma literal_rule:
  assumes "pb_ok p" and "\<not> F \<longrightarrow> room p (pb_offset p + length t + 2)" and "needed = length t + 1"
  shows "pr F p (put needed (t @ [0]) return_true p) (fin p t)"
  using assms by (intro put_fin pr_fin) simp_all

lemma string_rule:
  assumes "pb_ok p" and "\<not> F \<longrightarrow> room p (pb_offset p + length (quoted s) + 2)"
  shows "pr F p (print_string_ptr s p) (fin p (quoted s))"
proof (cases s)
  case None
  then have "print_string_ptr s p = put 3 (quoted s @ [0]) return_true p"
    by (simp add: print_string_ptr_def quoted_def)
  then show ?thesis using literal_rule [OF assms, of 3] None by (simp add: quoted_def)
next
  case (Some s0)
  define u where "u = cbytes s0"
  define e where "e = concat (map escaped u)"
  have q: "quoted s = ch_quote # e @ [ch_quote]" by (simp add: quoted_def Some e_def u_def)
  have le: "length e = length u + escape_characters u" by (simp add: e_def escaped_total)
  have ps: "print_string_ptr s p = pthen (ensure (length e + 3) p) (\<lambda>p1.
      if escape_characters u = 0 then rbind (poke (pb_offset p1) (ch_quote # u @ [ch_quote, 0]) p1) return_true
      else rbind (poke (pb_offset p1) [ch_quote] p1) (\<lambda>p2.
        rbind (escape_loop u (pb_offset p1 + 1) p2) (\<lambda>p3.
        rbind (poke (pb_offset p1 + length e + 1) [ch_quote, 0] p3) return_true)))"
    unfolding print_string_ptr_def Some Let_def option.case u_def [symmetric] le [symmetric] ..
  have rm: "\<not> F \<longrightarrow> room p (pb_offset p + (length e + 3) + 1)" using assms(2) q by (auto elim!: room_mono)
  show ?thesis
    unfolding ps
  proof (rule pr_pthen, rule pr_mono [OF ensure_rule [OF assms(1) rm]], elim conjE)
    fix p1
    assume p1: "later p p1" "pb_offset p1 = pb_offset p" "written p1 = written p" "pb_offset p + (length e + 3) < pb_length p1"
    obtain blk where blk: "pb_buffer p1 = Some blk" "pb_length p1 \<le> length blk" using later_buffer [OF p1(1)] by blast
    let ?o = "pb_offset p1"
    have o: "take ?o blk = written p" using p1(3) blk(1) by (simp add: written_def)
    have lo: "length (written p) = ?o" using o p1(4) blk(2) p1(2) by (metis add_lessD1 length_take less_imp_le less_le_trans min.absorb2)
    have wrote: "pr F p (return_true (p1\<lparr>pb_buffer := Some b\<rparr>)) (fin p (quoted s))"
      if "length b = length blk" "take (?o + length e + 3) b = written p @ quoted s @ [0]" for b
      using that p1 later_set [OF p1(1) blk(1), of b] q
      by (intro pr_true) (auto simp: fin_def eval_nat_numeral)
    show "pr F p (if escape_characters u = 0 then rbind (poke ?o (ch_quote # u @ [ch_quote, 0]) p1) return_true
      else rbind (poke ?o [ch_quote] p1) (\<lambda>p2. rbind (escape_loop u (?o + 1) p2) (\<lambda>p3.
        rbind (poke (?o + length e + 1) [ch_quote, 0] p3) return_true))) (fin p (quoted s))"
    proof (cases "escape_characters u = 0")
      case True
      then have "e = u" by (simp add: e_def escaped_none)
      let ?bs = "ch_quote # u @ [ch_quote, 0]"
      have fit: "?o + length ?bs \<le> length blk" using p1 blk \<open>e = u\<close> by simp
      have t: "take (?o + length e + 3) (take ?o blk @ ?bs @ drop (?o + length ?bs) blk) = written p @ quoted s @ [0]"
        using fit o lo q \<open>e = u\<close> by (simp add: eval_nat_numeral)
      show ?thesis using True fit wrote [OF _ t] by (simp add: poke_Ok [OF blk(1) fit])
    next
      case False
      let ?b1 = "take ?o blk @ [ch_quote] @ drop (?o + 1) blk"
      let ?p1 = "p1\<lparr>pb_buffer := Some ?b1\<rparr>"
      have l1: "length ?b1 = length blk" "take (?o + 1) ?b1 = written p @ [ch_quote]" using p1 blk o lo by simp_all
      obtain b2 where b2: "escape_loop u (?o + 1) ?p1 = Ok (?p1\<lparr>pb_buffer := Some b2\<rparr>)" "length b2 = length ?b1"
        "take (?o + 1 + length e) b2 = take (?o + 1) ?b1 @ e"
        using escape_loop_writes [of ?p1 ?b1 "?o + 1" u] p1 blk l1(1) unfolding e_def [symmetric] by auto
      let ?j = "?o + length e + 1"
      let ?b3 = "take ?j b2 @ [ch_quote, 0] @ drop (?j + 2) b2"
      have fit: "?j + 2 \<le> length b2" using p1 blk b2(2) l1 by simp
      have t: "take ?j b2 = written p @ ch_quote # e" using b2(3) l1(2) by (simp add: add.commute add.left_commute)
      have "take (?o + length e + 3) ?b3 = take ?j b2 @ [ch_quote, 0]" using fit by (simp add: eval_nat_numeral)
      also have "\<dots> = written p @ quoted s @ [0]" using t q by simp
      finally have "take (?o + length e + 3) ?b3 = written p @ quoted s @ [0]" .
      moreover have "length ?b3 = length blk" using fit b2(2) l1(1) by simp
      ultimately have "pr F p (return_true (p1\<lparr>pb_buffer := Some ?b3\<rparr>)) (fin p (quoted s))" by (rule wrote [rotated])
      moreover have "poke ?o [ch_quote] p1 = Ok ?p1" using p1 blk by (simp add: poke_Ok)
      moreover have "poke ?j [ch_quote, 0] (?p1\<lparr>pb_buffer := Some b2\<rparr>) = Ok (p1\<lparr>pb_buffer := Some ?b3\<rparr>)"
        using fit by (simp add: poke_Ok)
      ultimately show ?thesis using False b2(1) by simp
    qed
  qed
qed

lemma number_fits:
  assumes "is_double d"
  shows "\<forall>s \<in> set (number_writes d). length s \<le> 24"
proof (cases d)
  case (Fin neg m e)
  with assms have "dbl_ok m e" by (simp add: is_double_def)
  from number_writes_shape [OF this, of neg] show ?thesis unfolding Fin by (auto simp: number_shape_def)
qed (simp add: number_writes_def)

lemma number_text_in: "number_text d \<in> set (number_writes d)"
proof -
  have "number_writes d \<noteq> []" by (simp add: number_writes_def Let_def split: dbl.split prod.split)
  then show ?thesis by (simp add: number_text_def)
qed

lemma number_rule:
  assumes "pb_ok p" and "is_double (valuedouble it)"
    and "\<not> F \<longrightarrow> room p (pb_offset p + length (number_text (valuedouble it)) + 2)"
  shows "pr F p (print_number it p) (fin p (number_text (valuedouble it)))"
proof -
  let ?t = "number_text (valuedouble it)"
  note fit = number_fits [OF assms(2)]
  have "length ?t \<le> 24" using fit number_text_in by blast
  moreover have "\<not> (\<exists>s \<in> set (number_writes (valuedouble it)). 26 < length s + 1)" using fit by fastforce
  ultimately have "print_number it p = put (length ?t + 1) (?t @ [0]) (\<lambda>p1. return_true (advance (length ?t) p1)) p"
    unfolding print_number_def Let_def by simp
  also have "pr F p \<dots> (fin p ?t)"
  proof (rule put_rule [OF assms(1)])
    fix q
    assume q: "later p q" "pb_offset q = pb_offset p" "pb_offset p + (length ?t + 1) < pb_length q"
      "take (pb_offset p + length (?t @ [0])) (the (pb_buffer q)) = written p @ ?t @ [0]"
    then have "later p (advance (length ?t) q)" by (intro later_advance) simp_all
    with q show "pr F p (return_true (advance (length ?t) q)) (fin p ?t)"
      by (intro pr_true) (simp_all add: fin_def advance_def)
  qed (use assms(3) in \<open>simp_all add: eval_nat_numeral\<close>)
  finally show ?thesis .
qed

section \<open>Values\<close>

lemma later_keeps:
  "later p q \<Longrightarrow> pb_ok q" "later p q \<Longrightarrow> pb_format q = pb_format p" "later p q \<Longrightarrow> pb_depth q = pb_depth p"
  by (auto simp: later_def frame_def)

lemma adv_keeps:
  assumes "adv p t q"
  shows "pb_ok q" "pb_format q = pb_format p" "pb_depth q = pb_depth p" "pb_offset q = pb_offset p + length t"
    "room p n \<Longrightarrow> room q n" "later p q"
  using assms later_keeps [of p q] room_later [of p q] by (auto simp: adv_def)

text \<open>The contract of \<^verbatim>\<open>print_value\<close> on one item.\<close>

definition prints :: "cJSON \<Rightarrow> bool" where
  "prints x \<longleftrightarrow>
     (\<forall>p F. pb_ok p \<longrightarrow>
        (\<not> F \<longrightarrow> (\<exists>t. text_value (pb_format p) (pb_depth p) x = Some t \<and> room p (pb_offset p + length t + 2))) \<longrightarrow>
        pr F p (print_value x p) (\<lambda>q. \<exists>t. text_value (pb_format p) (pb_depth p) x = Some t \<and> fin p t q))"

lemma fin_then:
  assumes "pr F p m (\<lambda>q. \<exists>t. T = Some t \<and> fin p t q)" and "\<And>t. T = Some t \<Longrightarrow> 0 \<notin> set t"
    and go: "\<And>t q. T = Some t \<Longrightarrow> adv p t q \<Longrightarrow> pr F p (f q) Q"
  shows "pr F p (pthen m (\<lambda>p1. rbind (update_offset p1) f)) Q"
proof (rule pr_pthen, rule pr_mono [OF assms(1)])
  fix p1
  assume "\<exists>t. T = Some t \<and> fin p t p1"
  then obtain t where t: "T = Some t" "fin p t p1" by blast
  have "okp (\<lambda>q. pr F p (f q) Q) (update_offset p1)"
    using update_offset_rule [OF t(2) assms(2) [OF t(1)]] by (rule okp_mono) (rule go [OF t(1)])
  then show "pr F p (rbind (update_offset p1) f) Q" by (rule pr_rbind)
qed

lemma printed_then:
  assumes "prints x" and "doubles x" and "pb_ok p"
    and "\<not> F \<longrightarrow> (\<exists>t. text_value (pb_format p) (pb_depth p) x = Some t \<and> room p (pb_offset p + length t + 2))"
    and go: "\<And>t q. text_value (pb_format p) (pb_depth p) x = Some t \<Longrightarrow> adv p t q \<Longrightarrow> pr F p (f q) Q"
  shows "pr F p (pthen (print_value x p) (\<lambda>p1. rbind (update_offset p1) f)) Q"
  using assms(1,3,4) unfolding prints_def by (intro fin_then [OF _ text_nonzero(1) [OF assms(2)] go]) blast+

lemma named_then:
  assumes "pb_ok p" and "\<not> F \<longrightarrow> room p (pb_offset p + length (quoted s) + 2)"
    and go: "\<And>q. adv p (quoted s) q \<Longrightarrow> pr F p (f q) Q"
  shows "pr F p (pthen (print_string_ptr s p) (\<lambda>p1. rbind (update_offset p1) f)) Q"
  using string_rule [OF assms(1,2)]
  by (intro fin_then [where T = "Some (quoted s)"]) (auto simp: quoted_nonzero intro: go)

lemma pr_at: "adv p s q \<Longrightarrow> pr F p m Q = pr F q m Q"
  by (simp add: pr_def adv_def later_def)

lemma elements_rule:
  assumes "\<forall>x \<in> set xs. prints x \<and> doubles x" and "pb_ok p"
    and "\<not> F \<longrightarrow> (\<exists>t. text_elements (pb_format p) (pb_depth p) xs = Some t \<and> room p (pb_offset p + length t + 2))"
  shows "pr F p (print_elements xs p) (\<lambda>q. \<exists>t. text_elements (pb_format p) (pb_depth p) xs = Some t \<and> adv p t q)"
  using assms
proof (induction xs arbitrary: p)
  case Nil
  then show ?case by (auto intro!: pr_true simp: adv_refl adv_later [OF adv_refl])
next
  case (Cons x xs)
  let ?fmt = "pb_format p" and ?d = "pb_depth p"
  let ?c = "ch_comma # when_fmt ?fmt 32"
  have x: "prints x" "doubles x" using Cons.prems(1) by simp_all
  have rm: "\<not> F \<longrightarrow> (\<exists>t u. text_value ?fmt ?d x = Some t \<and> text_elements ?fmt ?d xs = Some u \<and>
      room p (pb_offset p + length t + (if xs \<noteq> [] then length ?c else 0) + length u + 2))"
    using Cons.prems(3) by (auto simp: ocat_Some elim!: room_mono)
  show ?case
    unfolding print_elements.simps
  proof (rule printed_then [OF x Cons.prems(2)])
    show "\<not> F \<longrightarrow> (\<exists>t. text_value ?fmt ?d x = Some t \<and> room p (pb_offset p + length t + 2))"
      using rm by (auto elim!: room_mono)
  next
    fix t q
    assume t: "text_value ?fmt ?d x = Some t" and q: "adv p t q"
    note k = adv_keeps [OF q]
    show "pr F p (if xs \<noteq> [] then array_comma (print_elements xs) q else print_elements xs q)
      (\<lambda>r. \<exists>t. text_elements ?fmt ?d (x # xs) = Some t \<and> adv p t r)"
    proof (cases "xs = []")
      case True
      then show ?thesis using t q k(6) by (auto intro!: pr_true)
    next
      case False
      have "pr F q (array_comma (print_elements xs) q)
        (\<lambda>r. \<exists>u. text_elements ?fmt ?d xs = Some u \<and> adv q (?c @ u) r)"
        unfolding array_comma_def Let_def
      proof (rule put_adv [OF k(1)])
        show "\<not> F \<longrightarrow> room q (pb_offset q + ((if pb_format q then 2 else 1) + 1) + 1)"
          using rm t k(2,4) False by (auto simp: when_fmt_def intro: room_mono [OF k(5)])
      next
        fix r
        assume "adv q (take (if pb_format q then 2 else 1) (ch_comma # (if pb_format q then [32] else []) @ [0])) r"
        then have r: "adv q ?c r" using k by (simp add: when_fmt_def split: if_splits)
        note l = adv_keeps [OF r]
        have "pr F r (print_elements xs r) (\<lambda>s. \<exists>u. text_elements (pb_format r) (pb_depth r) xs = Some u \<and> adv r u s)"
        proof (rule Cons.IH)
          show "\<not> F \<longrightarrow> (\<exists>u. text_elements (pb_format r) (pb_depth r) xs = Some u \<and> room r (pb_offset r + length u + 2))"
          proof
            assume "\<not> F"
            then obtain u where u: "text_elements ?fmt ?d xs = Some u"
              "room p (pb_offset p + length t + length ?c + length u + 2)" using rm t False by auto
            have "room r (pb_offset r + length u + 2)"
              using l(5) [OF k(5) [OF u(2)]] k l by (simp add: add.assoc)
            with u k l show "\<exists>u. text_elements (pb_format r) (pb_depth r) xs = Some u \<and> room r (pb_offset r + length u + 2)"
              by simp
          qed
        qed (use Cons.prems(1) l in simp_all)
        then have "pr F r (print_elements xs r) (\<lambda>s. \<exists>u. text_elements ?fmt ?d xs = Some u \<and> adv q (?c @ u) s)"
          using k(2,3) l(2,3) adv_trans [OF r] by (elim pr_mono) fastforce
        then show "pr F q (print_elements xs r) (\<lambda>s. \<exists>u. text_elements ?fmt ?d xs = Some u \<and> adv q (?c @ u) s)"
          by (rule pr_later [OF l(6)])
      qed (use k in \<open>auto simp: when_fmt_def\<close>)
      then have "pr F q (array_comma (print_elements xs) q)
          (\<lambda>r. \<exists>t. text_elements ?fmt ?d (x # xs) = Some t \<and> adv p t r)"
        using t q False by (auto elim!: pr_mono intro: adv_trans)
      with False show ?thesis using pr_later [OF k(6)] by simp
    qed
  qed
qed

lemma indent_rule:
  assumes "pb_ok p" and "\<not> F \<longrightarrow> room p (pb_offset p + length (tabs (pb_format p) (pb_depth p)) + 1)"
    and go: "\<And>q. adv p (tabs (pb_format p) (pb_depth p)) q \<Longrightarrow> pr F p (f q) Q"
  shows "pr F p (object_indent f p) Q"
proof (cases "pb_format p")
  case True
  with assms(2) have "pr F p (put (pb_depth p) (replicate (pb_depth p) 9) (\<lambda>q. f (advance (pb_depth p) q)) p) Q"
    by (intro put_adv [OF assms(1)] go) (simp_all add: tabs_def)
  with True show ?thesis by (simp add: object_indent_def)
next
  case False
  with go [of p] adv_refl [OF assms(1)] show ?thesis by (simp add: object_indent_def tabs_def)
qed

lemma colon_rule:
  assumes "pb_ok p" and "bs = ch_colon # when_fmt (pb_format p) 9"
    and "\<not> F \<longrightarrow> room p (pb_offset p + length bs + 1)" and go: "\<And>q. adv p bs q \<Longrightarrow> pr F p (f q) Q"
  shows "pr F p (object_colon f p) Q"
proof -
  have "object_colon f p = put (length bs) bs (\<lambda>q. f (advance (length bs) q)) p"
    by (simp add: object_colon_def assms(2) when_fmt_def Let_def numeral_2_eq_2)
  also have "pr F p \<dots> Q" using assms(3) by (intro put_adv [OF assms(1)] go) simp_all
  finally show ?thesis .
qed

lemma comma_rule:
  assumes "pb_ok p" and "bs = (if has_next then [ch_comma] else []) @ when_fmt (pb_format p) 10"
    and "\<not> F \<longrightarrow> room p (pb_offset p + length bs + 2)" and go: "\<And>q. adv p bs q \<Longrightarrow> pr F p (f q) Q"
  shows "pr F p (object_comma has_next f p) Q"
proof -
  have "object_comma has_next f p = put (length bs + 1) (bs @ [0]) (\<lambda>q. f (advance (length bs) q)) p"
    by (simp add: object_comma_def assms(2) when_fmt_def Let_def)
  also have "pr F p \<dots> Q" using assms(3) by (intro put_adv [OF assms(1)] go) simp_all
  finally show ?thesis .
qed

text \<open>A rule at a later buffer, for a text \<open>t\<close> that needs \<open>n\<close> bytes, seen from the first buffer.\<close>

lemma based:
  assumes "adv p s q" and "\<not> F \<longrightarrow> room p (pb_offset p + length s + n)" and "\<And>r. adv p (s @ t) r \<Longrightarrow> pr F p (f r) Q"
    and "pb_ok q \<Longrightarrow> \<not> F \<longrightarrow> room q (pb_offset q + n) \<Longrightarrow> (\<And>r. adv q t r \<Longrightarrow> pr F q (f r) Q) \<Longrightarrow> pr F q m Q"
  shows "pr F p m Q"
  unfolding pr_at [OF assms(1)]
proof (rule assms(4))
  note k = adv_keeps [OF assms(1)]
  show "pb_ok q" by (rule k)
  show "\<not> F \<longrightarrow> room q (pb_offset q + n)" using assms(2) k(4,5) by simp
  show "pr F q (f r) Q" if "adv q t r" for r
    using assms(3) [OF adv_trans [OF assms(1) that]] by (simp add: pr_at [OF assms(1)])
qed

lemma value_based:
  assumes "adv p s q" and "prints x" and "doubles x"
    and "\<not> F \<longrightarrow> (\<exists>t. text_value (pb_format p) (pb_depth p) x = Some t \<and> room p (pb_offset p + length s + length t + 2))"
    and "\<And>t r. text_value (pb_format p) (pb_depth p) x = Some t \<Longrightarrow> adv p (s @ t) r \<Longrightarrow> pr F p (f r) Q"
  shows "pr F p (pthen (print_value x q) (\<lambda>p1. rbind (update_offset p1) f)) Q"
  unfolding pr_at [OF assms(1)]
proof (rule printed_then [OF assms(2,3)])
  note k = adv_keeps [OF assms(1)]
  show "pb_ok q" by (rule k)
  show "\<not> F \<longrightarrow> (\<exists>t. text_value (pb_format q) (pb_depth q) x = Some t \<and> room q (pb_offset q + length t + 2))"
    using assms(4) k(2-5) by auto
  show "pr F q (f r) Q" if "text_value (pb_format q) (pb_depth q) x = Some t" "adv q t r" for t r
    using assms(5) [OF _ adv_trans [OF assms(1) that(2)]] that(1) k(2,3) by (simp add: pr_at [OF assms(1)])
qed

lemma members_rule:
  assumes "\<forall>x \<in> set xs. prints x \<and> doubles x" and "pb_ok p"
    and "\<not> F \<longrightarrow> (\<exists>t. text_members (pb_format p) (pb_depth p) xs = Some t \<and> room p (pb_offset p + length t + 2))"
  shows "pr F p (print_members xs p) (\<lambda>q. \<exists>t. text_members (pb_format p) (pb_depth p) xs = Some t \<and> adv p t q)"
  using assms
proof (induction xs arbitrary: p)
  case Nil
  then show ?case by (auto intro!: pr_true simp: adv_refl adv_later [OF adv_refl])
next
  case (Cons x xs)
  let ?fmt = "pb_format p" and ?d = "pb_depth p"
  define a n b where "a = tabs ?fmt ?d" "n = quoted (jstring (jfields x))" "b = ch_colon # when_fmt ?fmt 9"
  define c where "c = (if xs \<noteq> [] then [ch_comma] else []) @ when_fmt ?fmt 10"
  define Q where "Q = (\<lambda>r. \<exists>t. text_members ?fmt ?d (x # xs) = Some t \<and> adv p t r)"
  have tm: "text_members ?fmt ?d (x # xs) = ocat (a @ n @ b) (text_value ?fmt ?d x) c (text_members ?fmt ?d xs)"
    by (simp add: a_n_b_def c_def)
  have rm: "\<exists>t u. text_value ?fmt ?d x = Some t \<and> text_members ?fmt ?d xs = Some u \<and>
      room p (pb_offset p + length ((((a @ n) @ b) @ t) @ c) + length u + 2)" if "\<not> F"
    using Cons.prems(3) that unfolding tm by (fastforce simp: ocat_Some elim!: room_mono)
  have last: "pr F p (print_members xs q) Q"
    if t: "text_value ?fmt ?d x = Some t" and q: "adv p ((((a @ n) @ b) @ t) @ c) q" for t q
  proof -
    note k = adv_keeps [OF q]
    have "\<not> F \<longrightarrow> (\<exists>u. text_members (pb_format q) (pb_depth q) xs = Some u \<and> room q (pb_offset q + length u + 2))"
      using rm t k(5) unfolding k(2-4) by (metis option.inject)
    then have "pr F q (print_members xs q) (\<lambda>r. \<exists>u. text_members ?fmt ?d xs = Some u \<and> adv q u r)"
      using Cons.IH [of q] Cons.prems(1) k(1-3) by simp
    then have "pr F q (print_members xs q) Q"
      unfolding Q_def tm using t adv_trans [OF q] by (elim pr_mono) fastforce
    then show ?thesis by (simp add: pr_at [OF q])
  qed
  have tail: "pr F p (pthen (print_value x q) (\<lambda>p4. rbind (update_offset p4)
      (object_comma (xs \<noteq> []) (print_members xs)))) Q" if q: "adv p ((a @ n) @ b) q" for q
  proof (rule value_based [OF q])
    fix t r
    assume t: "text_value ?fmt ?d x = Some t" and r: "adv p (((a @ n) @ b) @ t) r"
    have c: "c = (if xs \<noteq> [] then [ch_comma] else []) @ when_fmt (pb_format r) 10"
      using adv_keeps(2) [OF r] by (simp add: c_def)
    show "pr F p (object_comma (xs \<noteq> []) (print_members xs) r) Q"
      by (rule based [where n = "length c + 2", OF r _ last [OF t] comma_rule [OF _ c]], use rm t in \<open>fastforce elim: room_mono\<close>)
        simp_all
  qed (use Cons.prems(1) rm in \<open>fastforce elim: room_mono\<close>)+
  have room: "\<not> F \<longrightarrow> room p k" if "k \<le> pb_offset p + length ((a @ n) @ b) + 2" for k
    using rm that by (fastforce elim: room_mono)
  show ?case
    unfolding print_members.simps Q_def [symmetric]
  proof (rule indent_rule [OF Cons.prems(2)])
    fix q
    assume "adv p (tabs ?fmt ?d) q"
    then have q: "adv p a q" by (simp add: a_n_b_def)
    show "pr F p (pthen (print_string_ptr (jstring (jfields x)) q) (\<lambda>p2. rbind (update_offset p2)
         (object_colon (\<lambda>p3. pthen (print_value x p3) (\<lambda>p4. rbind (update_offset p4)
             (object_comma (xs \<noteq> []) (print_members xs))))))) Q"
    proof (rule based [where n = "length (quoted (jstring (jfields x))) + 2", OF q _ _ named_then])
      fix r
      assume "adv p (a @ quoted (jstring (jfields x))) r"
      then have r: "adv p (a @ n) r" by (simp add: a_n_b_def)
      have b: "b = ch_colon # when_fmt (pb_format r) 9" using adv_keeps(2) [OF r] by (simp add: a_n_b_def)
      show "pr F p (object_colon (\<lambda>p3. pthen (print_value x p3) (\<lambda>p4. rbind (update_offset p4)
             (object_comma (xs \<noteq> []) (print_members xs)))) r) Q"
        by (rule based [where n = "length b + 1", OF r _ tail colon_rule [OF _ b]], rule room) simp_all
    qed ((rule room)?, simp_all add: a_n_b_def)
  qed (rule room, simp add: a_n_b_def)
qed

text \<open>Between the brackets the depth is one more.\<close>

lemma deeper_simps [simp]:
  "pb_ok (deeper p) = pb_ok p" "frame (deeper p) = frame p" "pb_offset (deeper p) = pb_offset p"
  "pb_length (deeper p) = pb_length p" "written (deeper p) = written p" "room (deeper p) n = room p n"
  "pb_format (deeper p) = pb_format p" "pb_depth (deeper p) = pb_depth p + 1" "pb_buffer (deeper p) = pb_buffer p"
  by (simp_all add: deeper_def pb_ok_def frame_def written_def room_def)

lemma shallower_simps [simp]:
  "pb_ok (shallower p) = pb_ok p" "frame (shallower p) = frame p" "pb_offset (shallower p) = pb_offset p"
  "pb_length (shallower p) = pb_length p" "pb_depth (shallower p) = pb_depth p - 1"
  "pb_buffer (shallower p) = pb_buffer p"
  by (simp_all add: shallower_def pb_ok_def frame_def)

lemma inner_fin: "adv p s q \<Longrightarrow> fin (deeper q) t r \<Longrightarrow> fin p (s @ t) (shallower r)"
  by (erule adv_fin) (simp add: fin_def later_def)

lemma inner_rule:
  assumes "adv p s q" and "pr F (deeper q) m (\<lambda>r. \<exists>t. T = Some t \<and> adv (deeper q) t r)"
    and "\<And>t r. T = Some t \<Longrightarrow> adv (deeper q) t r \<Longrightarrow> pr F (deeper q) (f r) (\<lambda>u. fin p (s @ t @ c) u)"
  shows "pr F p (pthen m f) (\<lambda>u. \<exists>t. T = Some t \<and> fin p (s @ t @ c) u)"
proof -
  have "pr F (deeper q) (pthen m f) (\<lambda>u. \<exists>t. T = Some t \<and> fin p (s @ t @ c) u)"
    by (rule pr_pthen, rule pr_mono [OF assms(2)]) (auto intro: pr_mono [OF assms(3)])
  then show ?thesis using pr_frame [of p "deeper q"] assms(1) by (simp add: adv_def later_def)
qed

lemma close_rule:
  assumes "adv p s q" and "adv (deeper q) t r" and "length c \<le> needed" and "\<not> F \<longrightarrow> room r (pb_offset r + needed + 1)"
  shows "pr F (deeper q) (put needed (c @ [0]) (\<lambda>u. return_true (shallower u)) r) (\<lambda>u. fin p (s @ t @ c) u)"
  unfolding pr_at [OF assms(2)]
proof (rule put_fin [OF adv_keeps(1) [OF assms(2)] assms(3,4)])
  fix u
  assume "fin r c u"
  then have u: "fin p (s @ t @ c) (shallower u)" using inner_fin [OF assms(1) adv_fin [OF assms(2)]] by simp
  moreover have "frame (shallower u) = frame r"
    using u assms(1,2) by (simp add: fin_def later_def adv_def)
  ultimately show "pr F r (return_true (shallower u)) (\<lambda>u. fin p (s @ t @ c) u)"
    by (simp add: pr_def return_true_def)
qed

lemma array_rule:
  assumes "\<forall>x \<in> set cs. prints x \<and> doubles x" and "pb_ok p"
    and "\<not> F \<longrightarrow> (\<exists>t. text_elements (pb_format p) (pb_depth p + 1) cs = Some t \<and> room p (pb_offset p + length t + 4))"
  shows "pr F p (put 1 [ch_lbracket] (\<lambda>p1. pthen (print_elements cs (deeper (advance 1 p1))) (\<lambda>p2.
      put 2 [ch_rbracket, 0] (\<lambda>p3. return_true (shallower p3)) p2)) p)
    (\<lambda>q. \<exists>t. text_elements (pb_format p) (pb_depth p + 1) cs = Some t \<and> fin p ([ch_lbracket] @ t @ [ch_rbracket]) q)"
proof (rule put_adv [OF assms(2), where f = "\<lambda>q. pthen (print_elements cs (deeper q)) (\<lambda>p2.
      put 2 [ch_rbracket, 0] (\<lambda>p3. return_true (shallower p3)) p2)"])
  show "\<not> F \<longrightarrow> room p (pb_offset p + 1 + 1)" using assms(3) by (auto elim: room_mono)
next
  fix q
  assume "adv p (take 1 [ch_lbracket]) q"
  then have q: "adv p [ch_lbracket] q" by simp
  note k = adv_keeps [OF q]
  have rm: "\<not> F \<longrightarrow> (\<exists>t. text_elements (pb_format p) (pb_depth p + 1) cs = Some t \<and> room q (pb_offset q + length t + 3))"
    using assms(3) k(4,5) by (fastforce elim: room_mono)
  show "pr F p (pthen (print_elements cs (deeper q)) (\<lambda>p2.
      put 2 [ch_rbracket, 0] (\<lambda>p3. return_true (shallower p3)) p2))
    (\<lambda>q. \<exists>t. text_elements (pb_format p) (pb_depth p + 1) cs = Some t \<and> fin p ([ch_lbracket] @ t @ [ch_rbracket]) q)"
  proof (rule inner_rule [OF q])
    show "pr F (deeper q) (print_elements cs (deeper q))
      (\<lambda>r. \<exists>t. text_elements (pb_format p) (pb_depth p + 1) cs = Some t \<and> adv (deeper q) t r)"
      using elements_rule [OF assms(1), of "deeper q" F] k(1-3) rm by (fastforce elim: room_mono)
  next
    fix t r
    assume t: "text_elements (pb_format p) (pb_depth p + 1) cs = Some t" and r: "adv (deeper q) t r"
    have "\<not> F \<longrightarrow> room r (pb_offset r + 2 + 1)"
      using rm t adv_keeps(4,5) [OF r] by (auto simp: numeral_3_eq_3)
    with close_rule [OF q r, of "[ch_rbracket]" 2 F]
    show "pr F (deeper q) (put 2 [ch_rbracket, 0] (\<lambda>p3. return_true (shallower p3)) r)
      (\<lambda>u. fin p ([ch_lbracket] @ t @ [ch_rbracket]) u)" by simp
  qed
qed simp_all

lemma depth_offset_commute: "(p :: printbuffer)\<lparr>pb_depth := d, pb_offset := n\<rparr> = p\<lparr>pb_offset := n, pb_depth := d\<rparr>"
  by (cases p) simp

lemma object_rule:
  fixes p :: printbuffer
  defines "s \<equiv> ch_lbrace # when_fmt (pb_format p) 10" and "c \<equiv> tabs (pb_format p) (pb_depth p) @ [ch_rbrace]"
    and "T \<equiv> \<lambda>cs. text_members (pb_format p) (pb_depth p + 1) cs"
  assumes "\<forall>x \<in> set cs. prints x \<and> doubles x" and "pb_ok p"
    and "\<not> F \<longrightarrow> (\<exists>t. T cs = Some t \<and> room p (pb_offset p + length s + length t + length c + 2))"
  shows "pr F p (object_open (\<lambda>p1. pthen (print_members cs p1) object_close) p)
    (\<lambda>q. \<exists>t. T cs = Some t \<and> fin p (s @ t @ c) q)"
proof -
  have op: "object_open f p = put (length s + 1) s (\<lambda>q. f (deeper (advance (length s) q))) p" for f
    by (simp add: object_open_def s_def when_fmt_def Let_def advance_def deeper_def depth_offset_commute numeral_2_eq_2 numeral_3_eq_3)
  show ?thesis
    unfolding op
  proof (rule put_adv [OF assms(5), where f = "\<lambda>q. pthen (print_members cs (deeper q)) object_close"])
    show "\<not> F \<longrightarrow> room p (pb_offset p + (length s + 1) + 1)" using assms(6) by (auto elim: room_mono)
  next
    fix q
    assume "adv p (take (length s) s) q"
    then have q: "adv p s q" by simp
    note k = adv_keeps [OF q]
    have rm: "\<not> F \<longrightarrow> (\<exists>t. T cs = Some t \<and> room q (pb_offset q + length t + length c + 2))"
      using assms(6) k(4,5) by auto
    show "pr F p (pthen (print_members cs (deeper q)) object_close) (\<lambda>q. \<exists>t. T cs = Some t \<and> fin p (s @ t @ c) q)"
    proof (rule inner_rule [OF q])
      show "pr F (deeper q) (print_members cs (deeper q)) (\<lambda>r. \<exists>t. T cs = Some t \<and> adv (deeper q) t r)"
        using members_rule [OF assms(4), of "deeper q" F] k(1-3) rm unfolding T_def
        by (fastforce elim: room_mono)
    next
      fix t r
      assume t: "T cs = Some t" and r: "adv (deeper q) t r"
      note l = adv_keeps [OF r]
      have cl: "object_close r = put (length c + 1) (c @ [0]) (\<lambda>u. return_true (shallower u)) r"
        using k(2,3) l(2,3) by (simp add: object_close_def c_def tabs_def numeral_2_eq_2)
      have "\<not> F \<longrightarrow> room r (pb_offset r + (length c + 1) + 1)"
        using rm t l(4,5) by (auto elim: room_mono)
      then show "pr F (deeper q) (object_close r) (fin p (s @ t @ c))"
        unfolding cl by (intro close_rule [OF q r]) simp_all
    qed
  qed simp_all
qed

lemma pr_weaken: "pr F p m (fin p t) \<Longrightarrow> pr F p m (\<lambda>q. \<exists>u. Some t = Some u \<and> fin p u q)"
  by (rule pr_mono) auto

lemma value_rule: "doubles x \<Longrightarrow> prints x"
proof (induction x)
  case (CJSON it cs)
  then have cs: "\<forall>x \<in> set cs. prints x \<and> doubles x" and d: "is_double (valuedouble it)"
    by (auto simp: list_all_iff)
  show ?case
    unfolding prints_def
  proof (intro allI impI)
    fix p :: printbuffer and F
    let ?T = "text_value (pb_format p) (pb_depth p) (CJSON it cs)"
    assume ok: "pb_ok p" and rm: "\<not> F \<longrightarrow> (\<exists>t. ?T = Some t \<and> room p (pb_offset p + length t + 2))"
    have known: "\<not> F \<longrightarrow> room p (pb_offset p + length t + 2)" if "?T = Some t" for t using rm that by auto
    note lit = literal_rule [OF ok] and num = number_rule [OF ok d] and str = string_rule [OF ok]
    define ty where "ty = jtype it AND 0xFF"
    consider "ty = cJSON_NULL" | "ty = cJSON_False" | "ty = cJSON_True" | "ty = cJSON_Number" | "ty = cJSON_Raw"
      | "ty = cJSON_String" | "ty = cJSON_Array" | "ty = cJSON_Object"
      | "ty \<notin> {cJSON_NULL, cJSON_False, cJSON_True, cJSON_Number, cJSON_Raw, cJSON_String, cJSON_Array, cJSON_Object}"
      by blast
    then show "pr F p (print_value (CJSON it cs) p) (\<lambda>q. \<exists>t. ?T = Some t \<and> fin p t q)"
    proof cases
      case 5
      then show ?thesis
      proof (cases "valuestring it")
        case None
        with 5 rm show ?thesis by (auto simp: ty_def [symmetric] cJSON_types print_raw_def intro: pr_false)
      next
        case (Some s)
        with 5 known lit [of F "cbytes s"] show ?thesis
          by (simp add: ty_def [symmetric] cJSON_types print_raw_def)
      qed
    next
      case 7
      then have T: "?T = ocat [ch_lbracket] (text_elements (pb_format p) (pb_depth p + 1) cs) [ch_rbracket] (Some [])"
        by (simp add: ty_def [symmetric] cJSON_types)
      have "\<not> F \<longrightarrow> (\<exists>t. text_elements (pb_format p) (pb_depth p + 1) cs = Some t \<and> room p (pb_offset p + length t + 4))"
        using rm unfolding T by (fastforce simp: ocat_Some elim: room_mono)
      from array_rule [OF cs ok this] 7 show ?thesis
        unfolding T by (auto simp: ty_def [symmetric] cJSON_types ocat_Some elim!: pr_mono)
    next
      case 8
      then have T: "?T = ocat (ch_lbrace # when_fmt (pb_format p) 10) (text_members (pb_format p) (pb_depth p + 1) cs)
          (tabs (pb_format p) (pb_depth p) @ [ch_rbrace]) (Some [])"
        by (simp add: ty_def [symmetric] cJSON_types)
      have "\<not> F \<longrightarrow> (\<exists>t. text_members (pb_format p) (pb_depth p + 1) cs = Some t \<and>
          room p (pb_offset p + length (ch_lbrace # when_fmt (pb_format p) 10) + length t +
            length (tabs (pb_format p) (pb_depth p) @ [ch_rbrace]) + 2))"
        using rm unfolding T by (fastforce simp: ocat_Some elim: room_mono)
      from object_rule [OF cs ok this] 8 show ?thesis
        unfolding T by (auto simp: ty_def [symmetric] cJSON_types ocat_Some elim!: pr_mono)
    qed (use known rm lit [of F lit_null 5] lit [of F lit_false 6] lit [of F lit_true 5] num [of F] str [of F "valuestring it"]
      in \<open>auto simp: ty_def [symmetric] cJSON_types print_string_def intro: pr_false\<close>)
  qed
qed

end
