(* ===== verification/Json_Print_Props.thy ===== *)
theory Json_Print_Props
  imports Json_Print_Values
begin

text \<open>
  What the entry points of the printer promise their callers.
\<close>

lemma printed_value:
  fixes p :: printbuffer
  assumes "doubles x" and "pb_ok p" and "pb_offset p = 0" and "pb_depth p = 0" and "pb_format p = fmt"
  shows "okp (\<lambda>(ok, q). frame q = frame p \<and>
      (if ok then \<exists>t. text_value fmt 0 x = Some t \<and> fin p t q
       else \<not> (\<exists>t. text_value fmt 0 x = Some t \<and> room p (length t + 2)))) (print_value x p)"
proof -
  let ?F = "\<not> (\<exists>t. text_value fmt 0 x = Some t \<and> room p (length t + 2))"
  have "pr ?F p (print_value x p) (\<lambda>q. \<exists>t. text_value (pb_format p) (pb_depth p) x = Some t \<and> fin p t q)"
    using value_rule [OF assms(1), unfolded prints_def, rule_format, OF assms(2), of ?F] assms(3-) by simp
  then show ?thesis unfolding pr_def assms(4,5) .
qed

lemma okp_rbind_pair:
  "okp (\<lambda>(a, b). P a b) m \<Longrightarrow> (\<And>a b. P a b \<Longrightarrow> okp Q (f (a, b))) \<Longrightarrow> okp Q (rbind m f)"
  unfolding okp_rbind by (erule okp_mono) auto

lemma fin_start:
  assumes "fin p t q" and "pb_offset p = 0"
  obtains blk where "pb_buffer q = Some blk" "pb_length q \<le> length blk" "length t < pb_length q" "take (length t + 1) blk = t @ [0]"
  using assms later_buffer [of p q] that by (force simp: fin_def written_def)

lemma update_offset_keeps:
  "update_offset q = Ok r \<Longrightarrow> pb_buffer r = pb_buffer q \<and> pb_length r = pb_length q \<and> frame r = frame q"
  by (auto simp: update_offset_def frame_def Let_def split: option.splits if_splits)

lemma final_offset:
  assumes "fin p t q" and "0 \<notin> set t" and "pb_offset p = 0"
  shows "okp (\<lambda>r. pb_offset r = length t \<and> fin p t r) (update_offset q)"
proof -
  obtain r where r: "update_offset q = Ok r" and a: "adv p t r"
    using update_offset_rule [OF assms(1,2)] by (auto simp: okp_iff)
  then show ?thesis using update_offset_keeps [OF r] assms by (auto simp: fin_def adv_def)
qed

section \<open>The entry points\<close>

lemma shrink_rule:
  assumes "fin p t q" and "pb_offset p = 0" and "pb_offset q = length t"
  shows "okp (\<lambda>(r, live). case r of
      None \<Rightarrow> live = pb_live q - 1 \<and> \<not> pb_hooks q (pb_allocs q)
    | Some b \<Rightarrow> live = pb_live q \<and> b = t @ [0]) (print_shrink q)"
proof (rule fin_start [OF assms(1,2)])
  fix blk
  assume b: "pb_buffer q = Some blk" "pb_length q \<le> length blk" "length t < pb_length q" "take (length t + 1) blk = t @ [0]"
  then have "Suc (length t) - length blk = 0" "min (pb_length q) (length t + 1) = length t + 1" by simp_all
  with b assms(3) show ?thesis by (auto simp: print_shrink_def try_alloc_def print_fail_def resize_def)
qed

text \<open>
  What a call promises: no block is lost; what it returns is the text of the item; and it returns
  a block if no allocation fails and the text is short enough.
\<close>

definition print_promise :: "(u8 list \<Rightarrow> u8 list \<Rightarrow> bool) \<Rightarrow> print_env \<Rightarrow> cJSON \<Rightarrow> bool \<Rightarrow> print_result \<Rightarrow> bool" where
  "print_promise holds E x fmt = (\<lambda>(r, live).
     case r of
       None \<Rightarrow> live = pe_live E \<and>
         \<not> ((\<forall>i. pe_hooks E i) \<and> (\<exists>t. text_value fmt 0 x = Some t \<and> int (length t) + 2 \<le> INT_MAX))
     | Some blk \<Rightarrow> live = pe_live E + 1 \<and> (\<exists>t. text_value fmt 0 x = Some t \<and> holds t blk))"

definition exactly :: "u8 list \<Rightarrow> u8 list \<Rightarrow> bool" where
  "exactly t blk \<longleftrightarrow> blk = t @ [0]"

definition begins :: "u8 list \<Rightarrow> u8 list \<Rightarrow> bool" where
  "begins t blk \<longleftrightarrow> take (length t + 1) blk = t @ [0]"

lemma start_simps [simp]:
  "pb_offset (start_print E n fmt) = 0" "pb_depth (start_print E n fmt) = 0" "pb_format (start_print E n fmt) = fmt"
  "frame (start_print E n fmt) = (pe_live E + 1, False, fmt, pe_hooks E, pe_realloc E, None)"
  "room (start_print E n fmt) k \<longleftrightarrow> k \<le> n \<or> (\<forall>i. pe_hooks E i) \<and> int k \<le> INT_MAX"
  by (simp_all add: start_print_def frame_def room_def)

lemma start_ok: "int n \<le> INT_MAX \<Longrightarrow> 0 < n \<or> pe_realloc E \<Longrightarrow> pb_ok (start_print E n fmt)"
  by (auto simp: pb_ok_def start_print_def)

lemma frame_live:
  "frame r = (L, na, fmt, H, R, m) \<Longrightarrow> pb_buffer r \<noteq> None \<Longrightarrow> pb_live r = L \<and> pb_hooks r = H"
  by (simp add: frame_def)

lemma print_fail_rule:
  "frame q = (L + 1, False, fmt, H, R, None) \<Longrightarrow> print_fail q = Ok (None, L)"
  by (auto simp: print_fail_def frame_def split: if_splits)

lemma print_keeps_promise:
  assumes "doubles x"
  shows "okp (print_promise exactly E x fmt) (print E (Some x) fmt)"
proof (cases "pe_hooks E 0")
  case True
  let ?p = "start_print E 256 fmt" and ?Q = "print_promise exactly E x fmt"
  have ok: "pb_ok ?p" by (rule start_ok) (simp_all add: INT_MAX_def)
  have "okp ?Q (rbind (update_offset q) print_shrink)" if t: "text_value fmt 0 x = Some t" and f: "fin ?p t q" for q t
  proof -
    have "okp ?Q (print_shrink r)" if "pb_offset r = length t \<and> fin ?p t r" for r
    proof -
      have "frame r = frame ?p" "pb_buffer r \<noteq> None" using that by (auto simp: fin_def later_def pb_ok_def)
      then have "pb_live r = pe_live E + 1" "pb_hooks r = pe_hooks E" using frame_live [of r _ False] by simp_all
      with t shrink_rule [of ?p t r] that show ?thesis
        by (auto simp: print_promise_def exactly_def elim!: okp_mono split: option.splits)
    qed
    with final_offset [OF f text_nonzero(1) [OF assms t]] show ?thesis by (auto elim!: okp_mono)
  qed
  moreover have "okp ?Q (print_fail q)"
    if "frame q = frame ?p" "\<not> (\<exists>t. text_value fmt 0 x = Some t \<and> room ?p (length t + 2))" for q
    using that print_fail_rule [of q "pe_live E"] by (auto simp: print_promise_def)
  ultimately have "okp ?Q (rbind (print_value x ?p)
      (\<lambda>(ok, q). if \<not> ok then print_fail q else rbind (update_offset q) print_shrink))"
    by (intro okp_rbind_pair [OF printed_value [OF assms ok]]) (auto simp del: okp_rbind split: if_splits)
  then show ?thesis using True by (simp add: print_def print_value_ptr_def del: okp_rbind)
qed (simp add: print_def print_promise_def, blast)

lemma buffered_keeps_promise:
  assumes "doubles x" and "prebuffer \<le> INT_MAX" and "0 < prebuffer \<or> pe_realloc E"
  shows "okp (\<lambda>r. 0 \<le> prebuffer \<longrightarrow> print_promise begins E x fmt r) (cJSON_PrintBuffered E (Some x) prebuffer fmt)"
proof (cases "0 \<le> prebuffer \<and> pe_hooks E 0")
  case True
  let ?p = "start_print E (nat prebuffer) fmt"
  have ok: "pb_ok ?p" using assms(2,3) True by (intro start_ok) auto
  have "print_promise begins E x fmt (pb_buffer q, pb_live q)"
    if fr: "frame q = frame ?p" and f: "fin ?p t q" and t: "text_value fmt 0 x = Some t" for q t
  proof (rule fin_start [OF f])
    fix blk
    assume "pb_buffer q = Some blk" "pb_length q \<le> length blk" "length t < pb_length q" "take (length t + 1) blk = t @ [0]"
    with fr t frame_live [of q _ False] show ?thesis by (simp add: print_promise_def begins_def)
  qed simp
  moreover have "okp (print_promise begins E x fmt) (print_fail q)"
    if "frame q = frame ?p" "\<not> (\<exists>t. text_value fmt 0 x = Some t \<and> room ?p (length t + 2))" for q
    using that print_fail_rule [of q "pe_live E"] by (auto simp: print_promise_def)
  ultimately have "okp (print_promise begins E x fmt) (rbind (print_value x ?p)
      (\<lambda>(ok, q). if \<not> ok then print_fail q else Ok (pb_buffer q, pb_live q)))"
    by (intro okp_rbind_pair [OF printed_value [OF assms(1) ok]]) (auto split: if_splits)
  then show ?thesis using True by (simp add: cJSON_PrintBuffered_def print_value_ptr_def del: okp_rbind)
qed (auto simp: cJSON_PrintBuffered_def print_promise_def)

lemma preallocated_room:
  assumes "doubles x" and "nat len \<le> length buf" and "len \<le> INT_MAX"
  shows "okp (\<lambda>(ok, b). \<exists>buf'. b = Some buf' \<and> length buf' = length buf \<and>
      (if ok then \<exists>t. text_value fmt 0 x = Some t \<and> int (length t) < len \<and> take (length t + 1) buf' = t @ [0]
       else \<not> (\<exists>t. text_value fmt 0 x = Some t \<and> int (length t) + 2 \<le> len)))
    (cJSON_PrintPreallocated E (Some x) (Some buf) len fmt)"
proof (cases "len < 0")
  case False
  let ?p = "(start_print E (nat len) fmt)\<lparr>pb_buffer := Some buf, pb_noalloc := True\<rparr>"
  have ok: "pb_ok ?p" using assms(2,3) False by (auto simp: pb_ok_def start_print_def)
  have p: "pb_offset ?p = 0" "pb_depth ?p = 0" "pb_format ?p = fmt" by (simp_all add: start_print_def)
  have rm: "room ?p n \<longleftrightarrow> n \<le> nat len" for n by (simp add: room_def start_print_def)
  have kept: "(\<exists>buf'. pb_buffer q = Some buf' \<and> length buf' = length buf) \<and> pb_length q = nat len" if "frame q = frame ?p" for q
    using that by (auto simp: frame_def start_print_def)
  have tx: "int (length t) < len \<and> take (length t + 1) buf' = t @ [0]"
    if f: "fin ?p t q" and b: "pb_buffer q = Some buf'" for t q buf'
  proof (rule fin_start [OF f p(1)])
    fix blk
    assume "pb_buffer q = Some blk" "length t < pb_length q" "take (length t + 1) blk = t @ [0]"
    moreover have "pb_length q = nat len" using f kept [of q] unfolding fin_def later_def by blast
    ultimately show ?thesis using b by simp
  qed
  show ?thesis
    using False unfolding cJSON_PrintPreallocated_def print_value_ptr_def
    by simp (rule okp_mono [OF printed_value [OF assms(1) ok p]], use kept tx rm in \<open>fastforce split: if_splits\<close>)
qed (auto simp: cJSON_PrintPreallocated_def)

section \<open>Properties\<close>

text \<open>
  C39: the printer implements the text of an item.  For every item, every content of the memory and every
  behaviour of the allocator the entry points return without leaving a block, they lose no block, what
  they return is the text with its terminator, and they fail only if an allocation fails, the item
  has no text, or the text is too long.
\<close>

theorem print_refines:
  assumes "doubles x" and "0 < prebuffer" and "prebuffer \<le> INT_MAX"
  shows "okp (print_promise exactly E x True) (cJSON_Print E (Some x)) \<and>
    okp (print_promise exactly E x False) (cJSON_PrintUnformatted E (Some x)) \<and>
    okp (print_promise begins E x fmt) (cJSON_PrintBuffered E (Some x) prebuffer fmt)"
  using print_keeps_promise [OF assms(1)] buffered_keeps_promise [OF assms(1,3), of E fmt] assms(2)
  unfolding cJSON_Print_def cJSON_PrintUnformatted_def by simp

definition true_item :: cJSON where
  "true_item = CJSON (fields0\<lparr>jtype := cJSON_True, valueint := 1\<rparr>) []"

definition some_env :: print_env where
  "some_env = \<lparr>pe_hooks = \<lambda>_. True, pe_realloc = False, pe_junk = \<lambda>_ _. 7, pe_live = 0\<rparr>"

lemma true_item_facts: "doubles true_item" "text_value fmt 0 true_item = Some lit_true"
  by (simp_all add: true_item_def fields0_def cJSON_types)

theorem print_refines_witness:
  "doubles true_item \<and> (0 :: int) < 8 \<and> 8 \<le> INT_MAX \<and>
    okp (print_promise exactly some_env true_item True) (cJSON_Print some_env (Some true_item)) \<and>
    okp (print_promise exactly some_env true_item False) (cJSON_PrintUnformatted some_env (Some true_item)) \<and>
    okp (print_promise begins some_env true_item True) (cJSON_PrintBuffered some_env (Some true_item) 8 True)"
  using print_refines [of true_item 8 some_env True] true_item_facts(1) by (simp add: INT_MAX_def)

text \<open>
  C40: printing into a buffer of the caller never writes outside of it: the buffer keeps its size, a success
  leaves the text and its terminator inside the first \<^verbatim>\<open>len\<close> bytes, and one byte more than the text and
  the terminator need is enough for it to succeed.
\<close>

theorem preallocated_bounds:
  assumes "doubles x" and "nat len \<le> length buf" and "len \<le> INT_MAX"
  shows "okp (\<lambda>(ok, b). \<exists>buf'. b = Some buf' \<and> length buf' = length buf \<and>
      (if ok then \<exists>t. text_value fmt 0 x = Some t \<and> int (length t) < len \<and> take (length t + 1) buf' = t @ [0]
       else \<not> (\<exists>t. text_value fmt 0 x = Some t \<and> int (length t) + 2 \<le> len)))
    (cJSON_PrintPreallocated E (Some x) (Some buf) len fmt)"
  by (rule preallocated_room [OF assms])

theorem preallocated_bounds_witness:
  "okp (\<lambda>(ok, b). ok \<and> map_option (take 5) b = Some [116, 114, 117, 101, 0])
    (cJSON_PrintPreallocated some_env (Some true_item) (Some (replicate 6 7)) 6 False)"
  using preallocated_bounds [of true_item 6 "replicate 6 7" False some_env] true_item_facts
  by (auto simp: INT_MAX_def eval_nat_numeral elim!: okp_mono split: if_splits)

text \<open>
  The text of a number has at most 24 characters, so every version of it that \<^verbatim>\<open>print_number\<close> writes fits the 26
  bytes of its array, and \<^verbatim>\<open>strtod\<close> reads the chosen text completely, as the same number.
\<close>

theorem number_text_fits:
  assumes "dbl_ok m e"
  shows "list_all (\<lambda>s. length s + 1 \<le> 26) (number_writes (Fin neg m e)) \<and> length (number_text (Fin neg m e)) \<le> 24 \<and>
    strtod (number_text (Fin neg m e)) = (Fin neg m e, length (number_text (Fin neg m e)))"
  using number_fits [of "Fin neg m e"] number_text_in [of "Fin neg m e"] number_text_strtod [OF assms, of neg] assms
  by (auto simp: is_double_def list_all_iff)

theorem number_text_fits_witness:
  "dbl_ok 7881299347898368 (- 50) \<and>
    strtod (number_text (Fin True 7881299347898368 (- 50))) =
      (Fin True 7881299347898368 (- 50), length (number_text (Fin True 7881299347898368 (- 50))))"
  using number_text_fits [of 7881299347898368 "- 50" True] by (simp add: dbl_ok_def)

text \<open>
  The first growth of an empty buffer copies a byte that the buffer does not have: \<^verbatim>\<open>cJSON_PrintBuffered\<close> with a
  prebuffer of 0 reads outside of it if the hooks have no reallocation function.
\<close>

theorem buffered_zero_overrun:
  assumes "\<not> pe_realloc E" and "pe_hooks E 0" and "pe_hooks E 1"
    and "jtype it AND 0xFF \<in> {cJSON_NULL, cJSON_True, cJSON_False, cJSON_Array, cJSON_Object}"
  shows "cJSON_PrintBuffered E (Some (CJSON it cs)) 0 fmt = Err OutOfBounds"
  using assms(4)
  by (elim insertE emptyE) (use assms(1-3) in \<open>simp_all add: cJSON_PrintBuffered_def print_value_ptr_def cJSON_types put_def
      object_open_def ensure_def start_print_def INT_MAX_def grow_def try_alloc_def pthen_def Let_def\<close>)

end
