(* ===== verification/Json_Reread.thy ===== *)
theory Json_Reread
  imports Json_Print_Props Json_Safe
begin

text \<open>
  Reading what was printed, the leaves: the two passes of \<^verbatim>\<open>parse_string\<close> undo the escapes of
  \<^verbatim>\<open>print_string_ptr\<close>, and the text of a number is read as that number.  \<open>canonical\<close> describes the items that
  can be printed without loss.
\<close>

section \<open>Strings\<close>

lemma hex_digit_char: "n < 16 \<Longrightarrow> hex_digit (hex_char n) = Some (word_of_nat n)"
proof -
  assume "n < 16"
  then have "n \<in> set [0..<16]" by simp
  then show ?thesis by (simp add: upt_rec hex_digit_def hex_char_def) (elim disjE; simp)
qed

lemma small_byte: "(c :: u8) < 32 \<Longrightarrow> \<exists>n < 32. c = word_of_nat n"
  by (rule exI [of _ "unat c"]) (simp add: word_less_nat_alt)

lemma utf8_small:
  assumes "(c :: u8) < 32"
  shows "utf8_bytes (ucast (hex4_value 0 0 (word_of_nat (unat c div 16)) (word_of_nat (unat c mod 16)))) = Some [c]"
    and "hex4_value 0 0 (word_of_nat (unat c div 16)) (word_of_nat (unat c mod 16)) < 32"
proof -
  obtain n where n: "n < 32" "c = word_of_nat n" using small_byte [OF assms] by blast
  then have "n \<in> set [0..<32]" by simp
  then show "utf8_bytes (ucast (hex4_value 0 0 (word_of_nat (unat c div 16)) (word_of_nat (unat c mod 16)))) = Some [c]"
    "hex4_value 0 0 (word_of_nat (unat c div 16)) (word_of_nat (unat c mod 16)) < 32"
    unfolding n(2) by (simp_all add: upt_rec) (elim disjE; simp add: hex4_value_def utf8_bytes_def utf8_form_def)+
qed

definition plain :: "u8 \<Rightarrow> bool" where
  "plain c \<longleftrightarrow> c \<noteq> ch_quote \<and> c \<noteq> ch_backslash"

lemma scan_plain:
  "mem = pre @ t @ v \<Longrightarrow> list_all plain t \<Longrightarrow> scan_string mem (length pre) k = scan_string mem (length (pre @ t)) k"
proof (induction t arbitrary: pre)
  case (Cons c t)
  then have "scan_string mem (length pre) k = scan_string mem (length (pre @ [c])) k"
    by (subst scan_string.simps) (simp add: nth_append plain_def)
  with Cons.IH [of "pre @ [c]"] Cons.prems show ?case by simp
qed simp

lemma hex_char_plain: "n < 16 \<Longrightarrow> plain (hex_char n)"
  using hex_char_unat [of n] by (auto simp: plain_def split: if_splits)

lemma escaped_cases:
  obtains "escaped c = [c]" "plain c"
  | e where "escaped c = [ch_backslash, e]" "simple_escape e = Some c"
  | "escaped c = [ch_backslash, 117, 48, 48, hex_char (unat c div 16), hex_char (unat c mod 16)]" "c < 32"
proof -
  consider "31 < c \<and> plain c" | "c \<in> {ch_backslash, ch_quote, 8, 12, 10, 13, 9}"
    | "c \<le> 31" "c \<notin> {ch_backslash, ch_quote, 8, 12, 10, 13, 9}"
    unfolding plain_def by fastforce
  then show ?thesis
  proof cases
    case 3
    then have "escaped c = [ch_backslash, 117, 48, 48, hex_char (unat c div 16), hex_char (unat c mod 16)]"
      by (simp add: escaped_def escape_text_def)
    moreover have "c < 32" using 3(1) by (simp add: word_less_nat_alt word_le_nat_alt)
    ultimately show ?thesis by (rule that(3))
  qed (auto simp: escaped_def escape_text_def plain_def simple_escape_def intro: that)
qed

lemma nibbles: "unat (c :: u8) div 16 < 16" "unat c mod 16 < 16"
  using unat_byte [of c] by (simp_all add: less_mult_imp_div_less)

lemma scan_escaped:
  assumes "mem = pre @ concat (map escaped s) @ ch_quote # u"
  shows "\<exists>k'. scan_string mem (length pre) k = Some (length pre + length (concat (map escaped s)), k') \<and>
    k' + length s \<le> k + length (concat (map escaped s))"
  using assms
proof (induction s arbitrary: pre k)
  case Nil
  then show ?case by (subst scan_string.simps) simp
next
  case (Cons c s)
  note IH = Cons.IH [of "pre @ escaped c"]
  have rest: "mem = (pre @ escaped c) @ concat (map escaped s) @ ch_quote # u" using Cons.prems by simp
  consider "escaped c = [c]" "plain c" | e t where "escaped c = [ch_backslash, e] @ t" "list_all plain t"
    by (rule escaped_cases [of c])
      (use hex_char_plain [OF nibbles(1) [of c]] hex_char_plain [OF nibbles(2) [of c]] in \<open>auto simp: plain_def\<close>)
  then show ?case
  proof cases
    case 1
    with scan_plain [of mem pre "[c]" "concat (map escaped s) @ ch_quote # u" k] Cons.prems IH [OF rest, of k]
    show ?thesis by auto
  next
    case (2 e t)
    have "scan_string mem (length pre) k = scan_string mem (length (pre @ [ch_backslash, e])) (k + 1)"
      using Cons.prems 2(1) by (subst scan_string.simps) (simp add: nth_append)
    also have "\<dots> = scan_string mem (length (pre @ escaped c)) (k + 1)"
      using scan_plain [of mem "pre @ [ch_backslash, e]" t "concat (map escaped s) @ ch_quote # u" "k + 1"] Cons.prems 2 by simp
    finally show ?thesis using IH [OF rest, of "k + 1"] 2(1) by auto
  qed
qed

lemma hex4_escape:
  assumes "(c :: u8) < 32" and "mem = pre @ [ch_backslash, 117, 48, 48, hex_char (unat c div 16), hex_char (unat c mod 16)] @ v"
  shows "parse_hex4 mem (length pre + 2) = Ok (hex4_value 0 0 (word_of_nat (unat c div 16)) (word_of_nat (unat c mod 16)))"
proof -
  have h: "hex_digit (hex_char (unat c div 16)) = Some (word_of_nat (unat c div 16))"
    "hex_digit (hex_char (unat c mod 16)) = Some (word_of_nat (unat c mod 16))" "hex_digit 48 = Some 0"
    using hex_digit_char [OF nibbles(1) [of c]] hex_digit_char [OF nibbles(2) [of c]]
    by (simp_all add: hex_digit_def)
  show ?thesis
    using assms(2) h by (subst parse_hex4_value) (simp_all add: nth_append numeral_2_eq_2 numeral_3_eq_3)
qed

lemma unescape_escaped:
  assumes "mem = pre @ concat (map escaped s) @ ch_quote # u"
    and "e = length pre + length (concat (map escaped s))" and "length acc + length s \<le> cap"
  shows "unescape mem e cap (length pre) acc = Ok (e, Some (acc @ s))"
  using assms
proof (induction s arbitrary: pre acc)
  case Nil
  then show ?case by (subst unescape.simps) simp
next
  case (Cons c s)
  have step: "unescape_step mem e cap (length pre) acc = Ok (Some (length (pre @ escaped c), acc @ [c]))"
  proof (cases rule: escaped_cases [of c])
    case 1
    with Cons.prems show ?thesis by (simp add: unescape_step_def emit_def plain_def nth_append)
  next
    case (2 x)
    with Cons.prems show ?thesis by (simp add: unescape_step_def emit_def nth_append)
  next
    case 3
    have hx: "parse_hex4 mem (length pre + 2) = Ok (hex4_value 0 0 (word_of_nat (unat c div 16)) (word_of_nat (unat c mod 16)))"
      by (rule hex4_escape [OF 3(2)]) (use Cons.prems 3(1) in simp)
    have le: "\<not> e < length pre + 6" using Cons.prems(2) 3(1) by simp
    have "utf16_codepoint mem (length pre) e =
        Ok (Some (6, ucast (hex4_value 0 0 (word_of_nat (unat c div 16)) (word_of_nat (unat c mod 16)))))"
      unfolding utf16_codepoint_def using hx le utf8_small(2) [OF 3(2)]
      by (auto simp: word_less_nat_alt word_le_nat_alt simp del: unat_of_nat)
    with utf8_small(1) [OF 3(2)] Cons.prems 3(1) show ?thesis
      by (simp add: unescape_step_def utf16_literal_to_utf8_def emit_def nth_append simple_escape_def)
  qed
  have "length pre < e" using Cons.prems(2) by (simp add: escaped_length)
  with step Cons.IH [of "pre @ escaped c" "acc @ [c]"] Cons.prems show ?case
    by (subst unescape.simps) simp
qed

section \<open>Reading what was printed\<close>

text \<open>\<open>ahead b s\<close>: the parser stands in front of \<open>s\<close>, and no allocation will fail.\<close>

definition ahead :: "parse_buffer \<Rightarrow> u8 list \<Rightarrow> bool" where
  "ahead b s \<longleftrightarrow> (\<exists>pre. content b = pre @ s \<and> offset b = length pre) \<and> (\<forall>i. hooks b i)"

lemma ahead_sees: "ahead b (x # s) \<Longrightarrow> sees b c = Ok (x = c)"
  by (auto simp: ahead_def sees_eq)

lemma ahead_literal: "ahead b s \<Longrightarrow> sees_literal b lit = Ok (take (length lit) s = lit)"
  by (auto simp: ahead_def sees_literal_eq) (metis length_take min.cobounded1 min.commute)

lemma ahead_number: "ahead b (x # s) \<Longrightarrow> sees_number b = Ok (x = ch_minus \<or> 48 \<le> x \<and> x \<le> 57)"
  by (auto simp: ahead_def sees_number_eq)

lemma ahead_move: "ahead b (t @ s) \<Longrightarrow> offset b' = offset b + length t \<Longrightarrow> content b' = content b \<Longrightarrow>
    hooks b' = hooks b \<Longrightarrow> ahead b' s"
  by (auto simp: ahead_def)

lemma ahead_skip:
  assumes "ahead b (w @ c # s)" and "list_all (\<lambda>c. c \<le> 32) w" and "32 < c"
  shows "ahead (buffer_skip_whitespace b) (c # s)"
proof (rule ahead_move [OF assms(1)])
  obtain pre where pre: "content b = pre @ w @ c # s" "offset b = length pre" using assms(1) by (auto simp: ahead_def)
  have "takeWhile (\<lambda>c. c \<le> 32) (w @ c # s) = w" using assms(2,3) by (simp add: takeWhile_append list_all_iff)
  with pre show "offset (buffer_skip_whitespace b) = offset b + length w"
    by (simp add: buffer_skip_whitespace_def Let_def)
qed simp_all

lemma read_string:
  assumes "ahead b (quoted (Some s) @ u)" and "0 \<notin> set s"
  shows "okp (\<lambda>(r, b'). r = Some (it\<lparr>jtype := cJSON_String, valuestring := Some s\<rparr>) \<and> ahead b' u \<and> pdepth b' = pdepth b)
    (parse_string it b)"
proof -
  let ?E = "concat (map escaped s)"
  have cb: "cbytes s = s" using assms(2) by (auto simp: cbytes_def takeWhile_eq_all_conv)
  obtain pre where pre: "content b = pre @ ch_quote # ?E @ ch_quote # u" "offset b = length pre"
    and hk: "\<forall>i. hooks b i" using assms(1) by (auto simp: ahead_def quoted_def cb)
  let ?pre = "pre @ [ch_quote]"
  have mem: "content b = ?pre @ ?E @ ch_quote # u" using pre by simp
  obtain k where scan: "scan_string (content b) (length ?pre) 0 = Some (length ?pre + length ?E, k)"
    and k: "k + length s \<le> length ?E" using scan_escaped [OF mem, of 0] by auto
  let ?al = "length ?pre + length ?E - offset b - k"
  have un: "unescape (content b) (length ?pre + length ?E) (?al + 1) (length ?pre) [] =
      Ok (length ?pre + length ?E, Some s)"
    using unescape_escaped [OF mem refl, of "[]" "?al + 1"] k pre(2) by simp
  have em: "emit (?al + 1) s [0] = Ok (s @ [0])" using k pre(2) by (simp add: emit_def)
  show ?thesis
    using scan un em pre hk
    by (simp add: parse_string_def parse_string_bytes_def buffer_at_def allocate_def Let_def) (auto simp: ahead_def)
qed

lemma read_number:
  assumes "ahead b (number_text (Fin neg m e) @ u)" and "dbl_ok m e" and "u \<noteq> []" and "\<not> number_char (hd u)"
  shows "parse_number it b =
     (Some (it\<lparr>valuedouble := Fin neg m e, valueint := saturate (Fin neg m e), jtype := cJSON_Number\<rparr>),
      b\<lparr>offset := offset b + length (number_text (Fin neg m e))\<rparr>)"
proof -
  let ?t = "number_text (Fin neg m e)"
  have sh: "number_shape neg ?t" by (rule number_text_shape [OF assms(2)])
  then have len: "length ?t \<le> 24" "?t \<noteq> []" unfolding number_shape_def with_frac_def by auto
  have "number_char c" if "c \<in> set ?t" for c
    using number_shape_chars [OF sh that] by (auto simp: number_char_def is_dig_def)
  then have "takeWhile number_char (take 63 (?t @ u)) = ?t"
    using assms(3,4) len by (cases u) (auto simp: takeWhile_append take_Cons')
  moreover have "drop (offset b) (content b) = ?t @ u" using assms(1) by (auto simp: ahead_def)
  ultimately show ?thesis
    using number_text_strtod [OF assms(2), of neg] len by (simp add: parse_number_def)
qed

text \<open>
  The trees that the parser builds for texts whose strings have no NUL and whose numbers are finite.
\<close>

definition name_ok :: "u8 list option \<Rightarrow> bool" where
  "name_ok s = (case s of None \<Rightarrow> False | Some b \<Rightarrow> 0 \<notin> set b)"

definition holds :: "cJSON_fields \<Rightarrow> u8 list option \<Rightarrow> int \<Rightarrow> dbl \<Rightarrow> bool" where
  "holds it s i d \<longleftrightarrow> valuestring it = s \<and> valueint it = i \<and> valuedouble it = d"

definition finite_double :: "dbl \<Rightarrow> bool" where
  "finite_double d = (case d of Infinite _ \<Rightarrow> False | Fin _ m e \<Rightarrow> dbl_ok m e)"

definition leaf_ok :: "cJSON_fields \<Rightarrow> bool" where
  "leaf_ok it \<longleftrightarrow>
     (if jtype it = cJSON_NULL \<or> jtype it = cJSON_False then holds it None 0 dbl0
      else if jtype it = cJSON_True then holds it None 1 dbl0
      else if jtype it = cJSON_Number then
        holds it None (saturate (valuedouble it)) (valuedouble it) \<and> finite_double (valuedouble it)
      else jtype it = cJSON_String \<and> holds it (valuestring it) 0 dbl0 \<and> name_ok (valuestring it))"

fun canonical :: "cJSON \<Rightarrow> bool" where
  "canonical (CJSON it cs) \<longleftrightarrow>
     (if jtype it = cJSON_Array then
        holds it None 0 dbl0 \<and> list_all (\<lambda>c. jstring (jfields c) = None \<and> canonical c) cs
      else if jtype it = cJSON_Object then
        holds it None 0 dbl0 \<and> list_all (\<lambda>c. name_ok (jstring (jfields c)) \<and> canonical c) cs
      else cs = [] \<and> leaf_ok it)"

lemma finite_is_double: "finite_double d \<Longrightarrow> is_double d"
  by (simp add: finite_double_def is_double_def split: dbl.splits)

lemma canonical_doubles: "canonical x \<Longrightarrow> doubles x"
  by (induction x rule: doubles.induct)
    (auto simp: leaf_ok_def holds_def list_all_iff finite_is_double zero_double split: if_splits)

lemma fields_eq:
  "jtype it = jtype it' \<Longrightarrow> jstring it = jstring it' \<Longrightarrow> holds it' (valuestring it) (valueint it) (valuedouble it) \<Longrightarrow>
    it = (it' :: cJSON_fields)"
  by (simp add: holds_def)

definition white :: "u8 list \<Rightarrow> bool" where
  "white w \<longleftrightarrow> list_all (\<lambda>c. c \<le> 32) w"

lemma white_simps [simp]: "white []" "white (c # w) \<longleftrightarrow> c \<le> 32 \<and> white w" "white (v @ w) \<longleftrightarrow> white v \<and> white w"
  "white (tabs fmt d)" "white (when_fmt fmt c) \<longleftrightarrow> fmt \<longrightarrow> c \<le> 32"
  by (auto simp: white_def tabs_def when_fmt_def list_all_iff)

lemma finite_doubleE:
  assumes "finite_double d"
  obtains neg m e where "d = Fin neg m e" "dbl_ok m e"
  using assms by (cases d) (auto simp: finite_double_def)

lemma number_head:
  assumes "finite_double d"
  shows "\<exists>c t. number_text d = c # t \<and> (c = ch_minus \<or> 48 \<le> c \<and> c \<le> 57) \<and> 32 < c"
proof -
  obtain neg m e where d: "d = Fin neg m e" "dbl_ok m e" using assms by (rule finite_doubleE)
  obtain ip fp ex where t: "number_text d = sign_text neg @ with_frac ip fp @ exp_part ex" "ip \<noteq> []" "\<forall>b \<in> set ip. is_dig b"
    using number_text_shape [OF d(2), of neg] unfolding d number_shape_def by blast
  have "32 < c" if "48 \<le> c" for c :: u8 by (rule less_le_trans [OF _ that]) simp
  with t show ?thesis by (cases ip) (auto simp: sign_text_def with_frac_def is_dig_def)
qed

lemma canonical_text:
  "canonical x \<Longrightarrow> \<exists>c t. text_value fmt d x = Some (c # t) \<and> 32 < c \<and> c \<noteq> ch_rbracket \<and> c \<noteq> 0xEF"
  "list_all canonical xs \<Longrightarrow> \<exists>t. text_elements fmt d xs = Some t \<and> length xs \<le> length t"
  "list_all canonical xs \<Longrightarrow> \<exists>t. text_members fmt d xs = Some t \<and> length xs \<le> length t"
proof (induction fmt d x and fmt d xs and fmt d xs rule: text_value_text_elements_text_members.induct)
  case (1 fmt d it cs)
  consider "jtype it = cJSON_Array" | "jtype it = cJSON_Object" | "jtype it \<noteq> cJSON_Array" "jtype it \<noteq> cJSON_Object" by blast
  then show ?case
  proof cases
    case 3
    with "1.prems" number_head [of "valuedouble it"] show ?thesis
      by (auto simp: leaf_ok_def cJSON_types quoted_def split: if_splits)
  qed (use 1 in \<open>auto simp: cJSON_types list_all_iff\<close>)
qed auto

end
