(* ===== verification/Json_Round_Trip.thy ===== *)
theory Json_Round_Trip
  imports Json_Reread Json_Props
begin

text \<open>
  Reading what was printed: arrays, objects and the entry points.  The contract of a value parser
  on printed text is the locale \<open>value_reading\<close>, which \<open>parse_value\<close> keeps by induction on its fuel.
\<close>

lemma skip_at:
  assumes "ahead b (w @ c # s)" and "white w" and "32 < c"
  shows "ahead (buffer_skip_whitespace b) (c # s)"
  using ahead_skip [OF assms(1) _ assms(3)] assms(2) by (simp add: white_def)

text \<open>The text behind leading white space.\<close>

definition unblank :: "u8 list \<Rightarrow> u8 list" where
  "unblank s = dropWhile (\<lambda>c. c \<le> 32) s"

lemma unblank_simps [simp]: "white w \<Longrightarrow> unblank (w @ s) = unblank s" "32 < c \<Longrightarrow> unblank (c # s) = c # s"
  by (auto simp: unblank_def white_def list_all_iff dropWhile_append)

lemma skip_unblank:
  assumes "ahead b s" and "unblank s = c # s'"
  shows "ahead (buffer_skip_whitespace b) (c # s')"
proof -
  have s: "s = takeWhile (\<lambda>c. c \<le> 32) s @ c # s'" using assms(2) takeWhile_dropWhile_id [of "\<lambda>c. c \<le> 32" s] by (simp add: unblank_def)
  have "white (takeWhile (\<lambda>c. c \<le> 32) s)" by (auto simp: white_def list_all_iff dest: set_takeWhileD)
  moreover have "32 < c" using assms(2) hd_dropWhile [of "\<lambda>c. c \<le> 32" s] by (simp add: unblank_def)
  ultimately show ?thesis using skip_at [of b "takeWhile (\<lambda>c. c \<le> 32) s" c s'] assms(1) s by simp
qed

lemma loop_end_at:
  assumes "ahead b (w @ c # s)" and "white w" and "32 < c"
  shows "c = ch_comma \<Longrightarrow> loop_end close_ch again items b = again items (buffer_skip_whitespace b)"
    and "c = close_ch \<Longrightarrow> c \<noteq> ch_comma \<Longrightarrow> loop_end close_ch again items b = Ok (Some items, buffer_skip_whitespace b)"
  using ahead_sees [OF skip_at [OF assms]] by (simp_all add: loop_end_def)

text \<open>\<open>behind b s\<close>: the parser stands at the character in front of \<open>s\<close>.\<close>

definition behind :: "parse_buffer \<Rightarrow> u8 list \<Rightarrow> bool" where
  "behind b s \<longleftrightarrow> ahead (b\<lparr>offset := offset b + 1\<rparr>) s"

lemma behind_ahead: "ahead b (c # s) \<Longrightarrow> behind b s"
  unfolding behind_def by (rule ahead_move [of b "[c]"]) simp_all

lemma behind_back: "ahead b (c # s) \<Longrightarrow> 0 < offset b \<Longrightarrow> behind (b\<lparr>offset := offset b - 1\<rparr>) (c # s)"
  by (simp add: behind_def)

definition blank :: "cJSON_fields \<Rightarrow> u8 list option \<Rightarrow> bool" where
  "blank it name \<longleftrightarrow> holds it None 0 dbl0 \<and> jstring it = name"

lemma blank_fields0: "blank fields0 None"
  by (simp add: blank_def holds_def fields0_def)

text \<open>What reading the value \<open>x\<close> in front of \<open>u\<close> leaves.\<close>

definition read_value :: "cJSON \<Rightarrow> u8 list \<Rightarrow> parse_buffer \<Rightarrow> cJSON option \<times> parse_buffer \<Rightarrow> bool" where
  "read_value x u b = (\<lambda>(r, b'). r = Some x \<and> ahead b' u \<and> pdepth b' = pdepth b)"

definition read_items :: "cJSON list \<Rightarrow> u8 list \<Rightarrow> parse_buffer \<Rightarrow> cJSON list option \<times> parse_buffer \<Rightarrow> bool" where
  "read_items xs u b = (\<lambda>(r, b'). r = Some xs \<and> ahead b' u \<and> pdepth b' = pdepth b)"

definition ends_number :: "u8 list \<Rightarrow> bool" where
  "ends_number u \<longleftrightarrow> u \<noteq> [] \<and> \<not> number_char (hd u)"

lemma ends_simps [simp]:
  "ends_number (ch_comma # u)" "ends_number (ch_rbracket # u)" "ends_number (ch_rbrace # u)" "ends_number (10 # u)" "ends_number [0]"
  by (simp_all add: ends_number_def number_char_def)

lemma white_ends: "white w \<Longrightarrow> \<not> number_char c \<Longrightarrow> ends_number (w @ c # u)"
  by (cases w) (auto simp: ends_number_def number_char_def word_le_nat_alt)

lemma nesting_children:
  "jtype it = cJSON_Array \<or> jtype it = cJSON_Object \<Longrightarrow> k + nesting (CJSON it cs) \<le> m \<longleftrightarrow>
     Suc k \<le> m \<and> list_all (\<lambda>c. Suc k + nesting c \<le> m) cs"
  using nesting_bound [of cs "m - Suc k"] by (auto simp: list_all_iff)

lemma elements_head:
  assumes "text_elements fmt d xs = Some t" and "\<forall>x \<in> set xs. canonical x" and "xs \<noteq> []"
  shows "\<exists>c s. t = c # s \<and> 32 < c \<and> c \<noteq> ch_rbracket"
  using assms canonical_text(1) [of "hd xs" fmt d] by (cases xs) (auto simp: ocat_Some)

locale value_reading =
  fixes pv :: value_parser and R :: nat and fmt :: bool
  assumes pv_reads: "canonical x \<Longrightarrow> text_value fmt d x = Some t \<Longrightarrow> length t \<le> R \<Longrightarrow> ahead b (t @ u) \<Longrightarrow>
    ends_number u \<Longrightarrow> pdepth b + nesting x \<le> CJSON_NESTING_LIMIT \<Longrightarrow> blank it (jstring (jfields x)) \<Longrightarrow>
    okp (read_value x u b) (pv it b)"
begin

lemma array_loop_reads:
  assumes "list_all (\<lambda>c. jstring (jfields c) = None \<and> canonical c \<and> pdepth b + nesting c \<le> CJSON_NESTING_LIMIT) xs"
    and "xs \<noteq> []" and "text_elements fmt d xs = Some t" and "length t \<le> R" and "length xs \<le> n"
    and "behind b s" and "unblank s = t @ ch_rbracket # u"
  shows "okp (read_items (items @ xs) (ch_rbracket # u) b) (array_loop pv n items b)"
  using assms
proof (induction xs arbitrary: n b s t items)
  case (Cons x xs)
  obtain n' where n: "n = Suc n'" using Cons.prems(5) by (cases n) auto
  obtain t1 t2 where t1: "text_value fmt d x = Some t1" and t2: "text_elements fmt d xs = Some t2"
    and t: "t = t1 @ (if xs \<noteq> [] then ch_comma # when_fmt fmt 32 else []) @ t2"
    using Cons.prems(3) by (auto simp: ocat_Some)
  obtain c t1' where c: "t1 = c # t1'" "32 < c" using canonical_text(1) [of x fmt d] Cons.prems(1) t1 by auto
  define u1 where "u1 = (if xs \<noteq> [] then ch_comma # when_fmt fmt 32 else []) @ t2 @ ch_rbracket # u"
  obtain b1 where b1: "cJSON_New_Item b = (Some fields0, b1)" "content b1 = content b" "hooks b1 = hooks b"
    "offset b1 = offset b" "pdepth b1 = pdepth b"
    using Cons.prems(6) by (auto simp: behind_def ahead_def cJSON_New_Item_def allocate_def)
  let ?b2 = "buffer_skip_whitespace (b1\<lparr>offset := offset b1 + 1\<rparr>)"
  have "ahead (b1\<lparr>offset := offset b1 + 1\<rparr>) s" using Cons.prems(6) b1 by (auto simp: behind_def ahead_def)
  then have a2: "ahead ?b2 (t1 @ u1)" using skip_unblank [of _ s c] Cons.prems(7) c(1) by (simp add: t u1_def)
  have "ends_number u1" using t2 by (auto simp: u1_def)
  then have "okp (read_value x u1 ?b2) (pv fields0 ?b2)"
    using Cons.prems(1,4) t b1 by (intro pv_reads [OF _ t1 _ a2]) (auto simp: blank_fields0)
  then obtain b3 where pv: "pv fields0 ?b2 = Ok (Some x, b3)" and b3: "ahead b3 u1" "pdepth b3 = pdepth b"
    using b1 by (auto simp: okp_iff read_value_def)
  show ?case
  proof (cases "xs = []")
    case True
    then have u1: "ahead b3 ([] @ ch_rbracket # u)" using b3 t2 by (simp add: u1_def)
    then show ?thesis
      using loop_end_at(2) [OF u1] skip_at [OF u1] b1 pv b3(2) True n by (simp add: read_items_def)
  next
    case False
    then have u1: "ahead b3 ([] @ ch_comma # when_fmt fmt 32 @ t2 @ ch_rbracket # u)" using b3 t2 by (simp add: u1_def)
    let ?b4 = "buffer_skip_whitespace b3"
    have bh: "behind ?b4 (when_fmt fmt 32 @ t2 @ ch_rbracket # u)" using skip_at [OF u1] by (intro behind_ahead) simp_all
    have "unblank (when_fmt fmt 32 @ t2 @ ch_rbracket # u) = t2 @ ch_rbracket # u"
      using elements_head [OF t2] False Cons.prems(1) by (auto simp: list_all_iff)
    with bh have "okp (read_items ((items @ [x]) @ xs) (ch_rbracket # u) ?b4) (array_loop pv n' (items @ [x]) ?b4)"
      using Cons.prems(1,4,5) b3 t n False by (intro Cons.IH [OF _ False t2 _ _ bh]) auto
    then show ?thesis
      using loop_end_at(1) [OF u1] b1 pv b3(2) n by (simp add: read_items_def)
  qed
qed simp

lemma member_reads:
  assumes "ahead b (quoted (Some nm) @ ch_colon # w @ t @ u)" and "0 \<notin> set nm" and "white w"
    and x: "canonical x" "jstring (jfields x) = Some nm" "pdepth b + nesting x \<le> CJSON_NESTING_LIMIT"
    and t: "text_value fmt d x = Some t" "length t \<le> R" and "ends_number u"
    and go: "\<And>b'. ahead b' u \<Longrightarrow> pdepth b' = pdepth b \<Longrightarrow> okp Q (f x b')"
  shows "okp Q (rbind (parse_string fields0 b) (\<lambda>(rn, b2).
      case rn of
        None \<Rightarrow> g b2
      | Some nm \<Rightarrow>
          (let b3 = buffer_skip_whitespace b2; item = take_name nm
           in rbind (sees b3 ch_colon) (\<lambda>colon.
             if \<not> colon then g1 item b3
             else rbind (pv item (buffer_skip_whitespace (b3\<lparr>offset := offset b3 + 1\<rparr>))) (\<lambda>(r, b4).
               case r of None \<Rightarrow> g2 item b4 | Some x \<Rightarrow> f x b4)))))"
proof -
  let ?it = "fields0\<lparr>jtype := cJSON_String, valuestring := Some nm\<rparr>"
  obtain b2 where ps: "parse_string fields0 b = Ok (Some ?it, b2)" and b2: "ahead b2 ([] @ ch_colon # w @ t @ u)" "pdepth b2 = pdepth b"
    using read_string [OF assms(1,2), of fields0] by (auto simp: okp_iff)
  let ?b3 = "buffer_skip_whitespace b2"
  have b3: "ahead ?b3 (ch_colon # w @ t @ u)" by (rule skip_at [OF b2(1)]) simp_all
  obtain c t' where c: "t = c # t'" "32 < c" using canonical_text(1) [OF x(1), of fmt d] t by auto
  let ?b4 = "buffer_skip_whitespace (?b3\<lparr>offset := offset ?b3 + 1\<rparr>)"
  have "ahead (?b3\<lparr>offset := offset ?b3 + 1\<rparr>) (w @ c # t' @ u)" using behind_ahead [OF b3] c by (simp add: behind_def)
  then have b4: "ahead ?b4 (t @ u)" using skip_at [OF _ assms(3) c(2)] c(1) by auto
  have "okp (read_value x u ?b4) (pv (take_name ?it) ?b4)"
    using x b2(2) t assms by (intro pv_reads [OF x(1) t b4 assms(9)])
      (auto simp: take_name_def blank_def holds_def fields0_def)
  then show ?thesis
    using ps ahead_sees [OF b3] b2(2)
    by (auto simp: Let_def read_value_def elim!: okp_mono intro: go)
qed

lemma object_loop_reads:
  assumes "list_all (\<lambda>c. name_ok (jstring (jfields c)) \<and> canonical c \<and> pdepth b + nesting c \<le> CJSON_NESTING_LIMIT) xs"
    and "xs \<noteq> []" and "text_members fmt d xs = Some t" and "length t \<le> R" and "length xs \<le> n"
    and "behind b s" and "unblank s = unblank (t @ v @ ch_rbrace # u)" and "white v"
  shows "okp (read_items (items @ xs) (ch_rbrace # u) b) (object_loop pv n items b)"
  using assms
proof (induction xs arbitrary: n b s t items)
  case (Cons x xs)
  obtain n' where n: "n = Suc n'" using Cons.prems(5) by (cases n) auto
  obtain nm where nm: "jstring (jfields x) = Some nm" "0 \<notin> set nm"
    using Cons.prems(1) by (auto simp: name_ok_def split: option.splits)
  obtain t1 t2 where t1: "text_value fmt d x = Some t1" and t2: "text_members fmt d xs = Some t2"
    and t: "t = tabs fmt d @ quoted (Some nm) @ ch_colon # when_fmt fmt 9 @ t1 @
      (if xs \<noteq> [] then [ch_comma] else []) @ when_fmt fmt 10 @ t2"
    using Cons.prems(3) nm(1) by (auto simp: ocat_Some)
  define u1 where "u1 = (if xs \<noteq> [] then [ch_comma] else []) @ when_fmt fmt 10 @ t2 @ v @ ch_rbrace # u"
  obtain b1 where b1: "cJSON_New_Item b = (Some fields0, b1)" "content b1 = content b" "hooks b1 = hooks b"
    "offset b1 = offset b" "pdepth b1 = pdepth b"
    using Cons.prems(6) by (auto simp: behind_def ahead_def cJSON_New_Item_def allocate_def)
  let ?b2 = "buffer_skip_whitespace (b1\<lparr>offset := offset b1 + 1\<rparr>)"
  obtain q where q: "quoted (Some nm) = ch_quote # q" by (auto simp: quoted_def)
  have "ahead (b1\<lparr>offset := offset b1 + 1\<rparr>) s" using Cons.prems(6) b1 by (auto simp: behind_def ahead_def)
  then have a2: "ahead ?b2 (quoted (Some nm) @ ch_colon # when_fmt fmt 9 @ t1 @ u1)"
    using skip_unblank [of _ s ch_quote] Cons.prems(7) q by (simp add: t u1_def)
  have eu: "ends_number u1" using t2 Cons.prems(8) white_ends [of "when_fmt fmt 10 @ v" ch_rbrace u] by (auto simp: u1_def number_char_def)
  have "okp (read_items (items @ x # xs) (ch_rbrace # u) b)
      (loop_end ch_rbrace (\<lambda>items c. object_loop pv n' items c) (items @ [x]) b3)"
    if b3: "ahead b3 u1" "pdepth b3 = pdepth ?b2" for b3
  proof (cases "xs = []")
    case True
    then have u1: "ahead b3 ((when_fmt fmt 10 @ v) @ ch_rbrace # u)" using b3 t2 by (simp add: u1_def)
    then show ?thesis
      using loop_end_at(2) [OF u1] skip_at [OF u1] b1 b3(2) True n Cons.prems(8) by (simp add: read_items_def)
  next
    case False
    then have u1: "ahead b3 ([] @ ch_comma # when_fmt fmt 10 @ t2 @ v @ ch_rbrace # u)" using b3 t2 by (simp add: u1_def)
    let ?b4 = "buffer_skip_whitespace b3"
    have bh: "behind ?b4 (when_fmt fmt 10 @ t2 @ v @ ch_rbrace # u)" using skip_at [OF u1] by (intro behind_ahead) simp_all
    have "okp (read_items ((items @ [x]) @ xs) (ch_rbrace # u) ?b4) (object_loop pv n' (items @ [x]) ?b4)"
      using Cons.prems(1,4,5,8) b3 b1 t n False by (intro Cons.IH [OF _ False t2 _ _ bh]) auto
    then show ?thesis
      using loop_end_at(1) [OF u1] b1 b3(2) n by (simp add: read_items_def)
  qed
  moreover have "length t1 \<le> R" "pdepth ?b2 + nesting x \<le> CJSON_NESTING_LIMIT" "canonical x" using Cons.prems(1,4) t b1 by auto
  ultimately show ?case
    using n b1(1) by (simp only: object_loop.simps prod.case option.case)
      (rule member_reads [OF a2 nm(2) _ _ nm(1) _ t1 _ eu], simp_all)
qed simp

lemma bracketed_reads:
  assumes "ahead b (open_ch # s)" and "unblank s = c # s'" and "xs = [] \<longleftrightarrow> c = close_ch" and "xs = [] \<longrightarrow> s' = u"
    and loop: "\<And>b'. xs \<noteq> [] \<Longrightarrow> pdepth b' = pdepth b \<Longrightarrow> behind b' (c # s') \<Longrightarrow> okp (read_items xs (close_ch # u) b') (loop b')"
  shows "okp (\<lambda>(r, b'). r = Some (CJSON (it\<lparr>jtype := ty\<rparr>) xs) \<and> ahead b' u \<and> pdepth b' = pdepth b - 1)
    (bracketed close_ch ty loop it b)"
proof -
  let ?b0 = "b\<lparr>offset := offset b + 1\<rparr>"
  let ?b1 = "buffer_skip_whitespace ?b0"
  have b1: "ahead ?b1 (c # s')" using behind_ahead [OF assms(1)] assms(2) by (intro skip_unblank) (simp_all add: behind_def)
  have close: "ahead (b2\<lparr>pdepth := k, offset := Suc (offset b2)\<rparr>) u" if "ahead b2 (close_ch # u)" for b2 k
    by (rule ahead_move [of b2 "[close_ch]"]) (use that in simp_all)
  show ?thesis
  proof (cases "xs = []")
    case True
    with ahead_sees [OF b1] close [of ?b1] b1 assms(3,4) show ?thesis by (simp add: bracketed_def Let_def)
  next
    case False
    have "length (c # s') \<le> length s" using assms(2) length_dropWhile_le [of "\<lambda>c. c \<le> 32" s] by (simp add: unblank_def)
    with b1 assms(1) have "0 < offset ?b1" by (auto simp: ahead_def dest!: arg_cong [of _ _ length])
    note bk = behind_back [OF b1 this]
    have "okp (read_items xs (close_ch # u) (?b1\<lparr>offset := offset ?b1 - 1\<rparr>)) (loop (?b1\<lparr>offset := offset ?b1 - 1\<rparr>))"
      by (rule loop [OF False]) (use bk in auto)
    moreover have "can_access_at_index ?b1 0" using b1 by (auto simp: ahead_def can_access_at_index_def)
    ultimately show ?thesis
      using ahead_sees [OF b1] False assms(3)
      by (auto simp: bracketed_def Let_def read_items_def elim!: okp_mono intro: close)
  qed
qed

lemma parse_array_reads:
  assumes "canonical (CJSON it' xs)" and ty: "jtype it' = cJSON_Array" and t: "text_value fmt d (CJSON it' xs) = Some t"
    and "length t \<le> Suc R" and "R \<le> n" and "ahead b (t @ u)" and "pdepth b + nesting (CJSON it' xs) \<le> CJSON_NESTING_LIMIT"
    and "blank it (jstring it')"
  shows "okp (read_value (CJSON it' xs) u b) (parse_array pv n it b)"
proof -
  obtain s where s: "text_elements fmt (d + 1) xs = Some s" "t = ch_lbracket # s @ [ch_rbracket]"
    using t ty by (auto simp: ocat_Some cJSON_types)
  have cs: "list_all (\<lambda>c. jstring (jfields c) = None \<and> canonical c \<and> Suc (pdepth b) + nesting c \<le> CJSON_NESTING_LIMIT) xs"
    and d: "pdepth b < CJSON_NESTING_LIMIT"
    using assms(1,7) ty nesting_children [of it' "pdepth b" xs] by (auto simp: list_all_iff)
  obtain c s' where c: "s @ ch_rbracket # u = c # s'" "32 < c" "xs = [] \<longleftrightarrow> c = ch_rbracket" "xs = [] \<longrightarrow> s' = u"
    using elements_head [OF s(1)] cs s(1) by (cases "xs = []") (auto simp: list_all_iff)
  let ?b = "b\<lparr>pdepth := pdepth b + 1\<rparr>"
  have a: "ahead ?b (ch_lbracket # s @ ch_rbracket # u)" using assms(6) s(2) by (simp add: ahead_def)
  have len: "length xs \<le> n" "length s \<le> R"
    using canonical_text(2) [of xs fmt "d + 1"] cs s assms(4,5) by (auto simp: list_all_iff)
  have loop: "okp (read_items xs (ch_rbracket # u) b') (array_loop pv n [] b')"
    if "xs \<noteq> []" "pdepth b' = pdepth ?b" "behind b' (c # s')" for b'
    using array_loop_reads [OF _ that(1) s(1) len(2,1) that(3), of u "[]"] that(2) cs c by simp
  have "okp (\<lambda>(r, b'). r = Some (CJSON (it\<lparr>jtype := cJSON_Array\<rparr>) xs) \<and> ahead b' u \<and> pdepth b' = pdepth ?b - 1)
      (bracketed ch_rbracket cJSON_Array (array_loop pv n []) it ?b)"
    by (rule bracketed_reads [OF a _ c(3,4) loop]) (use c in simp_all)
  moreover have "it\<lparr>jtype := cJSON_Array\<rparr> = it'" using assms(1,8) ty by (intro fields_eq) (auto simp: blank_def holds_def)
  ultimately show ?thesis
    using d a by (auto simp: parse_array_def buffer_at_def Let_def read_value_def ahead_def)
qed

lemma parse_object_reads:
  assumes "canonical (CJSON it' xs)" and ty: "jtype it' = cJSON_Object" and t: "text_value fmt d (CJSON it' xs) = Some t"
    and "length t \<le> Suc R" and "R \<le> n" and "ahead b (t @ u)" and "pdepth b + nesting (CJSON it' xs) \<le> CJSON_NESTING_LIMIT"
    and "blank it (jstring it')"
  shows "okp (read_value (CJSON it' xs) u b) (parse_object pv n it b)"
proof -
  obtain s where s: "text_members fmt (d + 1) xs = Some s"
    "t = ch_lbrace # when_fmt fmt 10 @ s @ tabs fmt d @ [ch_rbrace]"
    using t ty by (auto simp: ocat_Some cJSON_types)
  let ?s = "s @ tabs fmt d @ ch_rbrace # u"
  have cs: "list_all (\<lambda>c. name_ok (jstring (jfields c)) \<and> canonical c \<and> Suc (pdepth b) + nesting c \<le> CJSON_NESTING_LIMIT) xs"
    and d: "pdepth b < CJSON_NESTING_LIMIT"
    using assms(1,7) ty nesting_children [of it' "pdepth b" xs] by (auto simp: list_all_iff cJSON_types)
  obtain c s' where c: "unblank ?s = c # s'" "xs = [] \<longleftrightarrow> c = ch_rbrace" "xs = [] \<longrightarrow> s' = u" "unblank (c # s') = c # s'"
    using s(1) by (cases xs) (auto simp: ocat_Some quoted_def)
  let ?b = "b\<lparr>pdepth := pdepth b + 1\<rparr>"
  have a: "ahead ?b (ch_lbrace # when_fmt fmt 10 @ ?s)" using assms(6) s(2) by (simp add: ahead_def)
  have len: "length xs \<le> n" "length s \<le> R"
    using canonical_text(3) [of xs fmt "d + 1"] cs s assms(4,5) by (auto simp: list_all_iff)
  have loop: "okp (read_items xs (ch_rbrace # u) b') (object_loop pv n [] b')"
    if "xs \<noteq> []" "pdepth b' = pdepth ?b" "behind b' (c # s')" for b'
    using object_loop_reads [OF _ that(1) s(1) len(2,1) that(3), of "tabs fmt d" u "[]"] that(2) cs c by simp
  have "okp (\<lambda>(r, b'). r = Some (CJSON (it\<lparr>jtype := cJSON_Object\<rparr>) xs) \<and> ahead b' u \<and> pdepth b' = pdepth ?b - 1)
      (bracketed ch_rbrace cJSON_Object (object_loop pv n []) it ?b)"
    by (rule bracketed_reads [OF a _ c(2,3) loop]) (use c in simp_all)
  moreover have "it\<lparr>jtype := cJSON_Object\<rparr> = it'"
    using assms(1,8) ty by (intro fields_eq) (auto simp: blank_def holds_def cJSON_types)
  ultimately show ?thesis
    using d ahead_sees [OF a] by (auto simp: parse_object_def Let_def read_value_def)
qed

end

lemma read_literal:
  assumes "ahead b (t @ u)" and "blank it (jstring it')" and "jtype it' = ty" and "holds it' None i dbl0"
  shows "read_value (CJSON it' []) u b (Some (CJSON (it\<lparr>jtype := ty, valueint := i\<rparr>) []), b\<lparr>offset := offset b + length t\<rparr>)"
  using assms ahead_move [OF assms(1)] by (auto simp: read_value_def blank_def holds_def)

lemma parse_value_reads:
  "canonical x \<Longrightarrow> text_value fmt d x = Some t \<Longrightarrow> length t \<le> n \<Longrightarrow> ahead b (t @ u) \<Longrightarrow>
    ends_number u \<Longrightarrow> pdepth b + nesting x \<le> CJSON_NESTING_LIMIT \<Longrightarrow> blank it (jstring (jfields x)) \<Longrightarrow>
    okp (read_value x u b) (parse_value n it b)"
proof (induction n arbitrary: x d t b u it)
  case 0
  then show ?case using canonical_text(1) [of x fmt d] by auto
next
  case (Suc n)
  then have vr: "value_reading (parse_value n) n fmt" by unfold_locales blast
  obtain it' cs where x: "x = CJSON it' cs" by (cases x)
  note prems = Suc.prems [unfolded x]
  have bl: "blank it (jstring it')" using prems(7) by simp
  obtain c t' where t: "t = c # t'" using canonical_text(1) [OF Suc.prems(1), of fmt d] Suc.prems(2) by auto
  then have a: "ahead b (c # t' @ u)" using prems(4) by simp
  note see = ahead_sees [OF a] ahead_literal [OF a] ahead_number [OF a]
  consider (arr) "jtype it' = cJSON_Array" | (obj) "jtype it' = cJSON_Object" | (lit) "jtype it' \<in> {cJSON_NULL, cJSON_False, cJSON_True}"
    | (num) "jtype it' = cJSON_Number" | (str) "jtype it' = cJSON_String"
    using prems(1) by (auto simp: leaf_ok_def split: if_splits)
  then show ?case
  proof cases
    case arr
    then have "c = ch_lbracket" using prems(2) t by (auto simp: ocat_Some cJSON_types)
    with value_reading.parse_array_reads [OF vr prems(1) arr prems(2,3) le_refl prems(4,6) bl] see x show ?thesis
      by (simp add: parse_value.simps)
  next
    case obj
    then have "c = ch_lbrace" using prems(2) t by (auto simp: ocat_Some cJSON_types)
    with value_reading.parse_object_reads [OF vr prems(1) obj prems(2,3) le_refl prems(4,6) bl] see x show ?thesis
      by (simp add: parse_value.simps)
  next
    case lit
    define i :: int where "i = (if jtype it' = cJSON_True then 1 else 0)"
    have h: "cs = []" "holds it' None i dbl0" using lit prems(1) by (auto simp: i_def leaf_ok_def cJSON_types)
    have same: "it\<lparr>jtype := jtype it'\<rparr> = it\<lparr>jtype := jtype it', valueint := i\<rparr>" if "jtype it' \<noteq> cJSON_True"
      using bl that by (simp add: blank_def holds_def i_def)
    have k: "length t = (if jtype it' = cJSON_False then 5 else 4)" using lit prems(2) by (auto simp: cJSON_types)
    note rl = read_literal [OF prems(4) bl refl h(2), unfolded k]
    from same lit h rl prems(2) x see t show ?thesis
      by (elim insertE emptyE) (auto simp: parse_value.simps cJSON_types i_def)
  next
    case num
    then have h: "cs = []" "t = number_text (valuedouble it')" "finite_double (valuedouble it')"
      "holds it' None (saturate (valuedouble it')) (valuedouble it')"
      using prems(1,2) by (auto simp: leaf_ok_def cJSON_types)
    obtain neg m e where d: "valuedouble it' = Fin neg m e" "dbl_ok m e" using h(3) by (rule finite_doubleE)
    have c: "c = ch_minus \<or> 48 \<le> c \<and> c \<le> 57" using number_head [OF h(3)] h(2) t by auto
    then have "c \<notin> {110, 102, 116, ch_quote}" by auto
    moreover have "parse_number it b = (Some it', b\<lparr>offset := offset b + length t\<rparr>)"
      using read_number [of b neg m e u it] prems(4,5) d h bl num
      by (auto simp: ends_number_def blank_def holds_def)
    ultimately show ?thesis
      using see c x h(1) ahead_move [OF prems(4)] by (simp add: parse_value.simps leaf_def read_value_def)
  next
    case str
    then obtain s where s: "cs = []" "valuestring it' = Some s" "0 \<notin> set s" "t = quoted (Some s)" "holds it' (Some s) 0 dbl0"
      using prems(1,2) by (auto simp: leaf_ok_def cJSON_types name_ok_def split: option.splits)
    have "it\<lparr>jtype := cJSON_String, valuestring := Some s\<rparr> = it'"
      using s(5) bl str by (intro fields_eq) (auto simp: blank_def holds_def)
    then have "okp (\<lambda>(r, b'). r = Some it' \<and> ahead b' u \<and> pdepth b' = pdepth b) (parse_string it b)"
      using read_string [of b s u it] prems(4) s(3,4) by simp
    moreover have "c = ch_quote" using s(4) t by (simp add: quoted_def)
    ultimately show ?thesis
      using see x s(1) by (auto simp: parse_value.simps leaf_def read_value_def elim!: okp_mono)
  qed
qed

interpretation json_reading: value_reading "parse_value n" n fmt for n fmt
  by unfold_locales (rule parse_value_reads)

section \<open>The round trip\<close>

lemma skip_none: "ahead b (c # s) \<Longrightarrow> 32 < c \<Longrightarrow> ahead (buffer_skip_whitespace b) (c # s)"
  by (rule skip_at [of b "[]"]) simp_all

lemma parse_printed:
  assumes "canonical x" and "jstring (jfields x) = None" and "nesting x \<le> CJSON_NESTING_LIMIT"
    and t: "text_value fmt 0 x = Some t" and hk: "\<forall>i. hk i" and s: "cbytes s = t"
  shows "okp (\<lambda>r. out_item r = Some x) (cJSON_ParseWithOpts hk (Some s) require lv)"
proof -
  obtain c t' where c: "t = c # t'" "32 < c" "c \<noteq> 0xEF" using canonical_text(1) [OF assms(1), of fmt 0] t by auto
  let ?b = "start_buffer hk s lv"
  obtain b where b: "cJSON_New_Item ?b = (Some fields0, b)" "content b = t @ [0]" "hooks b = hk" "offset b = 0" "pdepth b = 0"
    using hk s by (auto simp: cJSON_New_Item_def allocate_def start_buffer_def)
  then have a: "ahead b (t @ [0])" using hk by (simp add: ahead_def)
  have bom: "skip_utf8_bom b = Ok (Some b)"
    using b c by (auto simp: skip_utf8_bom_def strncmp_at_def can_read_def can_access_at_index_def)
  let ?b1 = "buffer_skip_whitespace b"
  have a1: "ahead ?b1 (t @ [0])" using skip_none [of b c "t' @ [0]"] a c by simp
  have "okp (read_value x [0] ?b1) (parse_value (length (content b) + 1) fields0 ?b1)"
    by (rule json_reading.pv_reads [OF assms(1) t _ a1]) (use b assms blank_fields0 in simp_all)
  then obtain b2 where pv: "parse_value (length (content b) + 1) fields0 ?b1 = Ok (Some x, b2)" and b2: "ahead b2 [0]"
    by (auto simp: okp_iff read_value_def)
  have "buffer_skip_whitespace b2 = b2" using b2 by (auto simp: ahead_def buffer_skip_whitespace_def Let_def)
  with b bom pv ahead_sees [OF b2] show ?thesis
    by (cases require) (simp_all add: cJSON_ParseWithOpts_def Let_def)
qed

text \<open>No NUL inside a string or name, and no infinite number.\<close>

fun clean :: "cJSON \<Rightarrow> bool" where
  "clean (CJSON it cs) \<longleftrightarrow>
     (\<forall>s. valuestring it = Some s \<longrightarrow> 0 \<notin> set s) \<and> (\<forall>s. jstring it = Some s \<longrightarrow> 0 \<notin> set s) \<and>
     (\<forall>neg. valuedouble it \<noteq> Infinite neg) \<and> list_all clean cs"

lemma clean_name: "clean x \<Longrightarrow> jstring (jfields x) \<noteq> None \<Longrightarrow> name_ok (jstring (jfields x))"
  by (cases x) (auto simp: name_ok_def split: option.splits)

lemma clean_finite: "clean (CJSON it cs) \<Longrightarrow> is_double (valuedouble it) \<Longrightarrow> finite_double (valuedouble it)"
  by (cases "valuedouble it") (auto simp: is_double_def finite_double_def)

lemma clean_leaf:
  assumes "tree_ok (CJSON it cs)" and "clean (CJSON it cs)" and "jtype it \<noteq> cJSON_Array" and "jtype it \<noteq> cJSON_Object"
  shows "leaf_ok it"
  using assms clean_finite [OF assms(2)]
  by (auto simp: leaf_ok_def holds_def value_ok_def plain_type_def name_ok_def cJSON_types split: if_splits option.splits)

lemma clean_canonical: "tree_ok x \<Longrightarrow> clean x \<Longrightarrow> canonical x"
proof (induction x rule: canonical.induct)
  case (1 it cs)
  have "holds it None 0 dbl0" if "jtype it = cJSON_Array \<or> jtype it = cJSON_Object"
    using that 1(3) by (auto simp: holds_def value_ok_def cJSON_types)
  moreover have "canonical c" if "c \<in> set cs" "jtype it = cJSON_Array \<or> jtype it = cJSON_Object" for c
    using that 1 by (auto simp: list_all_iff cJSON_types)
  moreover have "cs = [] \<and> leaf_ok it" if "jtype it \<noteq> cJSON_Array" "jtype it \<noteq> cJSON_Object"
    using that 1(3) clean_leaf [OF 1(3,4) that] by auto
  ultimately show ?case
    using 1(3,4) clean_name by (auto simp: list_all_iff cJSON_types)
qed

section \<open>Properties\<close>

text \<open>
  C9: what the parser read from any text can be printed and read again: if no string has a NUL
  and no number is infinite, printing the item, formatted or not, succeeds when memory suffices, and
  parsing the printed text gives the same item, with every name, string, number and order of its members.
\<close>

theorem print_parse_round_trip:
  assumes parsed: "cJSON_ParseWithOpts hk (Some s) req lv = Ok r" "out_item r = Some x" and "clean x"
    and "\<forall>i. pe_hooks E i" and "\<forall>i. hk' i" and "int (length (the (text_value fmt 0 x))) + 2 \<le> INT_MAX"
  shows "\<exists>blk live. print E (Some x) fmt = Ok (Some blk, live) \<and>
    okp (\<lambda>r'. out_item r' = Some x) (cJSON_ParseWithOpts hk' (Some blk) req' lv')"
proof -
  have x: "tree_ok x" "jstring (jfields x) = None" "nesting x \<le> CJSON_NESTING_LIMIT"
    using ParseWithOpts_ok [of lv s hk req] parsed by (auto simp: outcome_ok_def)
  have c: "canonical x" by (rule clean_canonical [OF x(1) assms(3)])
  then obtain t where t: "text_value fmt 0 x = Some t" using canonical_text(1) [of x fmt 0] by auto
  have nz: "0 \<notin> set t" by (rule text_nonzero(1) [OF canonical_doubles [OF c] t])
  obtain blk live where p: "print E (Some x) fmt = Ok (Some blk, live)" "blk = t @ [0]"
    using print_keeps_promise [OF canonical_doubles [OF c], of E fmt] assms(4,6) t
    by (auto simp: okp_iff print_promise_def exactly_def split: option.splits)
  have "cbytes blk = t" using nz p(2) by (auto simp: cbytes_def takeWhile_append takeWhile_eq_all_conv)
  from parse_printed [OF c x(2,3) t assms(5) this] p(1) show ?thesis by blast
qed

text \<open>The item of \<^verbatim>\<open>{"a":[true,null]}\<close>.\<close>

definition some_object :: cJSON where
  "some_object =
     CJSON (fields0\<lparr>jtype := cJSON_Object\<rparr>)
       [CJSON (fields0\<lparr>jtype := cJSON_Array, jstring := Some [97]\<rparr>)
          [true_item, CJSON (fields0\<lparr>jtype := cJSON_NULL\<rparr>) []]]"

lemma some_object_facts:
  "text_value False 0 some_object =
     Some [123, 34, 97, 34, 58, 91, 116, 114, 117, 101, 44, 110, 117, 108, 108, 93, 125]"
  "canonical some_object" "clean some_object" "nesting some_object \<le> CJSON_NESTING_LIMIT"
  "jstring (jfields some_object) = None"
  by (simp_all add: some_object_def true_item_def fields0_def cJSON_types when_fmt_def tabs_def quoted_def escaped_def
      cbytes_def leaf_ok_def holds_def name_ok_def dbl0_def CJSON_NESTING_LIMIT_def)

theorem print_parse_round_trip_witness:
  "\<exists>blk live. print some_env (Some some_object) False = Ok (Some blk, live) \<and>
    okp (\<lambda>r'. out_item r' = Some some_object) (cJSON_ParseWithOpts (\<lambda>_. True) (Some blk) True 0)"
proof -
  let ?s = "[123, 34, 97, 34, 58, 91, 116, 114, 117, 101, 44, 110, 117, 108, 108, 93, 125] :: u8 list"
  have "okp (\<lambda>r. out_item r = Some some_object) (cJSON_ParseWithOpts (\<lambda>_. True) (Some ?s) True 0)"
    by (rule parse_printed [OF some_object_facts(2,5,4,1)]) (simp_all add: cbytes_def)
  then obtain r where r: "cJSON_ParseWithOpts (\<lambda>_. True) (Some ?s) True 0 = Ok r" "out_item r = Some some_object"
    by (auto simp: okp_iff)
  show ?thesis
    by (rule print_parse_round_trip [OF r some_object_facts(3)])
      (simp_all add: some_env_def some_object_facts(1) INT_MAX_def)
qed

end
