(* ===== verification/Spec2Isabelle.thy ===== *)
theory Spec2Isabelle
  imports Main_Props Net_Props Fw_Config Agent_Net Orch_Props Json_Round_Trip
begin

text \<open>
  A verification of the dataplane: the packet engine on DPDK (\<^verbatim>\<open>src/engine\<close>), the scheduler that
  runs its threads on ghOSt (\<^verbatim>\<open>src/ghost_agent\<close>) and the scripts that set up the experiments
  (\<^verbatim>\<open>src/orchestrator\<close>).

  \<^bold>\<open>The program.\<close>  The engine switches packets between five kernel network interfaces (KNI).  One
  thread, the fast path, reads the interfaces, hands packets to coprocessors over rings, takes
  back what they let through, and sends it to the interface that the routing table names.  Each
  coprocessor is a thread that runs the firewall, whose rules come from a JSON file.  The ghOSt
  agent is a separate process: it looks in the control groups for threads of the engine and of the
  containers, moves them to the scheduling class of ghOSt, and assigns them to CPUs.  The
  orchestrator gives the interfaces addresses and starts containers that use them.

  \<^bold>\<open>Conventions.\<close>  A definition has the name of the function that it translates; the body of a loop,
  or a passage of a long function, is a definition of its own.  Code that can fail returns
  \<open>cerror + 'a\<close> (\<open>Prelude\<close>): undefined behaviour, failed checks, exceptions, exits and exhausted fuel
  are values.  The agent and the scripts use the state and error monad of \<open>Agent_Monad\<close>, whose predicates
  \<open>outcome\<close> and \<open>wp\<close> say that an operation returns with a postcondition or ends with one of the named
  errors.  C integers keep their width where they can wrap; sizes and indices that the code bounds
  are natural numbers.

  \<^bold>\<open>Theories of the engine.\<close>
  \<^item> \<open>Prelude\<close>, \<open>CLib\<close>: errors, results, the C library on text.
  \<^item> \<open>Dpdk\<close>: the interface to DPDK as a record, what is relied on, and one implementation with lists.
  \<^item> \<open>Engine_State\<close>, \<open>Init\<close>, \<open>Interface\<close>: \<^verbatim>\<open>init.h\<close>, \<^verbatim>\<open>switch.h\<close>, \<^verbatim>\<open>init.c\<close>, \<^verbatim>\<open>interface.c\<close>.  The global
    variables are the record \<open>engine\<close>.  Shown: the routing table, and that start-up establishes \<open>engine_ok\<close>.
  \<^item> \<open>Json_Num\<close>, \<open>Json_Data\<close>, \<open>Json_Text\<close>, \<open>Json_Text_Facts\<close>, \<open>Json_Parse\<close>, \<open>Json_Safe\<close>, \<open>Json_Props\<close>:
    the part of \<^verbatim>\<open>cJSON.c\<close> that the firewall calls.  Shown: on every input and for every allocator the
    parser ends, stays inside its buffers and leaks nothing.  The locale \<open>value_parsing\<close> is the contract of the
    recursive call, interpreted on \<open>parse_value\<close>.
  \<^item> \<open>Json_Fmt\<close>, \<open>Json_Fmt_Props\<close>, \<open>Json_Print\<close>, \<open>Json_Print_Text\<close>, \<open>Json_Print_Buffer\<close>, \<open>Json_Print_Values\<close>,
    \<open>Json_Print_Props\<close>, \<open>Json_Reread\<close>, \<open>Json_Round_Trip\<close>: the printing of \<^verbatim>\<open>cJSON.c\<close>, with the buffer that
    grows and the conversion of numbers in the C locale.  Shown: the printer implements the text of an
    item for every allocator and stays inside its blocks, and parsing a printed item gives it
    back.  The locale \<open>value_reading\<close> is the contract of \<open>parse_value\<close> on printed text.
  \<^item> \<open>Firewall\<close>, \<open>Fw_Rules\<close>, \<open>Fw_Config\<close>, \<open>Coprocessor\<close>: \<^verbatim>\<open>firewall.c\<close> and \<^verbatim>\<open>coprocessor.c\<close>.  Shown: the decision
    on a packet, the table after set-up, the rules of a file, and how bad files fail.
  \<^item> \<open>Staging\<close>, \<open>Switch\<close>, \<open>Switch_Facts\<close>, \<open>Switch_Rounds\<close>, \<open>Switch_Props\<close>: \<^verbatim>\<open>switch.c\<close>.  The locale \<open>staging\<close> is
    the contract of a staging buffer, interpreted on the three kinds of buffers; \<open>accepting_staging\<close>
    extends it by a target that refuses nothing.  Shown: no packet is lost or duplicated by a
    round, and the order of delivery.
  \<^item> \<open>Main_Loop\<close>, \<open>Main_Props\<close>: \<^verbatim>\<open>main.c\<close> and the main loop, as a step relation that interleaves the turns
    of the threads with signals.  Shown: an invariant of all reachable states, and every cause of a crash, failed
    allocations included.

  \<^bold>\<open>Theories of the agent.\<close>
  \<^item> \<open>Agent_Monad\<close>, \<open>Ghost_Env\<close>: the monad; the interface to ghOSt and the kernel as a record.
  \<^item> \<open>Net_Task\<close>, \<open>Net_Pick\<close>, \<open>Net_Sched\<close>: \<^verbatim>\<open>net_scheduler.h\<close> and \<^verbatim>\<open>net_scheduler.cc\<close>.  The fields of
    \<^verbatim>\<open>NetScheduler\<close> are the record \<open>sched\<close>.  The locale \<open>task_queue\<close> is the contract of the run queue.
  \<^item> \<open>Net_Inv\<close>, \<open>Net_Handlers\<close>, \<open>Net_Round\<close>, \<open>Net_Props\<close>: the invariant, that every handler and every round
    keeps it except the departure of a task that is still held, which always breaks it; the
    refinement of the handlers to a state machine per task; a round fills the free CPUs.
  \<^item> \<open>Cgroup\<close>, \<open>Cgroup_Props\<close>: \<^verbatim>\<open>cgroup_watcher.cc\<close>.  Shown: the walk ends, and it moves exactly the threads
    that a rule selects.
  \<^item> \<open>Agent_Net\<close>: \<^verbatim>\<open>agent_net.cc\<close> and the classes \<^verbatim>\<open>NetConfig\<close> and \<^verbatim>\<open>FullNetAgent\<close>.  Shown: an accepted
    configuration starts a consistent scheduler, the pause ends, the loop stops after a signal.

  \<^bold>\<open>Theories of the orchestrator.\<close>
  \<^item> \<open>Py_Lib\<close>, \<open>Orchestrator\<close>, \<open>Orch_Props\<close>: what is used of Python; \<^verbatim>\<open>common.py\<close>, \<^verbatim>\<open>ports.py\<close>, \<^verbatim>\<open>docker.py\<close>,
    \<^verbatim>\<open>cloudsuite.py\<close> and \<^verbatim>\<open>run_experiment.py\<close> over an arbitrary shell, the record \<open>shell\<close>.
  \<^item> This theory: the engine and the orchestrator together.

  \<^bold>\<open>Fuel.\<close>  \<open>parse_value\<close> and its loops get one unit more than the length of the input, and every call
  consumes a byte.  \<open>assign_loop\<close> gets \<open>loop_fuel\<close>, one more than the number of waiting tasks and of CPUs, one of
  which decreases in every turn.  \<open>ScrapeDirectory\<close> gets \<open>walk_fuel\<close>, one more than \<^verbatim>\<open>PATH_MAX\<close>: a path grows
  with every level.  \<open>SleepFor\<close> and \<open>main_loop\<close> take their fuel as an argument, and lemmas say how much
  is enough; the loop itself runs until a signal.  Reading the rule file can run forever, which is the value
  \<open>None\<close>.  In each case it is proved that the bound is not reached, or under which condition.  Printing
  follows the tree and needs no fuel.

  \<^bold>\<open>Parameters.\<close>  DPDK, the Ethernet device, the ghOSt library, the kernel, the file system and the shell are
  records of functions.  Properties that rely on them have hypotheses such as \<open>ring_spec\<close>, \<open>lpm_spec\<close>,
  \<open>cpulist_spec\<close> or \<open>paths_bounded\<close>; the witnesses run on concrete instances.

  \<^bold>\<open>Not modelled.\<close>
  \<^item> Comparing, duplicating, minifying and editing of JSON trees: the engine does not call them.
  \<^item> Text written to the terminal, among it the dump of tasks and of the topology, and the writing of
    the table of an experiment to a file.
  \<^item> Races inside one turn of a thread of the engine, and of the agent with the main thread of its
    process: the model interleaves whole turns, or messages and rounds.
  \<^item> The fork of the agent process, the start of its threads and the handler of SIGUSR1, which is one
    call of the ghOSt library.
  \<^item> Overflow of the counters of the agent, which are integers of the model.
  \<^item> Changes of a directory while it is listed: the entries are read at once.
  \<^item> \<^verbatim>\<open>prune.sh\<close>, which has no logic.
\<close>

section \<open>The engine and the orchestrator\<close>

lemma engine_port_name:
  "conf_name (kni_conf D 0 i) = take (RTE_KNI_NAMESIZE D - 1) (fst (port_to_ip_mapping i))"
proof -
  have "dec_nat 0 = ''0''" by (simp add: dec_nat.simps digit_chars)
  then show ?thesis by (simp add: kni_conf_def snprintf_trunc_def port_to_ip_mapping_def)
qed

lemma ten_cases:
  assumes "i < n_kni_ports"
  shows "i = 0 \<or> i = 1 \<or> i = 2 \<or> i = 3 \<or> i = 4 \<or> i = 5 \<or> i = 6 \<or> i = 7 \<or> i = 8 \<or> i = 9"
  using assms by (auto simp: n_kni_ports_def)

lemma orchestrator_address:
  assumes "i < n_kni_ports"
  shows "fw_pkt_parse_ip (Some (snd (port_to_ip_mapping i))) (Some old) =
    (0, Some (RTE_IPV4 192 167 10 (word_of_nat (i + 1))))"
proof -
  have "snd (port_to_ip_mapping i) = dec_nat 192 @ ''.'' @ dec_nat 167 @ ''.'' @ dec_nat 10 @ ''.'' @ dec_nat (i + 1)"
    by (simp add: port_to_ip_mapping_def dec_nat.simps [of 192] dec_nat.simps [of 19] dec_nat.simps [of 167]
        dec_nat.simps [of 16] dec_nat.simps [of 10] dec_nat.simps [of "Suc 0"] digit_chars)
  moreover have "i + 1 < 256" using assms by (simp add: n_kni_ports_def)
  ultimately show ?thesis
    using sscanf_dotted_dec [of 192 167 10 "i + 1"] by (simp add: fw_pkt_parse_ip_def)
qed

text \<open>
  C14: The orchestrator and the engine agree on the ports that both know.  For every port number
  that the orchestrator sets up, an IPv4 packet to the address it gives the port is routed by the
  initialised engine to the port of that number if the engine has it, and to port 0 otherwise.
  The name that the orchestrator uses is the one under which the engine creates the port, as long
  as the names fit the buffer of the library.
\<close>

theorem orchestrator_addresses_routed:
  assumes "init D engine0 = Ok (0, s)" and "i < n_kni_ports" and "port_to_ip_mapping i = (name, ip)"
    and "fw_pkt_parse_ip (Some ip) (Some old) = (0, Some dst)"
    and "rd16_be p 12 = Ok 0x0800" and "rd32_be p (ether_hdr_len + 16) = Ok dst"
  shows "get_next_hop s p = Ok (if i < KNI_KTHREAD then word_of_nat i else 0) \<and>
    (8 \<le> RTE_KNI_NAMESIZE D \<longrightarrow> conf_name (kni_conf D 0 i) = name)"
proof -
  have dst: "dst = RTE_IPV4 192 167 10 (word_of_nat (i + 1))"
    using orchestrator_address [OF assms(2), of old] assms(3,4) by simp
  have "get_next_hop s p = Ok (if i < KNI_KTHREAD then word_of_nat i else 0)"
    unfolding next_hop_eq [OF assms(1,5,6)] dst using ten_cases [OF assms(2)]
    by (elim disjE; hypsubst) (simp_all add: RTE_IPV4_def KNI_KTHREAD_def)
  moreover have "conf_name (kni_conf D 0 i) = name" if "8 \<le> RTE_KNI_NAMESIZE D"
  proof -
    have "length (dec_nat i) = 1" using assms(2) by (simp add: n_kni_ports_def dec_nat_small)
    then have "length name = 7" using assms(3) by (auto simp: port_to_ip_mapping_def)
    with that assms(3) show ?thesis by (simp add: engine_port_name)
  qed
  ultimately show ?thesis by blast
qed

theorem orchestrator_addresses_routed_witness:
  "\<exists>s. init list_dpdk engine0 = Ok (0, s) \<and> port_to_ip_mapping 6 = (''vEth0_6'', ''192.167.10.7'') \<and>
     get_next_hop s (ip_packet 0x45 [10, 0, 0, 1] [192, 167, 10, 7]) = Ok 0"
proof -
  obtain s where s: "init list_dpdk engine0 = Ok (0, s)" using init_list_dpdk by blast
  have m: "port_to_ip_mapping 6 = (''vEth0_6'', ''192.167.10.7'')"
    by (simp add: port_to_ip_mapping_def dec_nat.simps digit_chars)
  have n: "6 < n_kni_ports" by (simp add: n_kni_ports_def)
  have "RTE_IPV4 192 167 10 7 = 0xC0A70A07" by (simp add: RTE_IPV4_def)
  with orchestrator_address [OF n, of 0] m have ip: "fw_pkt_parse_ip (Some ''192.167.10.7'') (Some 0) = (0, Some 0xC0A70A07)" by simp
  have "rd16_be (ip_packet 0x45 [10, 0, 0, 1] [192, 167, 10, 7]) 12 = Ok 0x0800"
    "rd32_be (ip_packet 0x45 [10, 0, 0, 1] [192, 167, 10, 7]) (ether_hdr_len + 16) = Ok 0xC0A70A07"
    by (simp_all add: ip_packet_def rd16_be_def rd32_be_def rd8_def nth_append ether_hdr_len_def)
  from orchestrator_addresses_routed [OF s n m ip this] s m show ?thesis by (auto simp: KNI_KTHREAD_def)
qed

text \<open>
  C15: With the engine of the repository the experiment never completes: if the shell lists only
  network ports that the engine creates, the main program ends with an error, because the web
  search server is given the port with the number 5 and the engine has the ports 0 to 4.
\<close>

theorem experiment_stops:
  assumes "\<forall>w. set (listed S w) \<subseteq> (\<lambda>i. conf_name (kni_conf D 0 i)) ` {..<KNI_KTHREAD}"
  shows "\<exists>e. run_experiment S w = Err e"
proof -
  have "conf_name (kni_conf D 0 i) \<noteq> ''vEth0_5''" if "i < KNI_KTHREAD" for i
  proof
    assume "conf_name (kni_conf D 0 i) = ''vEth0_5''"
    then have 5: "take (RTE_KNI_NAMESIZE D - 1) (''vEth0_'' @ dec_nat i) = ''vEth0_5''"
      by (simp add: engine_port_name port_to_ip_mapping_def)
    have "i < 10" using that by (simp add: KNI_KTHREAD_def)
    then have i: "dec_nat i = [digit_char i]" by (rule dec_nat_small)
    have "length (take (RTE_KNI_NAMESIZE D - 1) (''vEth0_'' @ dec_nat i)) = 7" unfolding 5 by simp
    then have "7 \<le> RTE_KNI_NAMESIZE D - 1" by (simp add: i)
    with 5 have "digit_char i = digit_char 5" by (simp add: i digit_chars)
    with \<open>i < 10\<close> have "i = 5" using digit_val_digit_char [of i] digit_val_digit_char [of 5] by simp
    with that show False by (simp add: KNI_KTHREAD_def)
  qed
  then have "''vEth0_5'' \<notin> (\<lambda>i. conf_name (kni_conf D 0 i)) ` {..<KNI_KTHREAD}" by force
  with assms have "''vEth0_5'' \<notin> set (listed S w)" for w by (meson subsetD)
  from experiment_needs_port_5 [OF this] show ?thesis by (auto simp: outcome_iff)
qed

theorem experiment_stops_witness:
  "run_experiment demo_shell [] = Err (Exit ''KNI vEth0_5 not up'') \<and>
   (\<forall>w. set (listed demo_shell w) \<subseteq> (\<lambda>i. conf_name (kni_conf list_dpdk 0 i)) ` {..<KNI_KTHREAD}) \<and>
   (\<exists>e. run_experiment demo_shell [''echo''] = Err e)"
proof -
  have "RTE_KNI_NAMESIZE list_dpdk = 16" by (simp add: list_dpdk_def)
  moreover have "{..<KNI_KTHREAD} = {0, 1, 2, 3, 4}" by (auto simp: KNI_KTHREAD_def)
  ultimately have "(\<lambda>i. conf_name (kni_conf list_dpdk 0 i)) ` {..<KNI_KTHREAD} = set demo_ports"
    by (simp add: engine_port_name port_to_ip_mapping_def dec_nat_small digit_chars demo_ports_def)
  then have "\<forall>w. set (listed demo_shell w) \<subseteq> (\<lambda>i. conf_name (kni_conf list_dpdk 0 i)) ` {..<KNI_KTHREAD}"
    by (simp add: listed_demo demo_ports_def)
  with experiment_stops [OF this] demo_experiment show ?thesis by blast
qed

end
